(* ===== verification/Sdhm_Prelude.thy ===== *)
theory Sdhm_Prelude
  imports Main "HOL-Library.Word" "HOL-Library.Multiset"
    "HOL-Library.List_Lexorder" "HOL-Library.Char_ord" "HOL-Library.Sublist"
begin

text \<open>
  The prelude of the development: Go errors as values (sentinels, formatted errors, wrapping with
  the \<open>%w\<close> verb, joined errors) with \<open>errors.Is\<close>, \<open>errors.Join\<close> and the
  error text; contexts; the result types every component uses; and the list lemmas that several
  components share.

  A Go string or byte slice is a \<^typ>\<open>string\<close>, a list of 8-bit characters, so lengths
  and offsets count bytes as they do in Go, and \<open>cmp.Compare\<close> on strings is the
  lexicographic order of the library.
\<close>

section \<open>Collections of facts\<close>

named_theorems go_defs \<open>definitions of the small Go library operations\<close>
named_theorems frame_simps \<open>what an operation leaves unchanged\<close>

section \<open>Errors\<close>

text \<open>
  The sentinel errors the source compares with \<open>errors.Is\<close>: those of \<open>context\<close>,
  \<open>io/fs\<close>, \<open>io\<close>, \<open>syscall\<close> and \<open>net/http\<close>, and the repository's own
  \<open>errConcurrentModification\<close>, \<open>errHealthServerStopped\<close> and \<open>errHostsLocked\<close>.
\<close>

datatype sentinel =
    Canceled
  | DeadlineExceeded
  | ErrNotExist
  | ErrExist
  | ErrShortWrite
  | EISDIR
  | ELOOP
  | EWOULDBLOCK
  | ErrServerClosed
  | ErrConcurrentModification
  | ErrHealthServerStopped
  | ErrHostsLocked

text \<open>
  A formatted message keeps its literal parts and its arguments apart: \<open>%q\<close> quotes its
  argument with \<open>strconv.Quote\<close>, which stays a parameter of \<open>errorText\<close>.
\<close>

datatype fpart = Lit string | Quoted string | Dec int

datatype go_error =
    Sentinel sentinel
  | Opaque string                               \<comment> \<open>an error of an operating-system call or of another package\<close>
  | Errorf "fpart list"                         \<comment> \<open>\<open>errors.New\<close>, or \<open>fmt.Errorf\<close> without \<open>%w\<close>\<close>
  | Wrapf "fpart list" go_error "fpart list"    \<comment> \<open>\<open>fmt.Errorf\<close> with one \<open>%w\<close>: before, wrapped error, after\<close>
  | Joined "go_error list"                      \<comment> \<open>\<open>errors.Join\<close>\<close>

abbreviation errors_New :: "string \<Rightarrow> go_error" where
  "errors_New s \<equiv> Errorf [Lit s]"

abbreviation wrap :: "string \<Rightarrow> go_error \<Rightarrow> go_error" where
  "wrap s e \<equiv> Wrapf [Lit s] e []"

text \<open>\<open>errors.Is(err, target)\<close> for a sentinel target follows every wrapped and joined error.\<close>

fun errors_Is :: "go_error \<Rightarrow> sentinel \<Rightarrow> bool" where
  "errors_Is (Sentinel s) t = (s = t)"
| "errors_Is (Opaque m) t = False"
| "errors_Is (Errorf ps) t = False"
| "errors_Is (Wrapf ps e qs) t = errors_Is e t"
| "errors_Is (Joined es) t = list_ex (\<lambda>e. errors_Is e t) es"

text \<open>\<open>errors.Join\<close> drops nil errors and is nil when nothing is left.\<close>

definition errors_Join :: "go_error option list \<Rightarrow> go_error option" where
  "errors_Join es =
     (let kept = concat (map (\<lambda>e. case e of None \<Rightarrow> [] | Some x \<Rightarrow> [x]) es)
      in if kept = [] then None else Some (Joined kept))"

lemma errors_Join_None_iff [simp]: "errors_Join es = None \<longleftrightarrow> (\<forall>e\<in>set es. e = None)"
  by (auto simp: errors_Join_def split: option.splits)

lemma errors_Join_Some_Cons [simp]: "errors_Join (Some e # es) \<noteq> None"
  by simp

lemma errors_Join_is:
  assumes "errors_Join es = Some e"
  shows "errors_Is e t \<longleftrightarrow> (\<exists>x. Some x \<in> set es \<and> errors_Is x t)"
proof -
  have "e = Joined (concat (map (\<lambda>e. case e of None \<Rightarrow> [] | Some x \<Rightarrow> [x]) es))"
    using assms by (auto simp: errors_Join_def Let_def split: if_splits)
  then show ?thesis
    by (auto simp: list_ex_iff split: option.splits)
qed

section \<open>Result types and contexts\<close>

text \<open>
  \<open>error\<close> results are \<open>go_error option\<close> (\<open>None\<close> is nil); a pair of a value and an
  error is \<open>go_error + 'a\<close>. A context is what \<open>ctx.Err()\<close> returns at each instant of
  the run's clock.
\<close>

type_synonym err = "go_error option"
type_synonym ctx = "nat \<Rightarrow> go_error option"

text \<open>Once a context is done it stays done: the documented law of \<open>context.Context\<close>.\<close>

definition ctx_monotone :: "ctx \<Rightarrow> bool" where
  "ctx_monotone c \<longleftrightarrow> (\<forall>n m. n \<le> m \<longrightarrow> c n \<noteq> None \<longrightarrow> c m = c n)"

section \<open>List lemmas\<close>

lemma takeWhile_neq_append_hd:
  "x \<in> set xs \<Longrightarrow> xs = takeWhile (\<lambda>y. y \<noteq> x) xs @ x # tl (dropWhile (\<lambda>y. y \<noteq> x) xs)"
  by (induction xs) auto

lemma split_first_unique:
  "c \<notin> set m \<Longrightarrow> c \<notin> set n \<Longrightarrow> m @ c # a = n @ c # b \<Longrightarrow> m = n \<and> a = b"
proof (induction m arbitrary: n)
  case Nil
  then show ?case by (cases n) auto
next
  case (Cons x m)
  then show ?case by (cases n) auto
qed

lemma split_last_unique:
  assumes "c \<notin> set m" "c \<notin> set n" "a @ c # m = b @ c # n"
  shows "a = b \<and> m = n"
proof -
  have "rev m @ c # rev a = rev n @ c # rev b" using arg_cong [OF assms(3), of rev] by simp
  then have "rev m = rev n \<and> rev a = rev b" by (rule split_first_unique [rotated 2]) (use assms in simp_all)
  then show ?thesis by simp
qed

lemma distinct_map_inj_list:
  "distinct (map f xs) \<Longrightarrow> x \<in> set xs \<Longrightarrow> y \<in> set xs \<Longrightarrow> f x = f y \<Longrightarrow> x = y"
  by (simp add: distinct_map inj_on_def)

lemma sorted_wrt_mset_unique:
  assumes "sorted_wrt P xs" "sorted_wrt P ys" "mset xs = mset ys"
    and "\<And>x y. x \<in> set xs \<Longrightarrow> y \<in> set xs \<Longrightarrow> P x y \<Longrightarrow> P y x \<Longrightarrow> x = y"
  shows "xs = ys"
  using assms
proof (induction xs arbitrary: ys)
  case Nil
  then show ?case by simp
next
  case (Cons x xs)
  from Cons.prems(3) obtain y ys' where ys: "ys = y # ys'"
    by (cases ys) auto
  have sets: "set (x # xs) = set (y # ys')"
    using Cons.prems(3) ys by (metis mset_eq_setD)
  have "x = y"
  proof (rule ccontr)
    assume ne: "x \<noteq> y"
    with sets have "x \<in> set ys'" "y \<in> set xs" by auto
    with Cons.prems(1,2) ys have "P x y" "P y x" by auto
    with Cons.prems(4) sets ne show False by auto
  qed
  moreover have "xs = ys'"
  proof (rule Cons.IH)
    show "sorted_wrt P xs" "sorted_wrt P ys'" using Cons.prems(1,2) ys by auto
    show "mset xs = mset ys'" using Cons.prems(3) ys \<open>x = y\<close> by simp
    show "\<And>a b. a \<in> set xs \<Longrightarrow> b \<in> set xs \<Longrightarrow> P a b \<Longrightarrow> P b a \<Longrightarrow> a = b"
      using Cons.prems(4) by simp
  qed
  ultimately show ?case using ys by simp
qed

lemma subseq_subset: "subseq xs ys \<Longrightarrow> set xs \<subseteq> set ys"
  by (induction rule: list_emb.induct) auto

lemma sorted_wrt_subseq: "subseq xs ys \<Longrightarrow> sorted_wrt P ys \<Longrightarrow> sorted_wrt P xs"
  by (induction rule: list_emb.induct) (auto dest!: subseq_subset)

end
