(* ===== verification/Go_Text.thy ===== *)
theory Go_Text
  imports Sdhm_Prelude
begin

text \<open>
  The parts of Go's \<open>unicode/utf8\<close>, \<open>unicode\<close>, \<open>strings\<close> and \<open>bytes\<close>
  packages the program uses on byte strings: decoding a string rune by rune (an invalid byte is the
  rune U+FFFD of width one), \<open>unicode.IsSpace\<close> and \<open>unicode.IsControl\<close>,
  \<open>strings.TrimSpace\<close>, \<open>strings.IndexFunc\<close>, \<open>bytes.IndexByte\<close>,
  \<open>strings.Split\<close> on one byte, \<open>strings.Join\<close> and decimal printing. The lemmas relate
  the runes of a string to its bytes, which is what the hosts-file checks rest on.
\<close>

section \<open>Runes\<close>

abbreviation byte :: "char \<Rightarrow> nat" where
  "byte c \<equiv> of_char c"

definition RuneError :: nat where
  "RuneError = 65533"

text \<open>
  The first byte of a multi-byte rune gives the rune's width and the range of its second byte
  (the table \<open>first\<close> and \<open>acceptRanges\<close> of \<open>unicode/utf8\<close>); \<open>None\<close> is a
  byte that starts no rune.
\<close>

definition lead_info :: "nat \<Rightarrow> (nat \<times> nat \<times> nat) option" where
  "lead_info b =
     (if b < 194 then None
      else if b \<le> 223 then Some (2, 128, 191)
      else if b = 224 then Some (3, 160, 191)
      else if b = 237 then Some (3, 128, 159)
      else if b \<le> 239 then Some (3, 128, 191)
      else if b = 240 then Some (4, 144, 191)
      else if b \<le> 243 then Some (4, 128, 191)
      else if b = 244 then Some (4, 128, 143)
      else None)"

definition is_cont :: "nat \<Rightarrow> bool" where
  "is_cont b \<longleftrightarrow> 128 \<le> b \<and> b \<le> 191"

text \<open>
  \<open>utf8.DecodeRuneInString\<close>: the first rune and its width in bytes. The second byte must lie
  in the range of the first one, the others must be continuation bytes, and each of them
  contributes its low six bits.
\<close>

definition rune_tail_ok :: "nat \<Rightarrow> nat \<Rightarrow> nat \<Rightarrow> string \<Rightarrow> bool" where
  "rune_tail_ok sz lo hi t \<longleftrightarrow>
     sz - 1 \<le> length t \<and> lo \<le> byte (hd t) \<and> byte (hd t) \<le> hi \<and>
     (\<forall>c\<in>set (tl (take (sz - 1) t)). is_cont (byte c))"

definition decodeRune :: "string \<Rightarrow> nat \<times> nat" where
  "decodeRune s =
     (case s of
        [] \<Rightarrow> (RuneError, 0)
      | c # t \<Rightarrow>
          if byte c < 128 then (byte c, 1)
          else case lead_info (byte c) of
                 None \<Rightarrow> (RuneError, 1)
               | Some (sz, lo, hi) \<Rightarrow>
                   if rune_tail_ok sz lo hi t
                   then (foldl (\<lambda>acc x. acc * 64 + byte x mod 64) (byte c mod 2 ^ (7 - sz))
                           (take (sz - 1) t), sz)
                   else (RuneError, 1))"

lemma lead_info_size: "lead_info b = Some (sz, lo, hi) \<Longrightarrow> 2 \<le> sz \<and> sz \<le> 4 \<and> 128 \<le> lo \<and> hi \<le> 191"
  by (auto simp: lead_info_def split: if_splits)

lemma rune_tail_ok_bytes:
  assumes "rune_tail_ok sz lo hi t" and "2 \<le> sz" and "128 \<le> lo" and "c \<in> set (take (sz - 1) t)"
  shows "128 \<le> byte c"
proof (cases t)
  case (Cons d u)
  obtain k where k: "sz = Suc (Suc k)" using assms(2) by (metis Suc_1 add_2_eq_Suc le_Suc_ex)
  have "c = d \<or> c \<in> set (take k u)" using assms(4) Cons k by simp
  moreover have "128 \<le> byte d" using assms(1,3) Cons by (simp add: rune_tail_ok_def)
  moreover have "\<forall>x\<in>set (take k u). 128 \<le> byte x"
    using assms(1) Cons k by (simp add: rune_tail_ok_def is_cont_def)
  ultimately show ?thesis by blast
qed (use assms in simp)

text \<open>
  The three outcomes of decoding a non-empty string: an ASCII byte is its own rune, a byte that
  starts no valid sequence is U+FFFD of width one, and a valid sequence holds no ASCII byte.
\<close>

lemma decodeRune_cases:
  assumes "decodeRune (c # t) = (r, n)"
  obtains (ascii) "byte c < 128" "r = byte c" "n = 1"
    | (invalid) "128 \<le> byte c" "r = RuneError" "n = 1"
    | (valid) k where "128 \<le> byte c" "n = Suc k" "k \<le> length t" "\<forall>x\<in>set (take k t). 128 \<le> byte x"
proof (cases "byte c < 128")
  case True
  with assms have "r = byte c" "n = 1" by (simp_all add: decodeRune_def)
  with True ascii show ?thesis by blast
next
  case False
  note big = this
  then have ge: "128 \<le> byte c" by simp
  show ?thesis
  proof (cases "lead_info (byte c)")
    case None
    with assms big have "r = RuneError" "n = 1" by (simp_all add: decodeRune_def)
    with ge invalid show ?thesis by blast
  next
    case (Some q)
    obtain sz lo hi where q: "q = (sz, lo, hi)" by (metis surj_pair)
    with Some have b: "2 \<le> sz" "128 \<le> lo" using lead_info_size by auto
    show ?thesis
    proof (cases "rune_tail_ok sz lo hi t")
      case True
      with assms big Some q have "n = Suc (sz - 1)" using b by (simp add: decodeRune_def)
      moreover have "sz - 1 \<le> length t" using True by (simp add: rune_tail_ok_def)
      moreover have "\<forall>x\<in>set (take (sz - 1) t). 128 \<le> byte x"
        using True b rune_tail_ok_bytes by blast
      ultimately show ?thesis using valid ge by blast
    next
      case False
      with assms big Some q have "r = RuneError" "n = 1" by (simp_all add: decodeRune_def)
      with ge invalid show ?thesis by blast
    qed
  qed
qed

lemma decodeRune_width_pos: "s \<noteq> [] \<Longrightarrow> 0 < snd (decodeRune s)"
proof (cases s)
  case (Cons c t)
  obtain r n where d: "decodeRune (c # t) = (r, n)" by fastforce
  then have "0 < n" by (cases rule: decodeRune_cases) auto
  with d Cons show ?thesis by simp
qed simp

text \<open>The string as Go's \<open>range\<close> loop sees it: each rune with the bytes it was decoded from.\<close>

function rune_segs :: "string \<Rightarrow> (nat \<times> string) list" where
  "rune_segs s =
     (if s = [] then []
      else let (r, n) = decodeRune s in (r, take n s) # rune_segs (drop n s))"
  by pat_completeness auto
termination
proof (relation "measure length")
  fix s :: string and r n p
  assume "s \<noteq> []" "p = decodeRune s" "(r, n) = p"
  with decodeRune_width_pos [of s] have "0 < n" by (metis snd_conv)
  with \<open>s \<noteq> []\<close> show "(drop n s, s) \<in> measure length" by simp
qed simp

declare rune_segs.simps [simp del]

lemma rune_segs_Nil [simp]: "rune_segs [] = []"
  by (simp add: rune_segs.simps)

lemma rune_segs_step:
  "s \<noteq> [] \<Longrightarrow> decodeRune s = (r, n) \<Longrightarrow> rune_segs s = (r, take n s) # rune_segs (drop n s)"
  by (simp add: rune_segs.simps)

definition runes :: "string \<Rightarrow> nat list" where
  "runes s = map fst (rune_segs s)"

definition RuneCount :: "string \<Rightarrow> nat" where
  "RuneCount s = length (runes s)"

lemma rune_segs_concat [simp]: "concat (map snd (rune_segs s)) = s"
proof (induction s rule: rune_segs.induct)
  case (1 s)
  show ?case
  proof (cases "s = []")
    case False
    obtain r n where d: "decodeRune s = (r, n)" by fastforce
    from "1.IH" False d have "concat (map snd (rune_segs (drop n s))) = drop n s" by auto
    with False d show ?thesis by (simp add: rune_segs_step)
  qed simp
qed

subsection \<open>Bytes and runes\<close>

lemma decodeRune_ascii: "byte c < 128 \<Longrightarrow> decodeRune (c # s) = (byte c, 1)"
  by (simp add: decodeRune_def Let_def)

lemma rune_segs_ascii: "byte c < 128 \<Longrightarrow> rune_segs (c # s) = (byte c, [c]) # rune_segs s"
  by (simp add: rune_segs_step [of "c # s" "byte c" 1] decodeRune_ascii)

text \<open>An ASCII byte is never swallowed by a multi-byte rune.\<close>

lemma decodeRune_prefix_bytes:
  assumes "decodeRune s = (r, n)" and "c \<in> set (take n s)" and "byte c < 128"
  shows "r = byte c"
proof (cases s)
  case (Cons c0 t)
  from assms(1) Cons have "decodeRune (c0 # t) = (r, n)" by simp
  then show ?thesis
    using assms(2,3) Cons by (cases rule: decodeRune_cases) auto
qed (use assms in simp)

lemma ascii_byte_in_runes: "c \<in> set s \<Longrightarrow> byte c < 128 \<Longrightarrow> byte c \<in> set (runes s)"
proof (induction s rule: rune_segs.induct)
  case (1 s)
  from "1.prems" have ne: "s \<noteq> []" by auto
  obtain r n where d: "decodeRune s = (r, n)" by fastforce
  show ?case
  proof (cases "c \<in> set (take n s)")
    case True
    with d "1.prems" have "r = byte c" by (simp add: decodeRune_prefix_bytes)
    with ne d show ?thesis by (simp add: runes_def rune_segs_step)
  next
    case False
    with "1.prems" have "c \<in> set (drop n s)"
      by (metis Un_iff append_take_drop_id set_append)
    with "1.IH" ne d "1.prems" have "byte c \<in> set (runes (drop n s))" by auto
    with ne d show ?thesis by (simp add: runes_def rune_segs_step)
  qed
qed

lemma rune_segs_all_ascii:
  "\<forall>c\<in>set s. byte c < 128 \<Longrightarrow> rune_segs s = map (\<lambda>c. (byte c, [c])) s"
  by (induction s) (auto simp: rune_segs_ascii)

lemma RuneCount_ascii: "\<forall>c\<in>set s. byte c < 128 \<Longrightarrow> RuneCount s = length s"
  by (simp add: RuneCount_def runes_def rune_segs_all_ascii)

lemma runes_all_ascii: "\<forall>c\<in>set s. byte c < 128 \<Longrightarrow> runes s = map byte s"
  by (simp add: runes_def rune_segs_all_ascii comp_def)


subsection \<open>Decoding a prefix\<close>

text \<open>A cut at a rune boundary does not change how the bytes before it decode.\<close>

lemma rune_tail_ok_append:
  assumes "rune_tail_ok sz lo hi xs" and "2 \<le> sz"
  shows "rune_tail_ok sz lo hi (xs @ ys) \<and> take (sz - 1) (xs @ ys) = take (sz - 1) xs"
proof -
  have len: "sz - 1 \<le> length xs" "xs \<noteq> []" using assms by (auto simp: rune_tail_ok_def)
  then have "take (sz - 1) (xs @ ys) = take (sz - 1) xs" by simp
  with assms(1) len show ?thesis by (simp add: rune_tail_ok_def del: take_append)
qed

lemma decodeRune_append:
  assumes "xs \<noteq> []" and "snd (decodeRune (xs @ ys)) \<le> length xs"
  shows "decodeRune xs = decodeRune (xs @ ys)"
proof (cases xs)
  case (Cons c t)
  show ?thesis
  proof (cases "byte c < 128 \<or> lead_info (byte c) = None")
    case True
    with Cons show ?thesis by (auto simp: decodeRune_def)
  next
    case False
    then obtain sz lo hi where q: "lead_info (byte c) = Some (sz, lo, hi)"
      by (metis option.exhaust surj_pair)
    with lead_info_size have sz: "2 \<le> sz" by blast
    have iff: "rune_tail_ok sz lo hi (t @ ys) \<longleftrightarrow> rune_tail_ok sz lo hi t"
    proof
      assume ok: "rune_tail_ok sz lo hi (t @ ys)"
      with assms(2) Cons False q have "sz - 1 \<le> length t" by (simp add: decodeRune_def)
      moreover from this sz have "t \<noteq> []" by auto
      moreover from calculation have "take (sz - 1) (t @ ys) = take (sz - 1) t" by simp
      ultimately show "rune_tail_ok sz lo hi t"
        using ok by (simp add: rune_tail_ok_def del: take_append)
    qed (use sz rune_tail_ok_append in blast)
    show ?thesis
    proof (cases "rune_tail_ok sz lo hi t")
      case True
      with sz have "take (sz - 1) (t @ ys) = take (sz - 1) t" using rune_tail_ok_append by blast
      with True iff Cons False q show ?thesis by (simp add: decodeRune_def del: take_append)
    qed (use iff Cons False q in \<open>simp add: decodeRune_def\<close>)
  qed
qed (use assms in simp)

lemma decodeRune_width_le: "snd (decodeRune s) \<le> length s"
proof (cases s)
  case (Cons c t)
  obtain r n where d: "decodeRune (c # t) = (r, n)" by fastforce
  then have "n \<le> length (c # t)" by (cases rule: decodeRune_cases) auto
  with d Cons show ?thesis by simp
qed (simp add: decodeRune_def)

lemma rune_segs_take:
  "rune_segs (concat (map snd (take k (rune_segs s)))) = take k (rune_segs s)"
proof (induction s arbitrary: k rule: rune_segs.induct)
  case (1 s)
  show ?case
  proof (cases "s = [] \<or> k = 0")
    case False
    obtain r n where d: "decodeRune s = (r, n)" by fastforce
    obtain j where k: "k = Suc j" using False by (cases k) auto
    let ?rest = "concat (map snd (take j (rune_segs (drop n s))))"
    have n: "0 < n" "n \<le> length s"
      using decodeRune_width_pos [of s] decodeRune_width_le [of s] False d by auto
    have IH: "rune_segs ?rest = take j (rune_segs (drop n s))" using "1.IH" False d by auto
    obtain u where u: "drop n s = ?rest @ u"
      by (metis append_take_drop_id concat_append map_append rune_segs_concat)
    have s: "s = (take n s @ ?rest) @ u" using u by (metis append.assoc append_take_drop_id)
    have "decodeRune (take n s @ ?rest) = decodeRune ((take n s @ ?rest) @ u)"
      by (rule decodeRune_append) (use n d s False in auto)
    then have "decodeRune (take n s @ ?rest) = (r, n)" using s d by metis
    then have "rune_segs (take n s @ ?rest) = (r, take n s) # rune_segs ?rest"
      using n False by (simp add: rune_segs_step)
    with False d IH k show ?thesis by (simp add: rune_segs_step)
  qed auto
qed

lemma rune_segs_drop:
  "rune_segs (concat (map snd (drop k (rune_segs s)))) = drop k (rune_segs s)"
proof (induction s arbitrary: k rule: rune_segs.induct)
  case (1 s)
  show ?case
  proof (cases "s = [] \<or> k = 0")
    case False
    obtain r n where d: "decodeRune s = (r, n)" by fastforce
    obtain j where "k = Suc j" using False by (cases k) auto
    with "1.IH" False d show ?thesis by (auto simp: rune_segs_step)
  qed auto
qed

section \<open>Spaces, control characters and trimming\<close>

text \<open>\<open>unicode.IsSpace\<close>: the Latin-1 spaces, then the property White\_Space.\<close>

definition IsSpace :: "nat \<Rightarrow> bool" where
  "IsSpace r \<longleftrightarrow> r \<in> {9, 10, 11, 12, 13, 32, 133, 160, 5760, 8232, 8233, 8239, 8287, 12288} \<or>
     (8192 \<le> r \<and> r \<le> 8202)"

text \<open>\<open>unicode.IsControl\<close>: the category Cc.\<close>

definition IsControl :: "nat \<Rightarrow> bool" where
  "IsControl r \<longleftrightarrow> r < 32 \<or> (127 \<le> r \<and> r < 160)"

definition trim_segs :: "(nat \<times> string) list \<Rightarrow> (nat \<times> string) list" where
  "trim_segs xs =
     rev (dropWhile (\<lambda>x. IsSpace (fst x)) (rev (dropWhile (\<lambda>x. IsSpace (fst x)) xs)))"

definition TrimSpace :: "string \<Rightarrow> string" where
  "TrimSpace s = concat (map snd (trim_segs (rune_segs s)))"

text \<open>\<open>strings.IndexFunc(s, f) >= 0\<close>.\<close>

definition AnyRune :: "(nat \<Rightarrow> bool) \<Rightarrow> string \<Rightarrow> bool" where
  "AnyRune f s \<longleftrightarrow> list_ex f (runes s)"

lemma trim_segs_slice: "\<exists>i j. trim_segs xs = take j (drop i xs)"
proof -
  let ?P = "\<lambda>x::nat \<times> string. IsSpace (fst x)"
  let ?ys = "dropWhile ?P xs"
  have "?ys = drop (length (takeWhile ?P xs)) xs" by (rule dropWhile_eq_drop)
  moreover have "trim_segs xs = take (length ?ys - length (takeWhile ?P (rev ?ys))) ?ys"
    by (simp only: trim_segs_def dropWhile_eq_drop [of ?P "rev ?ys"] rev_drop rev_rev_ident length_rev)
  ultimately show ?thesis by metis
qed

lemma rune_segs_slice:
  "rune_segs (concat (map snd (take j (drop i (rune_segs s))))) = take j (drop i (rune_segs s))"
  by (metis rune_segs_drop rune_segs_take)

lemma rune_segs_TrimSpace: "rune_segs (TrimSpace s) = trim_segs (rune_segs s)"
  using trim_segs_slice [of "rune_segs s"] by (auto simp: TrimSpace_def rune_segs_slice)

lemma trim_segs_hd: "xs \<noteq> [] \<Longrightarrow> trim_segs xs \<noteq> [] \<Longrightarrow> \<not> IsSpace (fst (hd (trim_segs xs)))"
proof -
  let ?P = "\<lambda>x::nat \<times> string. IsSpace (fst x)"
  assume ne: "trim_segs xs \<noteq> []"
  obtain zs where zs: "dropWhile ?P xs = trim_segs xs @ zs"
    unfolding trim_segs_def by (metis rev_append rev_rev_ident takeWhile_dropWhile_id)
  then have "dropWhile ?P xs \<noteq> []" using ne by simp
  then have "\<not> ?P (hd (dropWhile ?P xs))" by (rule hd_dropWhile)
  with zs ne show ?thesis by simp
qed

lemma trim_segs_idem: "trim_segs (trim_segs xs) = trim_segs xs"
proof (cases "trim_segs xs = []")
  case False
  let ?P = "\<lambda>x::nat \<times> string. IsSpace (fst x)"
  let ?t = "trim_segs xs"
  have "xs \<noteq> []" using False by (auto simp: trim_segs_def)
  with False have "\<not> ?P (hd ?t)" using trim_segs_hd by blast
  then have 1: "dropWhile ?P ?t = ?t" using False by (cases ?t) auto
  have "rev ?t = dropWhile ?P (rev (dropWhile ?P xs))" by (simp add: trim_segs_def)
  then have "dropWhile ?P (rev ?t) = rev ?t" by simp
  with 1 show ?thesis by (simp add: trim_segs_def [of "trim_segs xs"])
qed (simp add: trim_segs_def [of "[]"])

lemma TrimSpace_idem [simp]: "TrimSpace (TrimSpace s) = TrimSpace s"
  unfolding TrimSpace_def [of "TrimSpace s"] rune_segs_TrimSpace trim_segs_idem
  by (simp only: TrimSpace_def)

lemma TrimSpace_no_space: "\<not> AnyRune IsSpace s \<Longrightarrow> TrimSpace s = s"
proof -
  assume "\<not> AnyRune IsSpace s"
  then have n: "\<forall>x\<in>set (rune_segs s). \<not> IsSpace (fst x)"
    by (auto simp: AnyRune_def runes_def list_ex_iff)
  have "dropWhile (\<lambda>x. IsSpace (fst x)) ys = ys" if "set ys \<subseteq> set (rune_segs s)" for ys
    using that n by (cases ys) auto
  then have "trim_segs (rune_segs s) = rune_segs s" by (simp add: trim_segs_def)
  then show ?thesis by (simp add: TrimSpace_def)
qed

section \<open>Bytes, splitting, joining, printing\<close>

text \<open>\<open>bytes.IndexByte\<close>; \<open>None\<close> is -1.\<close>

fun IndexByte :: "string \<Rightarrow> char \<Rightarrow> nat option" where
  "IndexByte [] c = None"
| "IndexByte (x # xs) c = (if x = c then Some 0 else map_option Suc (IndexByte xs c))"

lemma IndexByte_None_iff: "IndexByte xs c = None \<longleftrightarrow> c \<notin> set xs"
  by (induction xs) auto

lemma IndexByte_Some:
  "IndexByte xs c = Some i \<Longrightarrow> i < length xs \<and> xs ! i = c \<and> c \<notin> set (take i xs)"
  by (induction xs arbitrary: i) (auto split: if_splits)

lemma IndexByte_append: "c \<notin> set xs \<Longrightarrow> IndexByte (xs @ c # ys) c = Some (length xs)"
  by (induction xs) auto

text \<open>\<open>strings.Split(s, sep)\<close> for a separator of one byte.\<close>

fun Split :: "string \<Rightarrow> char \<Rightarrow> string list" where
  "Split [] c = [[]]"
| "Split (x # xs) c =
     (if x = c then [] # Split xs c
      else case Split xs c of [] \<Rightarrow> [[x]] | y # ys \<Rightarrow> (x # y) # ys)"

text \<open>\<open>strings.Join\<close>.\<close>

fun Join :: "string list \<Rightarrow> string \<Rightarrow> string" where
  "Join [] sep = []"
| "Join [x] sep = x"
| "Join (x # y # zs) sep = x @ sep @ Join (y # zs) sep"

lemma Split_not_Nil [simp]: "Split s c \<noteq> []"
  by (cases s) (auto split: list.splits)

lemma Split_no_sep: "\<forall>w\<in>set (Split s c). c \<notin> set w"
  by (induction s) (auto split: list.splits)

lemma Split_single: "c \<notin> set s \<Longrightarrow> Split s c = [s]"
  by (induction s) auto

lemma Split_append_sep: "c \<notin> set s \<Longrightarrow> Split (s @ c # t) c = s # Split t c"
  by (induction s) auto

lemma Split_Join:
  "ws \<noteq> [] \<Longrightarrow> \<forall>w\<in>set ws. c \<notin> set w \<Longrightarrow> Split (Join ws [c]) c = ws"
  by (induction ws "[c]" rule: Join.induct) (auto simp: Split_single Split_append_sep)

lemma Join_Split: "Join (Split s c) [c] = s"
proof (induction s)
  case (Cons x xs)
  then show ?case
    by (cases "Split xs c" rule: list.exhaust)
       (auto split: list.splits, (metis Join.simps(2) Join.simps(3) append_Cons list.exhaust)+)
qed simp

lemma set_Join: "set (Join ws sep) \<subseteq> (\<Union>w\<in>set ws. set w) \<union> set sep"
  by (induction ws sep rule: Join.induct) auto

text \<open>Decimal digits (\<open>strconv.Itoa\<close> and the \<open>%d\<close> verb on non-negative numbers).\<close>

fun dec_nat :: "nat \<Rightarrow> string" where
  "dec_nat n = (if n < 10 then [char_of (48 + n)] else dec_nat (n div 10) @ [char_of (48 + n mod 10)])"

declare dec_nat.simps [simp del]

definition Itoa :: "int \<Rightarrow> string" where
  "Itoa i = (if i < 0 then CHR ''-'' # dec_nat (nat (- i)) else dec_nat (nat i))"

lemma dec_nat_not_Nil [simp]: "dec_nat n \<noteq> []"
  by (subst dec_nat.simps) simp

lemma dec_nat_digits: "c \<in> set (dec_nat n) \<Longrightarrow> 48 \<le> byte c \<and> byte c \<le> 57"
proof (induction n rule: dec_nat.induct)
  case (1 n)
  then show ?case
    by (cases "n < 10") (auto simp: dec_nat.simps [of n])
qed

lemma char_of_digits:
  "char_of (48::nat) = CHR ''0''" "char_of (49::nat) = CHR ''1''" "char_of (50::nat) = CHR ''2''"
  "char_of (51::nat) = CHR ''3''" "char_of (52::nat) = CHR ''4''" "char_of (53::nat) = CHR ''5''"
  "char_of (54::nat) = CHR ''6''" "char_of (55::nat) = CHR ''7''" "char_of (56::nat) = CHR ''8''"
  "char_of (57::nat) = CHR ''9''"
  by (simp_all add: char_of_def bit_0)

section \<open>The text of an error\<close>

fun fpart_text :: "(string \<Rightarrow> string) \<Rightarrow> fpart \<Rightarrow> string" where
  "fpart_text quote (Lit s) = s"
| "fpart_text quote (Quoted s) = quote s"
| "fpart_text quote (Dec i) = Itoa i"

definition sentinel_text :: "sentinel \<Rightarrow> string" where
  "sentinel_text s =
     (case s of
        Canceled \<Rightarrow> ''context canceled''
      | DeadlineExceeded \<Rightarrow> ''context deadline exceeded''
      | ErrNotExist \<Rightarrow> ''file does not exist''
      | ErrExist \<Rightarrow> ''file already exists''
      | ErrShortWrite \<Rightarrow> ''short write''
      | EISDIR \<Rightarrow> ''is a directory''
      | ELOOP \<Rightarrow> ''too many levels of symbolic links''
      | EWOULDBLOCK \<Rightarrow> ''resource temporarily unavailable''
      | ErrServerClosed \<Rightarrow> ''http: Server closed''
      | ErrConcurrentModification \<Rightarrow> ''destination changed during replacement''
      | ErrHealthServerStopped \<Rightarrow> ''health server stopped unexpectedly''
      | ErrHostsLocked \<Rightarrow> ''hosts file is locked by another SDHM process'')"

text \<open>\<open>err.Error()\<close>.\<close>

fun errorText :: "(string \<Rightarrow> string) \<Rightarrow> go_error \<Rightarrow> string" where
  "errorText quote (Sentinel s) = sentinel_text s"
| "errorText quote (Opaque m) = m"
| "errorText quote (Errorf ps) = concat (map (fpart_text quote) ps)"
| "errorText quote (Wrapf ps e qs) =
     concat (map (fpart_text quote) ps) @ errorText quote e @ concat (map (fpart_text quote) qs)"
| "errorText quote (Joined es) = Join (map (errorText quote) es) [CHR 0x0A]"

end
