(* ===== verification/Go_Path.thy ===== *)
theory Go_Path
  imports Go_Text
begin

text \<open>
  The functions of \<open>path/filepath\<close> the source calls, for a Unix separator: \<open>Clean\<close>,
  \<open>Dir\<close> and \<open>Base\<close>, and the way \<open>os.CreateTemp\<close> joins a directory and a name.
  \<open>Clean\<close> is given by its documented rules on path elements.
\<close>

abbreviation SEP :: char where "SEP \<equiv> CHR ''/''"

text \<open>
  Elements are read left to right onto a stack: empty elements and \<open>.\<close> vanish, \<open>..\<close>
  removes the element before it, vanishes at a root, and stays at the start of a relative path.
\<close>

fun clean_elems :: "bool \<Rightarrow> string list \<Rightarrow> string list \<Rightarrow> string list" where
  "clean_elems rooted st [] = rev st"
| "clean_elems rooted st (c # cs) =
     (if c = [] \<or> c = ''.'' then clean_elems rooted st cs
      else if c = ''..'' then
        (case st of
           [] \<Rightarrow> clean_elems rooted (if rooted then [] else [c]) cs
         | d # ds \<Rightarrow> if d = ''..'' then clean_elems rooted (c # st) cs else clean_elems rooted ds cs)
      else clean_elems rooted (c # st) cs)"

definition Clean :: "string \<Rightarrow> string" where
  "Clean p =
     (if p = [] then ''.''
      else
        let rooted = (hd p = SEP);
            body = Join (clean_elems rooted [] (Split p SEP)) [SEP]
        in if rooted then SEP # body else if body = [] then ''.'' else body)"

text \<open>The part of a path after its last separator, and the part up to and including it.\<close>

definition after_last_sep :: "string \<Rightarrow> string" where
  "after_last_sep p = rev (takeWhile (\<lambda>c. c \<noteq> SEP) (rev p))"

definition up_to_last_sep :: "string \<Rightarrow> string" where
  "up_to_last_sep p = rev (dropWhile (\<lambda>c. c \<noteq> SEP) (rev p))"

definition Dir :: "string \<Rightarrow> string" where
  "Dir p = Clean (up_to_last_sep p)"

definition strip_trailing_seps :: "string \<Rightarrow> string" where
  "strip_trailing_seps p = rev (dropWhile (\<lambda>c. c = SEP) (rev p))"

definition Base :: "string \<Rightarrow> string" where
  "Base p =
     (if p = [] then ''.''
      else let b = after_last_sep (strip_trailing_seps p) in if b = [] then [SEP] else b)"

text \<open>\<open>joinPath\<close> of \<open>os.CreateTemp\<close>: a separator is added unless the directory ends with one.\<close>

definition joinPath :: "string \<Rightarrow> string \<Rightarrow> string" where
  "joinPath dir name = (if dir \<noteq> [] \<and> last dir = SEP then dir @ name else dir @ SEP # name)"

section \<open>Clean is idempotent\<close>

text \<open>An element list \<open>Clean\<close> leaves alone: parent references only at the start of a relative path.\<close>

definition plain_elem :: "string \<Rightarrow> bool" where
  "plain_elem c \<longleftrightarrow> c \<noteq> [] \<and> c \<noteq> ''.'' \<and> c \<noteq> ''..''"

definition clean_list :: "bool \<Rightarrow> string list \<Rightarrow> bool" where
  "clean_list rooted cs \<longleftrightarrow>
     (\<exists>n ds. cs = replicate n ''..'' @ ds \<and> list_all plain_elem ds \<and> (rooted \<longrightarrow> n = 0))"

lemma clean_list_Nil [simp]: "clean_list rooted []"
  by (force simp: clean_list_def)

lemma clean_list_snoc_plain:
  "clean_list rooted cs \<Longrightarrow> plain_elem c \<Longrightarrow> clean_list rooted (cs @ [c])"
proof -
  assume "clean_list rooted cs" and c: "plain_elem c"
  then obtain n ds where d: "cs = replicate n ''..'' @ ds" "list_all plain_elem ds" "rooted \<longrightarrow> n = 0"
    by (auto simp: clean_list_def)
  then have "cs @ [c] = replicate n ''..'' @ (ds @ [c])" "list_all plain_elem (ds @ [c])"
    using c by auto
  with d(3) show ?thesis unfolding clean_list_def by blast
qed

lemma clean_list_butlast:
  assumes "clean_list rooted (cs @ [c])" "c \<noteq> ''..''"
  shows "clean_list rooted cs"
proof -
  from assms(1) obtain n ds where d: "cs @ [c] = replicate n ''..'' @ ds" "list_all plain_elem ds"
    "rooted \<longrightarrow> n = 0" by (auto simp: clean_list_def)
  show ?thesis
  proof (cases ds rule: rev_cases)
    case Nil
    with d(1) have "c \<in> set (replicate n ''..'')" by (metis append_Nil2 in_set_conv_decomp)
    with assms(2) show ?thesis by (auto simp: set_replicate_conv_if split: if_splits)
  next
    case (snoc es e)
    with d show ?thesis unfolding clean_list_def by (metis append.assoc append1_eq_conv list_all_append)
  qed
qed

lemma clean_list_snoc_parent:
  assumes "clean_list False cs" "cs = [] \<or> last cs = ''..''"
  shows "clean_list False (cs @ [''..''])"
proof -
  from assms(1) obtain n ds where d: "cs = replicate n ''..'' @ ds" "list_all plain_elem ds"
    by (auto simp: clean_list_def)
  have "ds = []" using d assms(2)
    by (cases ds rule: rev_cases) (auto simp: plain_elem_def)
  with d have "cs @ [''..''] = replicate (Suc n) ''..'' @ []" by (simp add: replicate_append_same)
  moreover have "list_all plain_elem []" by simp
  ultimately show ?thesis unfolding clean_list_def by blast
qed

lemma clean_elems_clean_list:
  "clean_list rooted (rev st) \<Longrightarrow> clean_list rooted (clean_elems rooted st cs)"
proof (induction rooted st cs rule: clean_elems.induct)
  case (2 rooted st c cs)
  show ?case
  proof (cases "c = [] \<or> c = ''.''")
    case True
    with 2 show ?thesis by simp
  next
    case named: False
    show ?thesis
    proof (cases "c = ''..''")
      case False
      with named have "plain_elem c" by (simp add: plain_elem_def)
      with 2 named False show ?thesis by (simp add: clean_list_snoc_plain)
    next
      case dots: True
      show ?thesis
      proof (cases st)
        case Nil
        with 2 named dots show ?thesis
          using clean_list_snoc_parent [of "[]"] by (cases rooted) auto
      next
        case (Cons d ds)
        show ?thesis
        proof (cases "d = ''..''")
          case True
          have "\<not> rooted"
          proof
            assume "rooted"
            with 2(6) Cons True have "\<exists>es. rev ds @ [''..''] = es \<and> list_all plain_elem es"
              by (auto simp: clean_list_def)
            then show False by (simp add: plain_elem_def)
          qed
          with 2 named dots Cons True show ?thesis
            using clean_list_snoc_parent [of "rev st"] by simp
        next
          case False
          with 2 named dots Cons show ?thesis using clean_list_butlast [of rooted "rev ds" d] by simp
        qed
      qed
    qed
  qed
qed simp

lemma clean_elems_dots:
  "list_all (\<lambda>c. c = ''..'') st \<Longrightarrow>
     clean_elems False st (replicate n ''..'' @ cs) = clean_elems False (replicate n ''..'' @ st) cs"
proof (induction n arbitrary: st)
  case (Suc n)
  have "clean_elems False st (replicate (Suc n) ''..'' @ cs) =
      clean_elems False (''..'' # st) (replicate n ''..'' @ cs)"
    using Suc.prems by (cases st) auto
  also have "\<dots> = clean_elems False (replicate n ''..'' @ ''..'' # st) cs"
    using Suc by simp
  also have "replicate n ''..'' @ ''..'' # st = replicate (Suc n) ''..'' @ st"
    by (simp add: replicate_app_Cons_same)
  finally show ?case .
qed simp

lemma clean_elems_plain:
  "list_all plain_elem cs \<Longrightarrow> clean_elems rooted st cs = rev st @ cs"
  by (induction cs arbitrary: st) (auto simp: plain_elem_def)

lemma clean_elems_fixed: "clean_list rooted cs \<Longrightarrow> clean_elems rooted [] cs = cs"
  by (auto simp: clean_list_def clean_elems_plain clean_elems_dots [of "[]"])

lemma clean_elems_no_sep:
  "\<forall>c\<in>set st \<union> set cs. SEP \<notin> set c \<Longrightarrow> c \<in> set (clean_elems rooted st cs) \<Longrightarrow> SEP \<notin> set c"
proof (induction rooted st cs rule: clean_elems.induct)
  case (2 rooted st d cs)
  show ?case
  proof (cases "d = ''..''")
    case True
    with 2 show ?thesis by (cases st) (simp_all split: if_splits)
  next
    case False
    with 2 show ?thesis by (simp split: if_splits)
  qed
qed auto

lemma clean_list_no_empty: "clean_list rooted cs \<Longrightarrow> [] \<notin> set cs"
proof -
  assume "clean_list rooted cs"
  then obtain n ds where d: "cs = replicate n ''..'' @ ds" "list_all plain_elem ds"
    unfolding clean_list_def by blast
  then have "[] \<notin> set ds" by (auto simp: list_all_iff plain_elem_def)
  then show ?thesis unfolding d(1) by (simp add: set_replicate_conv_if)
qed

lemma Join_hd:
  assumes "cs \<noteq> []" "hd cs \<noteq> []"
  shows "Join cs sep \<noteq> [] \<and> hd (Join cs sep) = hd (hd cs)"
  using assms by (induction cs sep rule: Join.induct) auto

theorem Clean_idem [simp]: "Clean (Clean p) = Clean p"
proof (cases "p = []")
  case True
  then show ?thesis by (simp add: Clean_def)
next
  case ne: False
  define rooted where "rooted = (hd p = SEP)"
  define es where "es = clean_elems rooted [] (Split p SEP)"
  have cl: "clean_list rooted es" using clean_elems_clean_list [of rooted "[]"] by (simp add: es_def)
  have ns: "\<forall>c\<in>set es. SEP \<notin> set c"
  proof
    fix c assume "c \<in> set es"
    then show "SEP \<notin> set c"
      unfolding es_def by (rule clean_elems_no_sep [rotated]) (use Split_no_sep [of p SEP] in simp)
  qed
  have fixed: "clean_elems rooted [] (Split (Join es [SEP]) SEP) = es"
  proof (cases "es = []")
    case False
    with ns cl show ?thesis by (simp add: Split_Join clean_elems_fixed)
  qed simp
  have C: "Clean p = (if rooted then SEP # Join es [SEP]
      else if Join es [SEP] = [] then ''.'' else Join es [SEP])"
    using ne by (simp add: Clean_def rooted_def es_def Let_def)
  show ?thesis
  proof (cases rooted)
    case True
    with fixed C show ?thesis by (simp add: Clean_def)
  next
    case False
    show ?thesis
    proof (cases "Join es [SEP] = []")
      case True
      with False C show ?thesis by (simp add: Clean_def)
    next
      case ne': False
      then have "es \<noteq> []" by auto
      with cl have "hd es \<noteq> []" using clean_list_no_empty by (metis hd_in_set)
      with \<open>es \<noteq> []\<close> ns have "hd (Join es [SEP]) \<noteq> SEP"
        using Join_hd [of es "[SEP]"] by (metis hd_in_set)
      with ne' False C fixed show ?thesis by (simp add: Clean_def Let_def)
    qed
  qed
qed

section \<open>Names next to a path\<close>

lemma after_last_sep_append: "SEP \<notin> set n \<Longrightarrow> after_last_sep (d @ SEP # n) = n"
  by (simp add: after_last_sep_def takeWhile_append)

lemma up_to_last_sep_append: "SEP \<notin> set n \<Longrightarrow> up_to_last_sep (d @ SEP # n) = d @ [SEP]"
  by (simp add: up_to_last_sep_def dropWhile_append)

lemma joinPath_conv: "\<exists>d. joinPath dir name = d @ SEP # name"
proof (cases "dir \<noteq> [] \<and> last dir = SEP")
  case True
  then have "joinPath dir name = butlast dir @ SEP # name"
    by (metis append_butlast_last_id append_Cons append_Nil append_assoc joinPath_def)
  then show ?thesis by blast
qed (auto simp: joinPath_def)

lemma after_last_sep_joinPath: "SEP \<notin> set name \<Longrightarrow> after_last_sep (joinPath dir name) = name"
  using joinPath_conv [of dir name] after_last_sep_append by auto

lemma Base_no_sep: "SEP \<notin> set (Base p) \<or> Base p = [SEP]"
proof -
  have "SEP \<notin> set (after_last_sep q)" for q
    unfolding after_last_sep_def set_rev using set_takeWhileD by fastforce
  then show ?thesis by (simp add: Base_def Let_def)
qed

lemma after_last_sep_Base:
  assumes "p \<noteq> []" "after_last_sep p \<noteq> []"
  shows "Base p = after_last_sep p"
proof -
  from assms have "last p \<noteq> SEP"
    by (cases p rule: rev_cases) (auto simp: after_last_sep_def split: if_splits)
  then have "strip_trailing_seps p = p"
    using assms(1) by (cases p rule: rev_cases) (auto simp: strip_trailing_seps_def)
  with assms show ?thesis by (simp add: Base_def Let_def)
qed

lemma Base_joinPath: "SEP \<notin> set name \<Longrightarrow> name \<noteq> [] \<Longrightarrow> Base (joinPath dir name) = name"
  using after_last_sep_Base [of "joinPath dir name"] after_last_sep_joinPath [of name dir]
  by (metis joinPath_conv append_is_Nil_conv list.distinct(1))

end
