(* ===== verification/File_Ops.thy ===== *)
theory File_Ops
  imports Go_Path
begin

text \<open>
  The file operations of the store (\<open>hosts/fileops.go\<close>) on a Unix file system with inodes. Names
  refer to inodes; \<open>names\<close> is what processes see, \<open>durable\<close> is what the directories on the
  disk hold, so the state after a power failure is read through either. A process runs in a
  \<open>world\<close>: the file system, a clock that counts system calls, and the trace of all file-system
  states so far. \<open>fileOps\<close> is the environment of the calls: which of them fail, what other
  processes do in between, how much of a write is taken, the random part of temporary names and the
  time.
\<close>

unbundle bit_operations_syntax

section \<open>File modes (\<open>io/fs\<close>)\<close>

type_synonym FileMode = "32 word"

definition ModePerm :: FileMode where "ModePerm = 0x1FF"
definition ModeSetuid :: FileMode where "ModeSetuid = 0x00800000"
definition ModeSetgid :: FileMode where "ModeSetgid = 0x00400000"
definition ModeSticky :: FileMode where "ModeSticky = 0x00100000"
definition ModeDir :: FileMode where "ModeDir = 0x80000000"
definition ModeSymlink :: FileMode where "ModeSymlink = 0x08000000"

text \<open>Directory, symlink, named pipe, socket, device, character device and irregular bits.\<close>

definition ModeType :: FileMode where "ModeType = 0x8F280000"

text \<open>The bits \<open>chmod\<close> sets.\<close>

definition modeMask :: FileMode where
  "modeMask = ModePerm OR ModeSetuid OR ModeSetgid OR ModeSticky"

definition IsRegular :: "FileMode \<Rightarrow> bool" where
  "IsRegular m \<longleftrightarrow> m AND ModeType = 0"

lemma modeMask_value: "modeMask = 0xD001FF"
  by (simp add: modeMask_def ModePerm_def ModeSetuid_def ModeSetgid_def ModeSticky_def)

lemma modeMask_disjoint [simp]: "modeMask AND ModeType = 0" "ModeType AND modeMask = 0"
  by (simp_all add: modeMask_value ModeType_def)

section \<open>File systems and worlds\<close>

record inode =
  i_data :: string
  i_mode :: FileMode
  i_uid :: int
  i_gid :: int
  i_synced :: bool          \<comment> \<open>its contents and metadata have reached the disk\<close>

record fsys =
  names :: "string \<Rightarrow> nat option"
  durable :: "string \<Rightarrow> nat option"
  inodes :: "nat \<Rightarrow> inode"
  next_ino :: nat

record world =
  w_fs :: fsys
  w_clock :: nat
  w_trace :: "fsys list"    \<comment> \<open>newest first\<close>

record fileOps =
  op_fault :: "nat \<Rightarrow> go_error option"      \<comment> \<open>the call at this instant fails\<close>
  op_edit :: "nat \<Rightarrow> fsys \<Rightarrow> fsys"           \<comment> \<open>what other processes did just before it\<close>
  op_wlimit :: "nat \<Rightarrow> nat"                 \<comment> \<open>bytes a write at this instant takes at most\<close>
  op_rand :: "nat \<Rightarrow> nat"                   \<comment> \<open>random part of a temporary name\<close>
  op_time :: "nat \<Rightarrow> int"                   \<comment> \<open>nanoseconds\<close>
  op_uid :: int
  op_gid :: int

record FileInfo =
  Mode :: FileMode
  Sys :: "(int \<times> int) option"              \<comment> \<open>owner and group when it is a \<open>syscall.Stat_t\<close>\<close>

record syncFile =
  Name :: string
  Ino :: nat

text \<open>What a path shows now, and what it shows when only the disk survives.\<close>

definition view :: "fsys \<Rightarrow> string \<Rightarrow> inode option" where
  "view fs p = map_option (inodes fs) (names fs p)"

definition disk :: "fsys \<Rightarrow> string \<Rightarrow> inode option" where
  "disk fs p = map_option (inodes fs) (durable fs p)"

definition fs_ok :: "fsys \<Rightarrow> bool" where
  "fs_ok fs \<longleftrightarrow> (\<forall>p i. names fs p = Some i \<or> durable fs p = Some i \<longrightarrow> i < next_ino fs)"

section \<open>The calls\<close>

text \<open>A call: other processes first, then the failure of the call or its effect.\<close>

definition syscall :: "fileOps \<Rightarrow> (fsys \<Rightarrow> (go_error + 'a) \<times> fsys) \<Rightarrow> world \<Rightarrow> (go_error + 'a) \<times> world" where
  "syscall ops act w =
     (let fs = op_edit ops (w_clock w) (w_fs w);
          (r, fs') = (case op_fault ops (w_clock w) of Some x \<Rightarrow> (Inl x, fs) | None \<Rightarrow> act fs)
      in (r, w\<lparr>w_fs := fs', w_clock := Suc (w_clock w), w_trace := fs' # fs # w_trace w\<rparr>))"

definition path_error :: "string \<Rightarrow> string \<Rightarrow> go_error \<Rightarrow> go_error" where
  "path_error call p e = Wrapf [Lit call, Lit '' '', Lit p, Lit '': ''] e []"

definition err_of :: "go_error + 'a \<Rightarrow> err" where
  "err_of r = (case r of Inl e \<Rightarrow> Some e | Inr _ \<Rightarrow> None)"

definition OpenReadNoFollow :: "fileOps \<Rightarrow> string \<Rightarrow> world \<Rightarrow> (go_error + nat) \<times> world" where
  "OpenReadNoFollow ops p =
     syscall ops (\<lambda>fs. case names fs p of
         None \<Rightarrow> (Inl (path_error ''open'' p (Sentinel ErrNotExist)), fs)
       | Some i \<Rightarrow>
           if i_mode (inodes fs i) AND ModeSymlink \<noteq> 0
           then (Inl (path_error ''open'' p (Sentinel ELOOP)), fs)
           else (Inr i, fs))"

definition Stat :: "fileOps \<Rightarrow> nat \<Rightarrow> world \<Rightarrow> (go_error + FileInfo) \<times> world" where
  "Stat ops h =
     syscall ops (\<lambda>fs. (Inr \<lparr>Mode = i_mode (inodes fs h),
       Sys = Some (i_uid (inodes fs h), i_gid (inodes fs h))\<rparr>, fs))"

definition ReadAll :: "fileOps \<Rightarrow> nat \<Rightarrow> world \<Rightarrow> (go_error + string) \<times> world" where
  "ReadAll ops h = syscall ops (\<lambda>fs. (Inr (i_data (inodes fs h)), fs))"

text \<open>Closing a handle, of any kind.\<close>

definition Close :: "fileOps \<Rightarrow> world \<Rightarrow> err \<times> world" where
  "Close ops w = (case syscall ops (\<lambda>fs. (Inr (), fs)) w of (r, w') \<Rightarrow> (err_of r, w'))"

text \<open>
  \<open>os.CreateTemp\<close>: the last star of the pattern is replaced by random digits. It draws again
  while the name is taken and gives up after 10000 attempts: the name drawn last is the one here.
\<close>

definition temp_name :: "string \<Rightarrow> nat \<Rightarrow> string" where
  "temp_name pattern r =
     (if CHR ''*'' \<in> set pattern
      then rev (tl (dropWhile (\<lambda>c. c \<noteq> CHR ''*'') (rev pattern))) @ dec_nat r @
        rev (takeWhile (\<lambda>c. c \<noteq> CHR ''*'') (rev pattern))
      else pattern @ dec_nat r)"

definition CreateTemp :: "fileOps \<Rightarrow> string \<Rightarrow> string \<Rightarrow> world \<Rightarrow> (go_error + syncFile) \<times> world" where
  "CreateTemp ops dir pattern w =
     (if SEP \<in> set pattern
      then (Inl (path_error ''createtemp'' pattern (errors_New ''pattern contains path separator'')), w)
      else
        let name = joinPath dir (temp_name pattern (op_rand ops (w_clock w)))
        in syscall ops (\<lambda>fs. case names fs dir of
            None \<Rightarrow> (Inl (path_error ''open'' name (Sentinel ErrNotExist)), fs)
          | Some d \<Rightarrow>
              if i_mode (inodes fs d) AND ModeDir = 0
              then (Inl (path_error ''open'' name (Opaque ''not a directory'')), fs)
              else if names fs name \<noteq> None
              then (Inl (path_error ''createtemp'' pattern (Sentinel ErrExist)), fs)
              else (Inr \<lparr>Name = name, Ino = next_ino fs\<rparr>,
                fs\<lparr>names := (names fs)(name \<mapsto> next_ino fs),
                   inodes := (inodes fs)(next_ino fs :=
                     \<lparr>i_data = [], i_mode = 0x180, i_uid = op_uid ops, i_gid = op_gid ops,
                      i_synced = False\<rparr>),
                   next_ino := Suc (next_ino fs)\<rparr>)) w)"

definition on_inode :: "nat \<Rightarrow> (inode \<Rightarrow> inode) \<Rightarrow> fsys \<Rightarrow> fsys" where
  "on_inode i f fs = fs\<lparr>inodes := (inodes fs)(i := f (inodes fs i))\<rparr>"

text \<open>A write takes a prefix of the data, and may fail after having taken it.\<close>

definition Write :: "fileOps \<Rightarrow> syncFile \<Rightarrow> string \<Rightarrow> world \<Rightarrow> (nat \<times> err) \<times> world" where
  "Write ops f data w =
     (let fs = op_edit ops (w_clock w) (w_fs w);
          n = min (op_wlimit ops (w_clock w)) (length data);
          fs' = on_inode (Ino f) (\<lambda>nd. nd\<lparr>i_data := i_data nd @ take n data, i_synced := False\<rparr>) fs
      in ((n, op_fault ops (w_clock w)),
          w\<lparr>w_fs := fs', w_clock := Suc (w_clock w), w_trace := fs' # fs # w_trace w\<rparr>))"

definition Chmod :: "fileOps \<Rightarrow> syncFile \<Rightarrow> FileMode \<Rightarrow> world \<Rightarrow> err \<times> world" where
  "Chmod ops f m w =
     (case syscall ops (\<lambda>fs. (Inr (), on_inode (Ino f)
         (\<lambda>nd. nd\<lparr>i_mode := (i_mode nd AND ModeType) OR (m AND modeMask), i_synced := False\<rparr>) fs)) w of
        (r, w') \<Rightarrow> (err_of r, w'))"

text \<open>A change of owner also clears the set-user and set-group bits.\<close>

definition Chown :: "fileOps \<Rightarrow> syncFile \<Rightarrow> int \<Rightarrow> int \<Rightarrow> world \<Rightarrow> err \<times> world" where
  "Chown ops f u g w =
     (case syscall ops (\<lambda>fs. (Inr (), on_inode (Ino f)
         (\<lambda>nd. nd\<lparr>i_uid := u, i_gid := g, i_synced := False,
            i_mode := i_mode nd AND NOT (ModeSetuid OR ModeSetgid)\<rparr>) fs)) w of
        (r, w') \<Rightarrow> (err_of r, w'))"

definition Sync :: "fileOps \<Rightarrow> syncFile \<Rightarrow> world \<Rightarrow> err \<times> world" where
  "Sync ops f w =
     (case syscall ops (\<lambda>fs. (Inr (), on_inode (Ino f) (\<lambda>nd. nd\<lparr>i_synced := True\<rparr>) fs)) w of
        (r, w') \<Rightarrow> (err_of r, w'))"

definition Rename :: "fileOps \<Rightarrow> string \<Rightarrow> string \<Rightarrow> world \<Rightarrow> err \<times> world" where
  "Rename ops old new w =
     (case syscall ops (\<lambda>fs. case names fs old of
          None \<Rightarrow> (Inl (path_error ''rename'' old (Sentinel ErrNotExist)), fs)
        | Some i \<Rightarrow>
            if (case names fs new of None \<Rightarrow> False | Some j \<Rightarrow> i_mode (inodes fs j) AND ModeDir \<noteq> 0)
            then (Inl (path_error ''rename'' old (Sentinel ErrExist)), fs)
            else if old = new then (Inr (), fs)
            else (Inr (), fs\<lparr>names := (names fs)(new \<mapsto> i, old := None)\<rparr>)) w of
        (r, w') \<Rightarrow> (err_of r, w'))"

definition Remove :: "fileOps \<Rightarrow> string \<Rightarrow> world \<Rightarrow> err \<times> world" where
  "Remove ops p w =
     (case syscall ops (\<lambda>fs. case names fs p of
          None \<Rightarrow> (Inl (path_error ''remove'' p (Sentinel ErrNotExist)), fs)
        | Some i \<Rightarrow> (Inr (), fs\<lparr>names := (names fs)(p := None)\<rparr>)) w of
        (r, w') \<Rightarrow> (err_of r, w'))"

definition OpenDir :: "fileOps \<Rightarrow> string \<Rightarrow> world \<Rightarrow> (go_error + string) \<times> world" where
  "OpenDir ops p =
     syscall ops (\<lambda>fs. case names fs p of
         None \<Rightarrow> (Inl (path_error ''open'' p (Sentinel ErrNotExist)), fs)
       | Some i \<Rightarrow> (Inr p, fs))"

text \<open>Syncing a directory makes the entries in it durable.\<close>

definition SyncDir :: "fileOps \<Rightarrow> string \<Rightarrow> world \<Rightarrow> err \<times> world" where
  "SyncDir ops d w =
     (case syscall ops (\<lambda>fs. (Inr (),
         fs\<lparr>durable := (\<lambda>p. if Dir p = d then names fs p else durable fs p)\<rparr>)) w of
        (r, w') \<Rightarrow> (err_of r, w'))"

text \<open>\<open>context.WithTimeout(context.WithoutCancel(ctx), d)\<close>, started at the instant \<open>n\<close>.\<close>

definition WithTimeout_WithoutCancel :: "fileOps \<Rightarrow> int \<Rightarrow> nat \<Rightarrow> ctx" where
  "WithTimeout_WithoutCancel ops d n =
     (\<lambda>m. if op_time ops n + d \<le> op_time ops m then Some (Sentinel DeadlineExceeded) else None)"

section \<open>Assumptions on the environment\<close>

text \<open>
  \<open>quiet\<close>: no other process touches the file system from an instant on. \<open>honest\<close>: a call
  reports a missing file only when the file is missing.
\<close>

definition quiet :: "fileOps \<Rightarrow> nat \<Rightarrow> bool" where
  "quiet ops n \<longleftrightarrow> (\<forall>m\<ge>n. op_edit ops m = id)"

definition honest :: "fileOps \<Rightarrow> bool" where
  "honest ops \<longleftrightarrow> (\<forall>n x. op_fault ops n = Some x \<longrightarrow> \<not> errors_Is x ErrNotExist)"

lemma quiet_edit [simp]: "quiet ops n \<Longrightarrow> n \<le> m \<Longrightarrow> op_edit ops m fs = fs"
  by (simp add: quiet_def)

lemma quiet_mono: "quiet ops n \<Longrightarrow> n \<le> m \<Longrightarrow> quiet ops m"
  by (simp add: quiet_def)

section \<open>What holds at every instant of a run\<close>

text \<open>
  \<open>during P w w'\<close>: the run from \<open>w\<close> to \<open>w'\<close> passes only through file systems that
  satisfy \<open>P\<close>, and ends in one.
\<close>

definition during :: "(fsys \<Rightarrow> bool) \<Rightarrow> world \<Rightarrow> world \<Rightarrow> bool" where
  "during P w w' \<longleftrightarrow> w_clock w \<le> w_clock w' \<and> P (w_fs w') \<and>
     (\<exists>new. w_trace w' = new @ w_trace w \<and> list_all P new)"

lemma during_refl: "P (w_fs w) \<Longrightarrow> during P w w"
  by (simp add: during_def)

lemma during_trans: "during P w w' \<Longrightarrow> during P w' w'' \<Longrightarrow> during P w w''"
  unfolding during_def by (metis append.assoc le_trans list_all_append)

lemma during_mono: "during P w w' \<Longrightarrow> (\<And>s. P s \<Longrightarrow> Q s) \<Longrightarrow> during Q w w'"
  unfolding during_def by (metis list.pred_mono_strong)

lemma during_end: "during P w w' \<Longrightarrow> P (w_fs w')"
  by (simp add: during_def)

lemma during_clock: "during P w w' \<Longrightarrow> w_clock w \<le> w_clock w'"
  by (simp add: during_def)

lemma during_quiet: "quiet ops (w_clock w) \<Longrightarrow> during P w w' \<Longrightarrow> quiet ops (w_clock w')"
  by (rule quiet_mono) (auto dest: during_clock)

text \<open>One call in a quiet environment.\<close>

lemma syscall_quiet:
  assumes "syscall ops act w = (r, w')" and "quiet ops (w_clock w)"
  obtains (fault) x where "r = Inl x" "op_fault ops (w_clock w) = Some x" "w_fs w' = w_fs w"
      "w_clock w' = Suc (w_clock w)" "w_trace w' = w_fs w # w_fs w # w_trace w"
    | (effect) "op_fault ops (w_clock w) = None" "act (w_fs w) = (r, w_fs w')"
      "w_clock w' = Suc (w_clock w)" "w_trace w' = w_fs w' # w_fs w # w_trace w"
  using assms by (auto simp: syscall_def Let_def split: option.splits prod.splits)

lemma syscall_during:
  assumes "syscall ops act w = (r, w')" and "quiet ops (w_clock w)" and "P (w_fs w)"
    and "\<And>r fs'. act (w_fs w) = (r, fs') \<Longrightarrow> P fs'"
  shows "during P w w'"
  using assms(1,2) by (rule syscall_quiet) (use assms(3,4) in \<open>auto simp: during_def\<close>)

text \<open>Calls that only look.\<close>

lemma syscall_pure:
  assumes "syscall ops act w = (r, w')" and "quiet ops (w_clock w)" and "\<And>fs. snd (act fs) = fs"
  shows "w_fs w' = w_fs w" and "during (\<lambda>s. s = w_fs w) w w'"
    and "r = (case op_fault ops (w_clock w) of Some x \<Rightarrow> Inl x | None \<Rightarrow> fst (act (w_fs w)))"
proof -
  have "w_fs w' = w_fs w \<and> during (\<lambda>s. s = w_fs w) w w' \<and>
      r = (case op_fault ops (w_clock w) of Some x \<Rightarrow> Inl x | None \<Rightarrow> fst (act (w_fs w)))"
    using assms(1,2) by (rule syscall_quiet) (use assms(3) [of "w_fs w"] in \<open>auto simp: during_def\<close>)
  then show "w_fs w' = w_fs w" "during (\<lambda>s. s = w_fs w) w w'"
    "r = (case op_fault ops (w_clock w) of Some x \<Rightarrow> Inl x | None \<Rightarrow> fst (act (w_fs w)))" by auto
qed

end
