(* ===== verification/Replace.thy ===== *)
theory Replace
  imports File_Ops
begin

text \<open>
  Reading and replacing one file (the lower half of \<open>hosts/store.go\<close>): regular files are read
  without following links; a replacement is staged in an adjacent temporary file, which is given its
  owner, contents and mode and synced, and is then renamed over the target if the target is still the
  file the caller saw.
\<close>

section \<open>Data\<close>

record fileMetadata =
  mode :: FileMode
  uid :: int
  gid :: int
  setOwnership :: bool

record fileSnapshot =
  snap_data :: string
  snap_metadata :: fileMetadata
  snap_exists :: bool

definition noMetadata :: fileMetadata where
  "noMetadata = \<lparr>mode = 0, uid = 0, gid = 0, setOwnership = False\<rparr>"

definition checkContext :: "ctx \<Rightarrow> string \<Rightarrow> world \<Rightarrow> err" where
  "checkContext c phase w =
     (case c (w_clock w) of
        Some e \<Rightarrow> Some (Wrapf [Lit ''before '', Lit phase, Lit '': ''] e [])
      | None \<Rightarrow> None)"

section \<open>Reading\<close>

definition metadataFromInfo :: "FileInfo \<Rightarrow> fileMetadata" where
  "metadataFromInfo info =
     (let metadata = noMetadata\<lparr>mode := Mode info AND modeMask\<rparr>
      in case Sys info of
           Some (u, g) \<Rightarrow> metadata\<lparr>uid := u, gid := g, setOwnership := True\<rparr>
         | None \<Rightarrow> metadata)"

definition joinReadClose :: "fileOps \<Rightarrow> err \<Rightarrow> string \<Rightarrow> world \<Rightarrow> err \<times> world" where
  "joinReadClose ops primary path w =
     (case Close ops w of
        (Some e, w) \<Rightarrow>
          (errors_Join [primary, Some (Wrapf [Lit ''close opened file '', Quoted path, Lit '': ''] e [])], w)
      | (None, w) \<Rightarrow> (primary, w))"

definition readOptionalRegularFile ::
  "fileOps \<Rightarrow> string \<Rightarrow> world \<Rightarrow> (string \<times> fileMetadata \<times> bool \<times> err) \<times> world" where
  "readOptionalRegularFile ops path w =
     (case OpenReadNoFollow ops path w of
        (Inl e, w) \<Rightarrow>
          if errors_Is e ErrNotExist then (([], noMetadata, False, None), w)
          else (([], noMetadata, False,
            Some (Wrapf [Lit ''open '', Quoted path, Lit '' without following symlinks: ''] e [])), w)
      | (Inr file, w) \<Rightarrow>
        (case Stat ops file w of
           (Inl e, w) \<Rightarrow>
             (case joinReadClose ops (Some (Wrapf [Lit ''stat opened file '', Quoted path, Lit '': ''] e [])) path w of
                (e, w) \<Rightarrow> (([], noMetadata, False, e), w))
         | (Inr info, w) \<Rightarrow>
             if \<not> IsRegular (Mode info) then
               (case joinReadClose ops (Some (Errorf [Quoted path, Lit '' is not a regular file''])) path w of
                  (e, w) \<Rightarrow> (([], noMetadata, False, e), w))
             else
               (case ReadAll ops file w of
                  (Inl e, w) \<Rightarrow>
                    (case joinReadClose ops (Some (Wrapf [Lit ''read opened file '', Quoted path, Lit '': ''] e [])) path w of
                       (e, w) \<Rightarrow> (([], noMetadata, False, e), w))
                | (Inr data, w) \<Rightarrow>
                    (case joinReadClose ops None path w of
                       (Some e, w) \<Rightarrow> (([], noMetadata, False, Some e), w)
                     | (None, w) \<Rightarrow> ((data, metadataFromInfo info, True, None), w)))))"

definition readRegularFile ::
  "fileOps \<Rightarrow> string \<Rightarrow> world \<Rightarrow> (go_error + (string \<times> fileMetadata)) \<times> world" where
  "readRegularFile ops path w =
     (case readOptionalRegularFile ops path w of
        ((data, metadata, ex, e), w) \<Rightarrow>
          (case e of
             Some e \<Rightarrow> (Inl e, w)
           | None \<Rightarrow>
               if \<not> ex then (Inl (Wrapf [Quoted path, Lit '' does not exist: ''] (Sentinel ErrNotExist) []), w)
               else (Inr (data, metadata), w)))"

section \<open>Staging\<close>

definition configureTemporaryOwnership ::
  "fileOps \<Rightarrow> ctx \<Rightarrow> syncFile \<Rightarrow> fileMetadata \<Rightarrow> world \<Rightarrow> err \<times> world" where
  "configureTemporaryOwnership ops c temp metadata w =
     (if \<not> setOwnership metadata then (None, w)
      else case checkContext c ''restrict temporary file mode'' w of
        Some e \<Rightarrow> (Some e, w)
      | None \<Rightarrow>
        (case Chmod ops temp 0 w of
           (Some e, w) \<Rightarrow> (Some (wrap ''restrict temporary file mode: '' e), w)
         | (None, w) \<Rightarrow>
           (case checkContext c ''set temporary file ownership'' w of
              Some e \<Rightarrow> (Some e, w)
            | None \<Rightarrow>
              (case Chown ops temp (uid metadata) (gid metadata) w of
                 (Some e, w) \<Rightarrow> (Some (wrap ''set temporary file ownership: '' e), w)
               | (None, w) \<Rightarrow> (None, w)))))"

definition writeAndSyncTemporary ::
  "fileOps \<Rightarrow> ctx \<Rightarrow> syncFile \<Rightarrow> string \<Rightarrow> FileMode \<Rightarrow> world \<Rightarrow> err \<times> world" where
  "writeAndSyncTemporary ops c temp data md w =
     (case checkContext c ''write temporary file'' w of
        Some e \<Rightarrow> (Some e, w)
      | None \<Rightarrow>
        (case Write ops temp data w of
           ((written, Some e), w) \<Rightarrow> (Some (wrap ''write temporary file: '' e), w)
         | ((written, None), w) \<Rightarrow>
             if written \<noteq> length data
             then (Some (wrap ''write temporary file: '' (Sentinel ErrShortWrite)), w)
             else
               (case checkContext c ''set final temporary file mode'' w of
                  Some e \<Rightarrow> (Some e, w)
                | None \<Rightarrow>
                  (case Chmod ops temp md w of
                     (Some e, w) \<Rightarrow> (Some (wrap ''set final temporary file mode: '' e), w)
                   | (None, w) \<Rightarrow>
                     (case checkContext c ''sync temporary file'' w of
                        Some e \<Rightarrow> (Some e, w)
                      | None \<Rightarrow>
                        (case Sync ops temp w of
                           (Some e, w) \<Rightarrow> (Some (wrap ''sync temporary file: '' e), w)
                         | (None, w) \<Rightarrow> (None, w)))))))"

definition cleanupTemporary ::
  "fileOps \<Rightarrow> string \<Rightarrow> bool \<Rightarrow> go_error \<Rightarrow> world \<Rightarrow> go_error \<times> world" where
  "cleanupTemporary ops tempPath closeAttempted primary w =
     (case (if closeAttempted then (primary, w)
            else case Close ops w of
              (Some e, w) \<Rightarrow>
                (Joined [primary, Wrapf [Lit ''close temporary file '', Quoted tempPath, Lit '': ''] e []], w)
            | (None, w) \<Rightarrow> (primary, w)) of
        (primary, w) \<Rightarrow>
          (case Remove ops tempPath w of
             (Some e, w) \<Rightarrow>
               (Joined [primary, Wrapf [Lit ''remove temporary file '', Quoted tempPath, Lit '': ''] e []], w)
           | (None, w) \<Rightarrow> (primary, w)))"

text \<open>The deferred cleanup runs on every error after the temporary file exists.\<close>

definition stageReplacement ::
  "fileOps \<Rightarrow> ctx \<Rightarrow> string \<Rightarrow> string \<Rightarrow> fileMetadata \<Rightarrow> world \<Rightarrow> (go_error + string) \<times> world" where
  "stageReplacement ops c target data metadata w =
     (case checkContext c ''create temporary file'' w of
        Some e \<Rightarrow> (Inl e, w)
      | None \<Rightarrow>
        (case CreateTemp ops (Dir target) (''.'' @ Base target @ ''.tmp-*'') w of
           (Inl e, w) \<Rightarrow>
             (Inl (Wrapf [Lit ''create temporary file for '', Quoted target, Lit '': ''] e []), w)
         | (Inr temp, w) \<Rightarrow>
             let fail = (\<lambda>closeAttempted e w.
                   case cleanupTemporary ops (Name temp) closeAttempted e w of (e, w) \<Rightarrow> (Inl e, w))
             in (case configureTemporaryOwnership ops c temp metadata w of
                   (Some e, w) \<Rightarrow> fail False e w
                 | (None, w) \<Rightarrow>
                   (case writeAndSyncTemporary ops c temp data (mode metadata) w of
                      (Some e, w) \<Rightarrow> fail False e w
                    | (None, w) \<Rightarrow>
                      (case Close ops w of
                         (Some e, w) \<Rightarrow> fail True (wrap ''close temporary file: '' e) w
                       | (None, w) \<Rightarrow> (Inr (Name temp), w))))))"

section \<open>Committing\<close>

definition joinDirClose :: "fileOps \<Rightarrow> go_error \<Rightarrow> string \<Rightarrow> world \<Rightarrow> go_error \<times> world" where
  "joinDirClose ops primary path w =
     (case Close ops w of
        (Some e, w) \<Rightarrow>
          (Joined [primary, Wrapf [Lit ''close parent directory '', Quoted path, Lit '': ''] e []], w)
      | (None, w) \<Rightarrow> (primary, w))"

definition syncParentDirectory :: "fileOps \<Rightarrow> ctx \<Rightarrow> string \<Rightarrow> world \<Rightarrow> err \<times> world" where
  "syncParentDirectory ops c parent w =
     (case checkContext c ''open parent directory'' w of
        Some e \<Rightarrow> (Some e, w)
      | None \<Rightarrow>
        (case OpenDir ops parent w of
           (Inl e, w) \<Rightarrow> (Some (Wrapf [Lit ''open parent directory '', Quoted parent, Lit '': ''] e []), w)
         | (Inr dir, w) \<Rightarrow>
           (case checkContext c ''sync parent directory'' w of
              Some e \<Rightarrow> (case joinDirClose ops e parent w of (e, w) \<Rightarrow> (Some e, w))
            | None \<Rightarrow>
              (case SyncDir ops dir w of
                 (Some e, w) \<Rightarrow>
                   (case joinDirClose ops
                      (Wrapf [Lit ''sync parent directory '', Quoted parent, Lit '': ''] e []) parent w of
                      (e, w) \<Rightarrow> (Some e, w))
               | (None, w) \<Rightarrow>
                 (case Close ops w of
                    (Some e, w) \<Rightarrow>
                      (Some (Wrapf [Lit ''close parent directory '', Quoted parent, Lit '': ''] e []), w)
                  | (None, w) \<Rightarrow> (None, w))))))"

definition validateReplacement :: "fileOps \<Rightarrow> ctx \<Rightarrow> string \<Rightarrow> string \<Rightarrow> world \<Rightarrow> err \<times> world" where
  "validateReplacement ops c target data w =
     (case checkContext c ''read destination back'' w of
        Some e \<Rightarrow> (Some e, w)
      | None \<Rightarrow>
        (case readRegularFile ops target w of
           (Inl e, w) \<Rightarrow> (Some (Wrapf [Lit ''read destination '', Quoted target, Lit '' back: ''] e []), w)
         | (Inr (readback, _), w) \<Rightarrow>
             if readback \<noteq> data
             then (Some (Errorf [Lit ''read destination '', Quoted target, Lit '' back: content mismatch'']), w)
             else (None, w)))"

definition requireSnapshot :: "fileOps \<Rightarrow> string \<Rightarrow> fileSnapshot \<Rightarrow> world \<Rightarrow> err \<times> world" where
  "requireSnapshot ops path expected w =
     (case readOptionalRegularFile ops path w of
        ((data, metadata, ex, e), w) \<Rightarrow>
          (case e of
             Some e \<Rightarrow>
               (Some (Wrapf [Lit ''verify destination '', Quoted path, Lit '' before replacement: ''] e []), w)
           | None \<Rightarrow>
               if ex \<noteq> snap_exists expected \<or>
                  (ex \<and> (data \<noteq> snap_data expected \<or> metadata \<noteq> snap_metadata expected))
               then (Some (Wrapf [] (Sentinel ErrConcurrentModification) [Lit '': '', Quoted path]), w)
               else (None, w)))"

definition commitCleanup :: "fileOps \<Rightarrow> string \<Rightarrow> go_error \<Rightarrow> world \<Rightarrow> (bool \<times> err) \<times> world" where
  "commitCleanup ops tempPath primary w =
     (case Remove ops tempPath w of
        (Some e, w) \<Rightarrow>
          ((False, Some (Joined [primary,
             Wrapf [Lit ''remove temporary file '', Quoted tempPath, Lit '': ''] e []])), w)
      | (None, w) \<Rightarrow> ((False, Some primary), w))"

text \<open>The check of the target before the rename, when the caller expects a snapshot.\<close>

definition checkExpected :: "fileOps \<Rightarrow> ctx \<Rightarrow> string \<Rightarrow> fileSnapshot option \<Rightarrow> world \<Rightarrow> err \<times> world" where
  "checkExpected ops c target expected w =
     (case expected of
        None \<Rightarrow> (None, w)
      | Some ex \<Rightarrow>
        (case checkContext c ''validate destination before rename'' w of
           Some e \<Rightarrow> (Some e, w)
         | None \<Rightarrow> requireSnapshot ops target ex w))"

definition commitReplacement ::
  "fileOps \<Rightarrow> ctx \<Rightarrow> string \<Rightarrow> string \<Rightarrow> string \<Rightarrow> fileSnapshot option \<Rightarrow> world \<Rightarrow> (bool \<times> err) \<times> world" where
  "commitReplacement ops c tempPath target data expected w =
     (case checkExpected ops c target expected w of
        (Some e, w) \<Rightarrow> commitCleanup ops tempPath e w
      | (None, w) \<Rightarrow>
        (case checkContext c ''rename temporary file'' w of
           Some e \<Rightarrow> commitCleanup ops tempPath e w
         | None \<Rightarrow>
           (case Rename ops tempPath target w of
              (Some e, w) \<Rightarrow>
                commitCleanup ops tempPath
                  (Wrapf [Lit ''rename temporary file over '', Quoted target, Lit '': ''] e []) w
            | (None, w) \<Rightarrow>
              (case syncParentDirectory ops c (Dir target) w of
                 (Some e, w) \<Rightarrow> ((True, Some e), w)
               | (None, w) \<Rightarrow>
                 (case validateReplacement ops c target data w of
                    (Some e, w) \<Rightarrow> ((True, Some e), w)
                  | (None, w) \<Rightarrow> ((True, None), w))))))"

definition replaceFileWithExpectation ::
  "fileOps \<Rightarrow> ctx \<Rightarrow> string \<Rightarrow> string \<Rightarrow> fileMetadata \<Rightarrow> fileSnapshot option \<Rightarrow> world \<Rightarrow> (bool \<times> err) \<times> world" where
  "replaceFileWithExpectation ops c target data metadata expected w =
     (case stageReplacement ops c target data metadata w of
        (Inl e, w) \<Rightarrow> ((False, Some e), w)
      | (Inr tempPath, w) \<Rightarrow> commitReplacement ops c tempPath target data expected w)"

definition replaceFile ::
  "fileOps \<Rightarrow> ctx \<Rightarrow> string \<Rightarrow> string \<Rightarrow> fileMetadata \<Rightarrow> world \<Rightarrow> (bool \<times> err) \<times> world" where
  "replaceFile ops c target data metadata w =
     replaceFileWithExpectation ops c target data metadata None w"

definition replaceFileIfUnchanged ::
  "fileOps \<Rightarrow> ctx \<Rightarrow> string \<Rightarrow> string \<Rightarrow> fileMetadata \<Rightarrow> fileSnapshot \<Rightarrow> world \<Rightarrow> (bool \<times> err) \<times> world" where
  "replaceFileIfUnchanged ops c target data metadata expected w =
     replaceFileWithExpectation ops c target data metadata (Some expected) w"

definition restoreTarget ::
  "fileOps \<Rightarrow> ctx \<Rightarrow> string \<Rightarrow> string \<Rightarrow> fileMetadata \<Rightarrow> world \<Rightarrow> err \<times> world" where
  "restoreTarget ops c target retainedValidatedBytes metadata w =
     (case replaceFile ops c target retainedValidatedBytes metadata w of
        ((_, Some e), w) \<Rightarrow> (Some (Wrapf [Lit ''restore target '', Quoted target, Lit '': ''] e []), w)
      | ((_, None), w) \<Rightarrow> (None, w))"

definition restoreTargetIfUnchanged ::
  "fileOps \<Rightarrow> ctx \<Rightarrow> string \<Rightarrow> string \<Rightarrow> fileMetadata \<Rightarrow> fileSnapshot \<Rightarrow> world \<Rightarrow> err \<times> world" where
  "restoreTargetIfUnchanged ops c target retainedValidatedBytes metadata expected w =
     (case replaceFileIfUnchanged ops c target retainedValidatedBytes metadata expected w of
        ((_, Some e), w) \<Rightarrow> (Some (Wrapf [Lit ''restore target '', Quoted target, Lit '': ''] e []), w)
      | ((_, None), w) \<Rightarrow> (None, w))"

section \<open>What reading shows\<close>

definition meta_of :: "inode \<Rightarrow> fileMetadata" where
  "meta_of nd = \<lparr>mode = i_mode nd AND modeMask, uid = i_uid nd, gid = i_gid nd, setOwnership = True\<rparr>"

definition shows_file :: "fsys \<Rightarrow> string \<Rightarrow> string \<Rightarrow> fileMetadata \<Rightarrow> bool" where
  "shows_file fs p d m \<longleftrightarrow>
     (\<exists>nd. view fs p = Some nd \<and> IsRegular (i_mode nd) \<and> i_data nd = d \<and> meta_of nd = m)"

definition matches :: "fsys \<Rightarrow> string \<Rightarrow> fileSnapshot \<Rightarrow> bool" where
  "matches fs p ex \<longleftrightarrow>
     (if snap_exists ex then shows_file fs p (snap_data ex) (snap_metadata ex) else view fs p = None)"

abbreviation looking :: "world \<Rightarrow> world \<Rightarrow> bool" where
  "looking w w' \<equiv> during (\<lambda>s. s = w_fs w) w w'"

lemma looking_fs: "looking w w' \<Longrightarrow> w_fs w' = w_fs w"
  by (simp add: during_def)

lemma looking_during: "looking w w' \<Longrightarrow> P (w_fs w) \<Longrightarrow> during P w w'"
  by (erule during_mono) simp

lemma looking_trans: "looking w w' \<Longrightarrow> looking w' w'' \<Longrightarrow> looking w w''"
  using during_trans looking_fs by metis

lemma Close_looking: "Close ops w = (e, w') \<Longrightarrow> quiet ops (w_clock w) \<Longrightarrow> looking w w'"
  by (auto simp: Close_def split: prod.splits intro: syscall_pure(2))

lemma joinReadClose_looking:
  "joinReadClose ops pr p w = (e, w') \<Longrightarrow> quiet ops (w_clock w) \<Longrightarrow> looking w w'"
  by (auto simp: joinReadClose_def split: prod.splits option.splits dest: Close_looking)

lemma joinReadClose_None: "joinReadClose ops pr p w = (None, w') \<Longrightarrow> pr = None"
  by (auto simp: joinReadClose_def split: prod.splits option.splits)

lemma Open_spec:
  assumes "OpenReadNoFollow ops p w = (r, w')" "quiet ops (w_clock w)"
  shows "looking w w'"
    and "r = Inr h \<Longrightarrow> names (w_fs w) p = Some h"
    and "r = Inl e \<Longrightarrow> errors_Is e ErrNotExist \<Longrightarrow> honest ops \<Longrightarrow> names (w_fs w) p = None"
proof -
  note d = assms(1) [unfolded OpenReadNoFollow_def]
  have pure: "snd (case names fs p of
         None \<Rightarrow> (Inl (path_error ''open'' p (Sentinel ErrNotExist)), fs)
       | Some i \<Rightarrow>
           if i_mode (inodes fs i) AND ModeSymlink \<noteq> 0
           then (Inl (path_error ''open'' p (Sentinel ELOOP)), fs)
           else (Inr i, fs)) = fs" for fs :: fsys
    by (auto split: option.splits)
  note s = syscall_pure [OF d assms(2) pure]
  show "looking w w'" by (rule s(2))
  show "r = Inr h \<Longrightarrow> names (w_fs w) p = Some h"
    using s(3) by (auto split: option.splits if_splits)
  show "r = Inl e \<Longrightarrow> errors_Is e ErrNotExist \<Longrightarrow> honest ops \<Longrightarrow> names (w_fs w) p = None"
    using s(3) by (auto simp: honest_def path_error_def split: option.splits if_splits)
qed

lemma Stat_spec:
  assumes "Stat ops h w = (r, w')" "quiet ops (w_clock w)"
  shows "looking w w'"
    and "r = Inr info \<Longrightarrow> Mode info = i_mode (inodes (w_fs w) h) \<and> metadataFromInfo info = meta_of (inodes (w_fs w) h)"
proof -
  note s = syscall_pure [OF assms(1) [unfolded Stat_def] assms(2), simplified]
  show "looking w w'" by (rule s(2))
  show "r = Inr info \<Longrightarrow> Mode info = i_mode (inodes (w_fs w) h) \<and> metadataFromInfo info = meta_of (inodes (w_fs w) h)"
    using s(3) by (auto simp: metadataFromInfo_def noMetadata_def meta_of_def split: option.splits)
qed

lemma ReadAll_spec:
  assumes "ReadAll ops h w = (r, w')" "quiet ops (w_clock w)"
  shows "looking w w'" and "r = Inr d \<Longrightarrow> d = i_data (inodes (w_fs w) h)"
  using syscall_pure [OF assms(1) [unfolded ReadAll_def] assms(2), simplified]
  by (auto split: option.splits)

lemma readOptional_spec:
  assumes r: "readOptionalRegularFile ops p w = ((d, m, ex, e), w')" and q: "quiet ops (w_clock w)"
  shows "looking w w' \<and> (e = None \<longrightarrow> ex \<longrightarrow> shows_file (w_fs w) p d m) \<and>
    (e = None \<longrightarrow> \<not> ex \<longrightarrow> honest ops \<longrightarrow> view (w_fs w) p = None)"
proof -
  obtain r1 w1 where o: "OpenReadNoFollow ops p w = (r1, w1)" by fastforce
  note os = Open_spec [OF o q]
  note q1 = during_quiet [OF q os(1)]
  show ?thesis
  proof (cases r1)
    case (Inl x)
    with r o os show ?thesis by (auto simp: readOptionalRegularFile_def view_def split: if_splits)
  next
    case (Inr h)
    obtain r2 w2 where st: "Stat ops h w1 = (r2, w2)" by fastforce
    note ss = Stat_spec [OF st q1]
    note l2 = looking_trans [OF os(1) ss(1)]
    note q2 = during_quiet [OF q l2]
    show ?thesis
    proof (cases r2)
      case r2: (Inl x)
      with r o Inr st show ?thesis
        using joinReadClose_looking [OF _ q2] looking_trans [OF l2] joinReadClose_None
        by (fastforce simp: readOptionalRegularFile_def split: prod.splits)
    next
      case r2: (Inr info)
      obtain r3 w3 where rd: "ReadAll ops h w2 = (r3, w3)" by fastforce
      note rs = ReadAll_spec [OF rd q2]
      note l3 = looking_trans [OF l2 rs(1)]
      note q3 = during_quiet [OF q l3]
      show ?thesis
      proof (cases "IsRegular (Mode info)")
        case False
        with r o Inr st r2 show ?thesis
          using joinReadClose_looking [OF _ q2] looking_trans [OF l2] joinReadClose_None
          by (fastforce simp: readOptionalRegularFile_def split: prod.splits)
      next
        case reg: True
        show ?thesis
        proof (cases r3)
          case r3: (Inl x)
          with r o Inr st r2 reg rd show ?thesis
            using joinReadClose_looking [OF _ q3] looking_trans [OF l3] joinReadClose_None
            by (fastforce simp: readOptionalRegularFile_def split: prod.splits)
        next
          case r3: (Inr dat)
          obtain c w4 where cl: "joinReadClose ops None p w3 = (c, w4)" by fastforce
          have l4: "looking w w4" using joinReadClose_looking [OF cl q3] looking_trans [OF l3] by blast
          have "w4 = w'" "e = c" "e = None \<Longrightarrow> d = dat \<and> m = metadataFromInfo info \<and> ex"
            using r o Inr st r2 reg rd r3 cl
            by (auto simp: readOptionalRegularFile_def split: option.splits)
          moreover have "shows_file (w_fs w) p dat (metadataFromInfo info)"
            using os(2) [OF Inr] ss(2) [OF r2] rs(2) [OF r3] reg looking_fs [OF os(1)] looking_fs [OF l2]
            by (simp add: shows_file_def view_def)
          ultimately show ?thesis using l4 by blast
        qed
      qed
    qed
  qed
qed

lemma readRegular_spec:
  assumes "readRegularFile ops p w = (r, w')" and "quiet ops (w_clock w)"
  shows "looking w w'" and "r = Inr (d, m) \<Longrightarrow> shows_file (w_fs w) p d m"
proof -
  obtain d' m' ex e w1 where r: "readOptionalRegularFile ops p w = ((d', m', ex, e), w1)"
    by (metis prod.exhaust)
  note s = readOptional_spec [OF r assms(2)]
  have "w1 = w'" using assms(1) r by (auto simp: readRegularFile_def split: option.splits if_splits)
  with s show "looking w w'" by simp
  show "r = Inr (d, m) \<Longrightarrow> shows_file (w_fs w) p d m"
    using assms(1) r s by (auto simp: readRegularFile_def split: option.splits if_splits)
qed

lemma requireSnapshot_spec:
  assumes "requireSnapshot ops p ex w = (e, w')" and "quiet ops (w_clock w)"
  shows "looking w w'" and "e = None \<Longrightarrow> honest ops \<Longrightarrow> matches (w_fs w) p ex"
proof -
  obtain d' m' ex' e' w1 where r: "readOptionalRegularFile ops p w = ((d', m', ex', e'), w1)"
    by (metis prod.exhaust)
  note s = readOptional_spec [OF r assms(2)]
  have "w1 = w'" using assms(1) r by (auto simp: requireSnapshot_def split: option.splits if_splits)
  with s show "looking w w'" by simp
  show "e = None \<Longrightarrow> honest ops \<Longrightarrow> matches (w_fs w) p ex"
    using assms(1) r s by (auto simp: requireSnapshot_def matches_def split: option.splits if_splits)
qed

section \<open>Staging leaves every existing file alone\<close>

text \<open>
  \<open>grown fs0 tp fs\<close>: \<open>fs\<close> is \<open>fs0\<close> but for the name \<open>tp\<close>, which is free or
  refers to an inode \<open>fs0\<close> did not have.
\<close>

definition grown :: "fsys \<Rightarrow> string \<Rightarrow> fsys \<Rightarrow> bool" where
  "grown fs0 tp fs \<longleftrightarrow>
     (\<forall>p. p \<noteq> tp \<longrightarrow> names fs p = names fs0 p) \<and> durable fs = durable fs0 \<and>
     (\<forall>i<next_ino fs0. inodes fs i = inodes fs0 i) \<and> next_ino fs0 \<le> next_ino fs \<and>
     (\<forall>i. names fs tp = Some i \<longrightarrow> next_ino fs0 \<le> i \<and> i < next_ino fs)"

definition temp_at :: "fsys \<Rightarrow> string \<Rightarrow> nat \<Rightarrow> fsys \<Rightarrow> bool" where
  "temp_at fs0 tp j fs \<longleftrightarrow> grown fs0 tp fs \<and> names fs tp = Some j"

lemma temp_at_grown: "temp_at fs0 tp j fs \<Longrightarrow> grown fs0 tp fs"
  by (simp add: temp_at_def)

lemma temp_at_during_grown: "during (temp_at fs0 tp j) w w' \<Longrightarrow> during (grown fs0 tp) w w'"
  by (erule during_mono) (rule temp_at_grown)

lemma grown_refl: "names fs tp = None \<Longrightarrow> grown fs tp fs"
  by (simp add: grown_def)

lemma grown_view:
  assumes "grown fs0 tp fs" "fs_ok fs0"
  shows "p \<noteq> tp \<Longrightarrow> view fs p = view fs0 p" and "disk fs p = disk fs0 p"
  using assms by (auto simp: grown_def view_def disk_def fs_ok_def intro!: option.map_cong0 split: option.splits)

lemma grown_fs_ok: "grown fs0 tp fs \<Longrightarrow> fs_ok fs0 \<Longrightarrow> fs_ok fs"
  unfolding grown_def fs_ok_def by (metis order_less_le_trans)

lemma temp_at_on_inode: "temp_at fs0 tp j fs \<Longrightarrow> temp_at fs0 tp j (on_inode j f fs)"
  by (auto simp: temp_at_def grown_def on_inode_def)

lemma inode_call:
  assumes "(case syscall ops (\<lambda>fs. (Inr (), on_inode j f fs)) w of (r, w') \<Rightarrow> (err_of r, w')) = (e, w')"
    and "quiet ops (w_clock w)" and "temp_at fs0 tp j (w_fs w)"
  shows "during (temp_at fs0 tp j) w w'"
    and "e = None \<Longrightarrow> inodes (w_fs w') j = f (inodes (w_fs w) j)"
proof -
  obtain r where r: "syscall ops (\<lambda>fs. (Inr (), on_inode j f fs)) w = (r, w')" "e = err_of r"
    using assms(1) by (auto split: prod.splits)
  show "during (temp_at fs0 tp j) w w'"
    by (rule syscall_during [OF r(1)]) (use assms temp_at_on_inode in auto)
  show "e = None \<Longrightarrow> inodes (w_fs w') j = f (inodes (w_fs w) j)"
    using r(1) assms(2)
  proof (rule syscall_quiet)
    assume "(Inr (), on_inode j f (w_fs w)) = (r, w_fs w')"
    then have "w_fs w' = on_inode j f (w_fs w)" by simp
    then show ?thesis by (simp add: on_inode_def)
  qed (use r(2) in \<open>auto simp: err_of_def\<close>)
qed

lemma Write_temp:
  assumes "Write ops f data w = ((n, e), w')" "quiet ops (w_clock w)" "temp_at fs0 tp (Ino f) (w_fs w)"
  shows "during (temp_at fs0 tp (Ino f)) w w'"
    and "inodes (w_fs w') (Ino f) = (inodes (w_fs w) (Ino f))
      \<lparr>i_data := i_data (inodes (w_fs w) (Ino f)) @ take n data, i_synced := False\<rparr>"
  using assms temp_at_on_inode [OF assms(3)]
  by (auto simp: Write_def Let_def during_def) (simp add: on_inode_def)

lemma word_and_mask: "x AND ModeType = 0 \<Longrightarrow> (x AND ModeType) OR (m AND modeMask) = m AND modeMask"
  by simp

lemma regular_masked [simp]: "IsRegular (m AND modeMask)"
  by (simp add: IsRegular_def and.assoc)

lemma regular_and: "IsRegular m \<Longrightarrow> IsRegular (m AND k)"
  unfolding IsRegular_def by (metis and.assoc and.commute and_zero_eq)

lemma configure_spec:
  assumes "configureTemporaryOwnership ops c f m w = (e, w')"
    and "quiet ops (w_clock w)" and "temp_at fs0 tp (Ino f) (w_fs w)"
    and "IsRegular (i_mode (inodes (w_fs w) (Ino f)))"
  shows "during (temp_at fs0 tp (Ino f)) w w' \<and>
    (e = None \<longrightarrow> i_data (inodes (w_fs w') (Ino f)) = i_data (inodes (w_fs w) (Ino f)) \<and>
       IsRegular (i_mode (inodes (w_fs w') (Ino f))) \<and>
       i_uid (inodes (w_fs w') (Ino f)) = (if setOwnership m then uid m else i_uid (inodes (w_fs w) (Ino f))) \<and>
       i_gid (inodes (w_fs w') (Ino f)) = (if setOwnership m then gid m else i_gid (inodes (w_fs w) (Ino f))))"
proof (cases "setOwnership m \<and> c (w_clock w) = None")
  case False
  with assms show ?thesis
    by (auto simp: configureTemporaryOwnership_def checkContext_def intro: during_refl split: option.splits)
next
  case True
  obtain e1 w1 where cm: "Chmod ops f 0 w = (e1, w1)" by fastforce
  note s1 = inode_call [OF cm [unfolded Chmod_def] assms(2,3)]
  note q1 = during_quiet [OF assms(2) s1(1)]
  obtain e2 w2 where co: "Chown ops f (uid m) (gid m) w1 = (e2, w2)" by fastforce
  note s2 = inode_call [OF co [unfolded Chown_def] q1 during_end [OF s1(1)]]
  note d2 = during_trans [OF s1(1) s2(1)]
  consider "e \<noteq> None" "w' = w1" | "e \<noteq> None" "w' = w2" | "e = None" "w' = w2" "e1 = None" "e2 = None"
    using assms(1) True cm co
    by (auto simp: configureTemporaryOwnership_def checkContext_def split: option.splits)
  then show ?thesis
  proof cases
    case 3
    then have "inodes (w_fs w1) (Ino f) = (inodes (w_fs w) (Ino f))
        \<lparr>i_mode := (i_mode (inodes (w_fs w) (Ino f)) AND ModeType) OR (0 AND modeMask), i_synced := False\<rparr>"
      using s1(2) by simp
    moreover have "inodes (w_fs w2) (Ino f) = (inodes (w_fs w1) (Ino f))
        \<lparr>i_uid := uid m, i_gid := gid m, i_synced := False,
         i_mode := i_mode (inodes (w_fs w1) (Ino f)) AND NOT (ModeSetuid OR ModeSetgid)\<rparr>"
      using s2(2) 3 by simp
    ultimately show ?thesis using 3 d2 True assms(4) by (simp add: IsRegular_def)
  qed (use s1(1) d2 in auto)
qed

lemma writeAndSync_spec:
  assumes "writeAndSyncTemporary ops c f data md w = (e, w')"
    and "quiet ops (w_clock w)" and "temp_at fs0 tp (Ino f) (w_fs w)"
    and "IsRegular (i_mode (inodes (w_fs w) (Ino f)))"
  shows "during (temp_at fs0 tp (Ino f)) w w' \<and>
    (e = None \<longrightarrow> inodes (w_fs w') (Ino f) = (inodes (w_fs w) (Ino f))
       \<lparr>i_data := i_data (inodes (w_fs w) (Ino f)) @ data, i_mode := md AND modeMask, i_synced := True\<rparr>)"
proof (cases "c (w_clock w) = None")
  case False
  with assms show ?thesis
    by (auto simp: writeAndSyncTemporary_def checkContext_def intro: during_refl split: option.splits)
next
  case True
  obtain n e1 w1 where wr: "Write ops f data w = ((n, e1), w1)" by (metis prod.exhaust)
  note s1 = Write_temp [OF wr assms(2,3)]
  note q1 = during_quiet [OF assms(2) s1(1)]
  obtain e2 w2 where cm: "Chmod ops f md w1 = (e2, w2)" by fastforce
  note s2 = inode_call [OF cm [unfolded Chmod_def] q1 during_end [OF s1(1)]]
  note d2 = during_trans [OF s1(1) s2(1)]
  note q2 = during_quiet [OF assms(2) d2]
  obtain e3 w3 where sy: "Sync ops f w2 = (e3, w3)" by fastforce
  note s3 = inode_call [OF sy [unfolded Sync_def] q2 during_end [OF d2]]
  note d3 = during_trans [OF d2 s3(1)]
  consider "e \<noteq> None" "w' = w1" | "e \<noteq> None" "w' = w2" | "e \<noteq> None" "w' = w3"
    | "e = None" "w' = w3" "n = length data" "e2 = None" "e3 = None"
    using assms(1) True wr cm sy
    by (auto simp: writeAndSyncTemporary_def checkContext_def split: option.splits if_splits)
  then show ?thesis
  proof cases
    case 4
    have "inodes (w_fs w2) (Ino f) = (inodes (w_fs w1) (Ino f))
        \<lparr>i_mode := (i_mode (inodes (w_fs w1) (Ino f)) AND ModeType) OR (md AND modeMask), i_synced := False\<rparr>"
      using s2(2) 4 by simp
    moreover have "inodes (w_fs w3) (Ino f) = (inodes (w_fs w2) (Ino f))\<lparr>i_synced := True\<rparr>"
      using s3(2) 4 by simp
    ultimately show ?thesis using 4 d3 s1(2) assms(4) by (simp add: IsRegular_def)
  qed (use s1(1) d2 d3 in auto)
qed

lemma Remove_temp:
  assumes "Remove ops tp w = (e, w')" "quiet ops (w_clock w)" "grown fs0 tp (w_fs w)"
  shows "during (grown fs0 tp) w w'"
    and "op_fault ops (w_clock w) = None \<Longrightarrow> names (w_fs w') tp = None"
proof -
  obtain r where r: "syscall ops (\<lambda>fs. case names fs tp of
        None \<Rightarrow> (Inl (path_error ''remove'' tp (Sentinel ErrNotExist)), fs)
      | Some i \<Rightarrow> (Inr (), fs\<lparr>names := (names fs)(tp := None)\<rparr>)) w = (r, w')" "e = err_of r"
    using assms(1) by (auto simp: Remove_def split: prod.splits)
  show "during (grown fs0 tp) w w'"
    by (rule syscall_during [OF r(1)]) (use assms in \<open>auto simp: grown_def split: option.splits\<close>)
  show "op_fault ops (w_clock w) = None \<Longrightarrow> names (w_fs w') tp = None"
    using r(1) assms(2)
  proof (rule syscall_quiet)
    assume *: "(case names (w_fs w) tp of
        None \<Rightarrow> (Inl (path_error ''remove'' tp (Sentinel ErrNotExist)), w_fs w)
      | Some i \<Rightarrow> (Inr (), (w_fs w)\<lparr>names := (names (w_fs w))(tp := None)\<rparr>)) = (r, w_fs w')"
    show ?thesis
    proof (cases "names (w_fs w) tp")
      case None
      with * show ?thesis by simp
    next
      case (Some i)
      with * have "w_fs w' = (w_fs w)\<lparr>names := (names (w_fs w))(tp := None)\<rparr>" by simp
      then show ?thesis by simp
    qed
  qed simp
qed

lemma temp_name_simp:
  "temp_name (pre @ ''*'') r = pre @ dec_nat r"
  by (simp add: temp_name_def)

text \<open>A temporary name is never the target's own name.\<close>

lemma temp_path_fresh:
  assumes "SEP \<notin> set (''.'' @ Base t @ ''.tmp-*'')"
  shows "joinPath d (temp_name (''.'' @ Base t @ ''.tmp-*'') r) \<noteq> t"
proof
  let ?n = "temp_name (''.'' @ Base t @ ''.tmp-*'') r"
  have n: "?n = ''.'' @ Base t @ ''.tmp-'' @ dec_nat r"
    using temp_name_simp [of "''.'' @ Base t @ ''.tmp-''" r] by simp
  have "byte SEP = 47" by simp
  then have "SEP \<notin> set (dec_nat r)" using dec_nat_digits by force
  with assms n have "SEP \<notin> set ?n" "?n \<noteq> []" by auto
  then have "Base (joinPath d ?n) = ?n" by (rule Base_joinPath)
  moreover assume "joinPath d ?n = t"
  ultimately have "Base t = ''.'' @ Base t @ ''.tmp-'' @ dec_nat r" using n by metis
  then have "length (Base t) = length (''.'' @ Base t @ ''.tmp-'' @ dec_nat r)" by (rule arg_cong)
  then show False by simp
qed

lemma CreateTemp_spec:
  assumes "CreateTemp ops d (''.'' @ Base t @ ''.tmp-*'') w = (r, w')" "quiet ops (w_clock w)"
  shows "r = Inl e \<Longrightarrow> looking w w'"
    and "r = Inr f \<Longrightarrow> Name f \<noteq> t \<and> names (w_fs w) (Name f) = None \<and>
      temp_at (w_fs w) (Name f) (Ino f) (w_fs w') \<and> during (grown (w_fs w) (Name f)) w w' \<and>
      inodes (w_fs w') (Ino f) =
        \<lparr>i_data = [], i_mode = 0x180, i_uid = op_uid ops, i_gid = op_gid ops, i_synced = False\<rparr>"
proof -
  let ?pat = "''.'' @ Base t @ ''.tmp-*''"
  let ?n = "joinPath d (temp_name ?pat (op_rand ops (w_clock w)))"
  show "looking w w'" if "r = Inl e"
  proof (cases "SEP \<in> set ?pat")
    case True
    with assms(1) show ?thesis by (auto simp: CreateTemp_def intro: during_refl)
  next
    case False
    then show ?thesis using assms(1) unfolding CreateTemp_def Let_def if_not_P [OF False]
      by (rule_tac syscall_quiet [OF _ assms(2)]) (use \<open>r = Inl e\<close> in \<open>auto simp: during_def split: option.splits if_splits\<close>)
  qed
  show "Name f \<noteq> t \<and> names (w_fs w) (Name f) = None \<and>
      temp_at (w_fs w) (Name f) (Ino f) (w_fs w') \<and> during (grown (w_fs w) (Name f)) w w' \<and>
      inodes (w_fs w') (Ino f) =
        \<lparr>i_data = [], i_mode = 0x180, i_uid = op_uid ops, i_gid = op_gid ops, i_synced = False\<rparr>"
    if r: "r = Inr f"
  proof -
    from assms(1) r have sep: "SEP \<notin> set ?pat" by (auto simp: CreateTemp_def)
    let ?act = "\<lambda>fs. case names fs d of
            None \<Rightarrow> (Inl (path_error ''open'' ?n (Sentinel ErrNotExist)), fs)
          | Some dd \<Rightarrow>
              if i_mode (inodes fs dd) AND ModeDir = 0
              then (Inl (path_error ''open'' ?n (Opaque ''not a directory'')), fs)
              else if names fs ?n \<noteq> None
              then (Inl (path_error ''createtemp'' ?pat (Sentinel ErrExist)), fs)
              else (Inr \<lparr>Name = ?n, Ino = next_ino fs\<rparr>,
                fs\<lparr>names := (names fs)(?n \<mapsto> next_ino fs),
                   inodes := (inodes fs)(next_ino fs :=
                     \<lparr>i_data = [], i_mode = 0x180, i_uid = op_uid ops, i_gid = op_gid ops,
                      i_synced = False\<rparr>),
                   next_ino := Suc (next_ino fs)\<rparr>)"
    have "syscall ops ?act w = (r, w')" using assms(1) unfolding CreateTemp_def Let_def if_not_P [OF sep] .
    then show ?thesis using assms(2)
    proof (rule syscall_quiet)
      assume a: "?act (w_fs w) = (r, w_fs w')" and t: "w_clock w' = Suc (w_clock w)"
        "w_trace w' = w_fs w' # w_fs w # w_trace w"
      from a r have f: "f = \<lparr>Name = ?n, Ino = next_ino (w_fs w)\<rparr>" "names (w_fs w) ?n = None"
        by (auto split: option.splits if_splits)
      have fs': "w_fs w' = (w_fs w)\<lparr>names := (names (w_fs w))(?n \<mapsto> next_ino (w_fs w)),
           inodes := (inodes (w_fs w))(next_ino (w_fs w) :=
             \<lparr>i_data = [], i_mode = 0x180, i_uid = op_uid ops, i_gid = op_gid ops, i_synced = False\<rparr>),
           next_ino := Suc (next_ino (w_fs w))\<rparr>"
        using a r by (auto split: option.splits if_splits)
      have g: "grown (w_fs w) ?n (w_fs w')" "grown (w_fs w) ?n (w_fs w)"
        using f(2) by (auto simp: fs' grown_def)
      then have "during (grown (w_fs w) ?n) w w'" using t by (simp add: during_def)
      moreover have "?n \<noteq> t" by (rule temp_path_fresh [OF sep])
      moreover have "names (w_fs w') ?n = Some (next_ino (w_fs w))" by (simp add: fs')
      moreover have "inodes (w_fs w') (next_ino (w_fs w)) =
        \<lparr>i_data = [], i_mode = 0x180, i_uid = op_uid ops, i_gid = op_gid ops, i_synced = False\<rparr>"
        by (simp add: fs')
      ultimately show ?thesis using f g by (simp add: temp_at_def)
    qed (use r in simp)
  qed
qed

lemma cleanupTemporary_spec:
  assumes "cleanupTemporary ops tp ca pr w = (e, w')" "quiet ops (w_clock w)" "grown fs0 tp (w_fs w)"
  shows "during (grown fs0 tp) w w'"
proof -
  define first where "first = (if ca then (pr, w) else case Close ops w of
        (Some e, w) \<Rightarrow> (Joined [pr, Wrapf [Lit ''close temporary file '', Quoted tp, Lit '': ''] e []], w)
      | (None, w) \<Rightarrow> (pr, w))"
  obtain pr1 w1 where c: "first = (pr1, w1)" by (cases first)
  have d1: "during (grown fs0 tp) w w1"
  proof (cases ca)
    case True
    with c assms(3) show ?thesis by (auto simp: first_def intro: during_refl)
  next
    case False
    obtain x w2 where cl: "Close ops w = (x, w2)" by fastforce
    with c False have "w1 = w2" by (auto simp: first_def split: option.splits)
    with Close_looking [OF cl assms(2)] assms(3) show ?thesis by (auto intro: looking_during)
  qed
  obtain x w2 where r: "Remove ops tp w1 = (x, w2)" by fastforce
  have "w2 = w'"
    using assms(1) [unfolded cleanupTemporary_def, folded first_def, unfolded c] r by (cases x) auto
  moreover have "during (grown fs0 tp) w1 w2"
    using Remove_temp(1) [OF r during_quiet [OF assms(2) d1] during_end [OF d1]] .
  ultimately show ?thesis using during_trans [OF d1] by blast
qed

text \<open>The inode a replacement installs.\<close>

definition new_inode :: "fileOps \<Rightarrow> string \<Rightarrow> fileMetadata \<Rightarrow> inode" where
  "new_inode ops data m =
     \<lparr>i_data = data, i_mode = mode m AND modeMask,
      i_uid = (if setOwnership m then uid m else op_uid ops),
      i_gid = (if setOwnership m then gid m else op_gid ops), i_synced = True\<rparr>"

text \<open>The states of a run that has created at most one temporary file next to \<open>t\<close>.\<close>

definition staging :: "fsys \<Rightarrow> string \<Rightarrow> fsys \<Rightarrow> bool" where
  "staging fs0 t fs \<longleftrightarrow> fs = fs0 \<or> (\<exists>tp. tp \<noteq> t \<and> names fs0 tp = None \<and> grown fs0 tp fs)"

lemma grown_staging: "tp \<noteq> t \<Longrightarrow> names fs0 tp = None \<Longrightarrow> during (grown fs0 tp) w w' \<Longrightarrow> during (staging fs0 t) w w'"
  by (erule during_mono) (auto simp: staging_def)

lemma looking_staging: "looking w w' \<Longrightarrow> during (staging (w_fs w) t) w w'"
  by (erule during_mono) (simp add: staging_def)

lemma stage_spec:
  assumes st: "stageReplacement ops c t data m w = (r, w')" and q: "quiet ops (w_clock w)"
  obtains (failed) e where "r = Inl e" "during (staging (w_fs w) t) w w'"
    | (staged) tp j where "r = Inr tp" "tp \<noteq> t" "names (w_fs w) tp = None"
        "during (grown (w_fs w) tp) w w'" "temp_at (w_fs w) tp j (w_fs w')"
        "inodes (w_fs w') j = new_inode ops data m"
proof (cases "c (w_clock w)")
  case (Some x)
  with st show ?thesis
    by (intro failed) (auto simp: stageReplacement_def checkContext_def staging_def intro: during_refl)
next
  case None
  let ?pat = "''.'' @ Base t @ ''.tmp-*''"
  obtain r1 w1 where ct: "CreateTemp ops (Dir t) ?pat w = (r1, w1)" by fastforce
  note st' = st [unfolded stageReplacement_def checkContext_def None option.case ct prod.case]
  show ?thesis
  proof (cases r1)
    case (Inl e)
    with CreateTemp_spec(1) [OF ct q] st' show ?thesis
      by (intro failed) (auto intro: looking_staging)
  next
    case (Inr f)
    let ?fs = "w_fs w" and ?tp = "Name f" and ?j = "Ino f"
    from CreateTemp_spec(2) [OF ct q Inr] have
      tp: "?tp \<noteq> t" "names ?fs ?tp = None" and ti: "temp_at ?fs ?tp ?j (w_fs w1)"
      and d1: "during (grown ?fs ?tp) w w1"
      and nd: "inodes (w_fs w1) ?j =
        \<lparr>i_data = [], i_mode = 0x180, i_uid = op_uid ops, i_gid = op_gid ops, i_synced = False\<rparr>"
      by auto
    note q1 = during_quiet [OF q d1]
    obtain e2 w2 where co: "configureTemporaryOwnership ops c f m w1 = (e2, w2)" by fastforce
    have reg: "IsRegular (i_mode (inodes (w_fs w1) ?j))" by (simp add: nd IsRegular_def ModeType_def)
    note s2 = configure_spec [OF co q1 ti reg]
    note d2 = during_trans [OF d1 temp_at_during_grown [OF s2 [THEN conjunct1]]]
    note q2 = during_quiet [OF q d2]
    note ti2 = during_end [OF s2 [THEN conjunct1]]
    have fin: "during (staging ?fs t) w w'"
      if "cleanupTemporary ops ?tp ca e wn = (e', w')" "during (grown ?fs ?tp) w wn" for ca e e' wn
      using grown_staging [OF tp] during_trans [OF that(2)]
        cleanupTemporary_spec [OF that(1) during_quiet [OF q that(2)] during_end [OF that(2)]] by blast
    show ?thesis
    proof (cases e2)
      case (Some x)
      obtain e' where "cleanupTemporary ops ?tp False x w2 = (e', w')" "r = Inl e'"
        using st' Inr co Some by (auto simp: Let_def split: prod.splits)
      from failed [OF this(2) fin [OF this(1) d2]] show ?thesis .
    next
      case e2: None
      obtain e3 w3 where wr: "writeAndSyncTemporary ops c f data (mode m) w2 = (e3, w3)" by fastforce
      have reg2: "IsRegular (i_mode (inodes (w_fs w2) ?j))" using s2 e2 by simp
      note s3 = writeAndSync_spec [OF wr q2 ti2 reg2]
      note d3 = during_trans [OF d2 temp_at_during_grown [OF s3 [THEN conjunct1]]]
      note q3 = during_quiet [OF q d3]
      note ti3 = during_end [OF s3 [THEN conjunct1]]
      show ?thesis
      proof (cases e3)
        case (Some x)
        obtain e' where "cleanupTemporary ops ?tp False x w3 = (e', w')" "r = Inl e'"
          using st' Inr co e2 wr Some by (auto simp: Let_def split: prod.splits)
        from failed [OF this(2) fin [OF this(1) d3]] show ?thesis .
      next
        case e3: None
        obtain e4 w4 where cl: "Close ops w3 = (e4, w4)" by fastforce
        note l4 = Close_looking [OF cl q3]
        have d4: "during (grown ?fs ?tp) w w4"
          using d3 looking_during [OF l4, of "grown ?fs ?tp"] during_end [OF d3] by (blast intro: during_trans)
        show ?thesis
        proof (cases e4)
          case (Some x)
          obtain e' where "cleanupTemporary ops ?tp True (wrap ''close temporary file: '' x) w4 = (e', w')"
            "r = Inl e'"
            using st' Inr co e2 wr e3 cl Some by (auto simp: Let_def split: prod.splits)
          from failed [OF this(2) fin [OF this(1) d4]] show ?thesis .
        next
          case e4: None
          have "r = Inr ?tp" "w' = w4" using st' Inr co e2 wr e3 cl e4 by auto
          moreover have "inodes (w_fs w4) ?j = new_inode ops data m"
            using s2 e2 s3 e3 nd looking_fs [OF l4] by (simp add: new_inode_def)
          ultimately show ?thesis using d4 tp ti3 looking_fs [OF l4] by (intro staged [of ?tp ?j]) auto
        qed
      qed
    qed
  qed
qed

section \<open>The commit\<close>

text \<open>
  The states after the rename: the target refers to a new inode, every other name is as before, and
  directory entries on the disk are the old ones or the current ones.
\<close>

definition swapped :: "fsys \<Rightarrow> string \<Rightarrow> inode \<Rightarrow> fsys \<Rightarrow> bool" where
  "swapped fs0 t nd fs \<longleftrightarrow>
     (\<exists>i\<ge>next_ino fs0. i < next_ino fs \<and> names fs t = Some i \<and> inodes fs i = nd) \<and>
     (\<forall>p. p \<noteq> t \<longrightarrow> names fs p = names fs0 p) \<and>
     (\<forall>p. durable fs p = durable fs0 p \<or> durable fs p = names fs p) \<and>
     (\<forall>i<next_ino fs0. inodes fs i = inodes fs0 i) \<and> next_ino fs0 \<le> next_ino fs"

definition replacing :: "fsys \<Rightarrow> string \<Rightarrow> inode \<Rightarrow> fsys \<Rightarrow> bool" where
  "replacing fs0 t nd fs \<longleftrightarrow> staging fs0 t fs \<or> swapped fs0 t nd fs"

lemma swapped_replacing: "during (swapped fs0 t nd) w w' \<Longrightarrow> during (replacing fs0 t nd) w w'"
  by (erule during_mono) (simp add: replacing_def)

lemma staging_replacing: "during (staging fs0 t) w w' \<Longrightarrow> during (replacing fs0 t nd) w w'"
  by (erule during_mono) (simp add: replacing_def)

lemma Rename_temp:
  assumes rn: "Rename ops tp t w = (e, w')" and q: "quiet ops (w_clock w)"
    and ti: "temp_at fs0 tp j (w_fs w)" and tp: "tp \<noteq> t" "names fs0 tp = None"
    and nd: "inodes (w_fs w) j = nd"
  shows "e \<noteq> None \<Longrightarrow> looking w w'"
    and "e = None \<Longrightarrow> swapped fs0 t nd (w_fs w') \<and> during (replacing fs0 t nd) w w'"
proof -
  let ?act = "\<lambda>fs. case names fs tp of
          None \<Rightarrow> (Inl (path_error ''rename'' tp (Sentinel ErrNotExist)), fs)
        | Some i \<Rightarrow>
            if (case names fs t of None \<Rightarrow> False | Some j \<Rightarrow> i_mode (inodes fs j) AND ModeDir \<noteq> 0)
            then (Inl (path_error ''rename'' tp (Sentinel ErrExist)), fs)
            else if tp = t then (Inr (), fs)
            else (Inr (), fs\<lparr>names := (names fs)(t \<mapsto> i, tp := None)\<rparr>)"
  obtain r where r: "syscall ops ?act w = (r, w')" "e = err_of r"
    using rn unfolding Rename_def by (auto split: prod.splits)
  have nt: "names (w_fs w) tp = Some j" using ti by (simp add: temp_at_def)
  show "looking w w'" if "e \<noteq> None"
    using r(1) q
  proof (rule syscall_quiet)
    assume "?act (w_fs w) = (r, w_fs w')" and t: "w_clock w' = Suc (w_clock w)"
      "w_trace w' = w_fs w' # w_fs w # w_trace w"
    with that r(2) nt tp(1) have "w_fs w' = w_fs w"
      by (auto simp: err_of_def split: if_splits sum.splits)
    with t show ?thesis by (simp add: during_def)
  qed (simp add: during_def)
  show "swapped fs0 t nd (w_fs w') \<and> during (replacing fs0 t nd) w w'" if "e = None"
    using r(1) q
  proof (rule syscall_quiet)
    assume a: "?act (w_fs w) = (r, w_fs w')" and t: "w_clock w' = Suc (w_clock w)"
      "w_trace w' = w_fs w' # w_fs w # w_trace w"
    from a that r(2) nt tp(1) have fs': "w_fs w' = (w_fs w)\<lparr>names := (names (w_fs w))(t \<mapsto> j, tp := None)\<rparr>"
      by (auto simp: err_of_def split: if_splits)
    from ti have g: "grown fs0 tp (w_fs w)" by (rule temp_at_grown)
    then have "swapped fs0 t nd (w_fs w')"
      using nd nt tp by (auto simp: fs' swapped_def grown_def)
    moreover have "staging fs0 t (w_fs w)" using g tp by (auto simp: staging_def)
    ultimately show ?thesis using t by (simp add: during_def replacing_def)
  qed (use that r(2) in \<open>simp add: err_of_def\<close>)
qed

lemma OpenDir_spec:
  assumes "OpenDir ops p w = (r, w')" "quiet ops (w_clock w)"
  shows "looking w w'" and "r = Inr d \<Longrightarrow> d = p"
proof -
  have "snd (case names fs p of None \<Rightarrow> (Inl (path_error ''open'' p (Sentinel ErrNotExist)), fs)
      | Some i \<Rightarrow> (Inr p, fs)) = fs" for fs :: fsys by (auto split: option.splits)
  note s = syscall_pure [OF assms(1) [unfolded OpenDir_def] assms(2) this]
  show "looking w w'" by (rule s(2))
  show "r = Inr d \<Longrightarrow> d = p" using s(3) by (auto split: option.splits)
qed

lemma SyncDir_spec:
  assumes "SyncDir ops (Dir t) w = (e, w')" "quiet ops (w_clock w)" "swapped fs0 t nd (w_fs w)"
  shows "during (swapped fs0 t nd) w w'" and "e = None \<Longrightarrow> durable (w_fs w') t = names (w_fs w') t"
proof -
  let ?act = "\<lambda>fs. (Inr (), fs\<lparr>durable := (\<lambda>p. if Dir p = Dir t then names fs p else durable fs p)\<rparr>)"
  obtain r where r: "syscall ops ?act w = (r, w')" "e = err_of r"
    using assms(1) unfolding SyncDir_def by (auto split: prod.splits)
  show "during (swapped fs0 t nd) w w'"
    by (rule syscall_during [OF r(1)]) (use assms in \<open>auto simp: swapped_def\<close>)
  show "durable (w_fs w') t = names (w_fs w') t" if "e = None"
    using r(1) assms(2)
  proof (rule syscall_quiet)
    assume "?act (w_fs w) = (r, w_fs w')"
    then have "w_fs w' = (w_fs w)\<lparr>durable := (\<lambda>p. if Dir p = Dir t then names (w_fs w) p else durable (w_fs w) p)\<rparr>"
      by simp
    then show ?thesis by simp
  qed (use that r(2) in \<open>simp add: err_of_def\<close>)
qed

lemma joinDirClose_looking:
  "joinDirClose ops pr p w = (e, w') \<Longrightarrow> quiet ops (w_clock w) \<Longrightarrow> looking w w'"
  by (auto simp: joinDirClose_def split: prod.splits option.splits dest: Close_looking)

lemma syncParent_spec:
  assumes sp: "syncParentDirectory ops c (Dir t) w = (e, w')" and q: "quiet ops (w_clock w)"
    and sw: "swapped fs0 t nd (w_fs w)"
  shows "during (swapped fs0 t nd) w w' \<and> (e = None \<longrightarrow> durable (w_fs w') t = names (w_fs w') t)"
proof (cases "c (w_clock w)")
  case (Some x)
  with sp sw show ?thesis by (auto simp: syncParentDirectory_def checkContext_def intro: during_refl)
next
  case None
  note sp' = sp [unfolded syncParentDirectory_def checkContext_def None option.case]
  obtain r1 w1 where o: "OpenDir ops (Dir t) w = (r1, w1)" by fastforce
  note os = OpenDir_spec [OF o q]
  have look: "during (swapped fs0 t nd) a b" if "looking a b" "swapped fs0 t nd (w_fs a)" for a b
    using that by (rule looking_during)
  note d1 = look [OF os(1) sw]
  note q1 = during_quiet [OF q d1]
  note e1 = during_end [OF d1]
  have close: "during (swapped fs0 t nd) w w'"
    if "joinDirClose ops pr p v = (x, w')" "during (swapped fs0 t nd) w v" for pr p v x
    using joinDirClose_looking [OF that(1) during_quiet [OF q that(2)]] that(2)
      look during_end during_trans by blast
  show ?thesis
  proof (cases r1)
    case (Inl x)
    with sp' o d1 show ?thesis by auto
  next
    case (Inr d)
    obtain e2 w2 where sy: "SyncDir ops (Dir t) w1 = (e2, w2)" by fastforce
    note s2 = SyncDir_spec [OF sy q1 e1]
    note d2 = during_trans [OF d1 s2(1)]
    note q2 = during_quiet [OF q d2]
    note e2 = during_end [OF d2]
    obtain e3 w3 where cl: "Close ops w2 = (e3, w3)" by fastforce
    note l3 = Close_looking [OF cl q2]
    note d3 = during_trans [OF d2 look [OF l3 e2]]
    show ?thesis
    proof (cases "c (w_clock w1)")
      case (Some x)
      with sp' o Inr have "e \<noteq> None" "\<exists>pr x. joinDirClose ops pr (Dir t) w1 = (x, w')"
        by (auto split: prod.splits)
      with close d1 show ?thesis by blast
    next
      case c1: None
      note sp'' = sp' [unfolded o Inr prod.case sum.case c1 option.case os(2) [OF Inr] sy]
      show ?thesis
      proof (cases e2)
        case (Some x)
        with sp'' have "e \<noteq> None" "\<exists>pr x. joinDirClose ops pr (Dir t) w2 = (x, w')"
          by (auto split: prod.splits)
        with close d2 show ?thesis by blast
      next
        case None
        with sp'' cl have "w' = w3" by (cases e3) auto
        with d3 s2(2) [OF None] looking_fs [OF l3] show ?thesis by simp
      qed
    qed
  qed
qed

lemma validateReplacement_looking:
  assumes "validateReplacement ops c t data w = (e, w')" "quiet ops (w_clock w)"
  shows "looking w w'"
proof (cases "c (w_clock w)")
  case (Some x)
  with assms show ?thesis by (auto simp: validateReplacement_def checkContext_def intro: during_refl)
next
  case None
  obtain r w1 where r: "readRegularFile ops t w = (r, w1)" by fastforce
  with assms None have "w1 = w'"
    by (auto simp: validateReplacement_def checkContext_def split: sum.splits prod.splits if_splits)
  with readRegular_spec(1) [OF r assms(2)] show ?thesis by simp
qed

lemma checkExpected_spec:
  assumes "checkExpected ops c t ex w = (e, w')" "quiet ops (w_clock w)"
  shows "looking w w'" and "e = None \<Longrightarrow> honest ops \<Longrightarrow> ex = Some s \<Longrightarrow> matches (w_fs w) t s"
  using assms requireSnapshot_spec [of ops t _ w _ w']
  by (auto simp: checkExpected_def checkContext_def intro: during_refl split: option.splits)

lemma commitCleanup_spec:
  assumes "commitCleanup ops tp pr w = ((ren, e), w')" "quiet ops (w_clock w)" "grown fs0 tp (w_fs w)"
  shows "\<not> ren \<and> e \<noteq> None \<and> during (grown fs0 tp) w w'"
proof -
  obtain x w1 where r: "Remove ops tp w = (x, w1)" by fastforce
  with assms(1) have "w1 = w'" "\<not> ren" "e \<noteq> None" by (auto simp: commitCleanup_def split: option.splits)
  with Remove_temp(1) [OF r assms(2,3)] show ?thesis by simp
qed

definition commit_outcome :: "fsys \<Rightarrow> string \<Rightarrow> inode \<Rightarrow> bool \<Rightarrow> err \<Rightarrow> world \<Rightarrow> world \<Rightarrow> bool" where
  "commit_outcome fs0 t nd ren e w w' \<longleftrightarrow>
     (if ren then during (replacing fs0 t nd) w w' \<and> swapped fs0 t nd (w_fs w') \<and>
        (e = None \<longrightarrow> durable (w_fs w') t = names (w_fs w') t)
      else e \<noteq> None \<and> during (staging fs0 t) w w')"

lemma commit_spec:
  assumes cm: "commitReplacement ops c tp t data ex w = ((ren, e), w')" and q: "quiet ops (w_clock w)"
    and ti: "temp_at fs0 tp j (w_fs w)" and tp: "tp \<noteq> t" "names fs0 tp = None"
    and nd: "inodes (w_fs w) j = nd"
  shows "commit_outcome fs0 t nd ren e w w' \<and>
    (ren \<longrightarrow> honest ops \<longrightarrow> (\<forall>s. ex = Some s \<longrightarrow> matches (w_fs w) t s))"
proof -
  obtain e1 w1 where ce: "checkExpected ops c t ex w = (e1, w1)" by fastforce
  note s1 = checkExpected_spec [OF ce q]
  note fs1 = looking_fs [OF s1(1)]
  note q1 = during_quiet [OF q s1(1)]
  have g: "grown fs0 tp (w_fs w)" using ti by (rule temp_at_grown)
  have abort: ?thesis if "commitCleanup ops tp pr v = ((ren, e), w')" "looking w v" for pr v
  proof -
    have "grown fs0 tp (w_fs v)" using g looking_fs [OF that(2)] by simp
    note s = commitCleanup_spec [OF that(1) during_quiet [OF q that(2)] this]
    have "during (grown fs0 tp) w v" using that(2) g by (rule looking_during)
    with s have "during (grown fs0 tp) w w'" by (blast intro: during_trans)
    with s show ?thesis using grown_staging [OF tp] by (simp add: commit_outcome_def)
  qed
  show ?thesis
  proof (cases "e1 = None \<and> c (w_clock w1) = None")
    case False
    then have "\<exists>pr. commitCleanup ops tp pr w1 = ((ren, e), w')"
      using cm ce by (auto simp: commitReplacement_def checkContext_def split: option.splits)
    with abort s1(1) show ?thesis by blast
  next
    case True
    obtain e2 w2 where rn: "Rename ops tp t w1 = (e2, w2)" by fastforce
    note cm' = cm [unfolded commitReplacement_def ce prod.case True [THEN conjunct1] option.case
        checkContext_def True [THEN conjunct2] rn]
    have ti1: "temp_at fs0 tp j (w_fs w1)" "inodes (w_fs w1) j = nd" using ti nd fs1 by auto
    note s2 = Rename_temp [OF rn q1 ti1(1) tp ti1(2)]
    show ?thesis
    proof (cases e2)
      case (Some x)
      with cm' have "\<exists>pr. commitCleanup ops tp pr w2 = ((ren, e), w')" by auto
      moreover have "looking w w2" using s1(1) s2(1) Some looking_trans by blast
      ultimately show ?thesis using abort by blast
    next
      case None
      have m: "ren \<longrightarrow> honest ops \<longrightarrow> (\<forall>s. ex = Some s \<longrightarrow> matches (w_fs w) t s)"
        using s1(2) True by blast
      have st: "staging fs0 t (w_fs w)" using g tp by (auto simp: staging_def)
      have "during (replacing fs0 t nd) w w1"
        by (rule looking_during [OF s1(1)]) (simp add: replacing_def st)
      with s2(2) [OF None] have d2: "during (replacing fs0 t nd) w w2" and sw: "swapped fs0 t nd (w_fs w2)"
        by (auto intro: during_trans)
      note q2 = during_quiet [OF q d2]
      obtain e3 w3 where sp: "syncParentDirectory ops c (Dir t) w2 = (e3, w3)" by fastforce
      note s3 = syncParent_spec [OF sp q2 sw]
      have d3: "during (replacing fs0 t nd) w w3" "swapped fs0 t nd (w_fs w3)"
        using s3 d2 swapped_replacing during_trans during_end by blast+
      show ?thesis
      proof (cases e3)
        case (Some x)
        with cm' None sp d3 m show ?thesis by (auto simp: commit_outcome_def)
      next
        case e3: None
        obtain e4 w4 where va: "validateReplacement ops c t data w3 = (e4, w4)" by fastforce
        note l4 = validateReplacement_looking [OF va during_quiet [OF q d3(1)]]
        have "during (replacing fs0 t nd) w3 w4"
          by (rule looking_during [OF l4]) (simp add: replacing_def d3(2))
        with d3(1) have d4: "during (replacing fs0 t nd) w w4" by (rule during_trans)
        have "ren" "w' = w4" using cm' None sp e3 va by (cases e4; simp)+
        with d4 d3(2) s3 e3 m looking_fs [OF l4] show ?thesis by (simp add: commit_outcome_def)
      qed
    qed
  qed
qed

lemma replace_spec:
  assumes rp: "replaceFileWithExpectation ops c t data m ex w = ((ren, e), w')"
    and q: "quiet ops (w_clock w)" and ok: "fs_ok (w_fs w)"
  shows "commit_outcome (w_fs w) t (new_inode ops data m) ren e w w' \<and>
    (ren \<longrightarrow> honest ops \<longrightarrow> (\<forall>s. ex = Some s \<longrightarrow> matches (w_fs w) t s))"
proof -
  let ?nd = "new_inode ops data m"
  obtain r1 w1 where st: "stageReplacement ops c t data m w = (r1, w1)" by fastforce
  from st q show ?thesis
  proof (cases rule: stage_spec)
    case (failed x)
    with rp st show ?thesis by (auto simp: replaceFileWithExpectation_def commit_outcome_def)
  next
    case (staged tp j)
    with rp st have cm: "commitReplacement ops c tp t data ex w1 = ((ren, e), w')"
      by (simp add: replaceFileWithExpectation_def)
    note s = commit_spec [OF cm during_quiet [OF q staged(4)] staged(5) staged(2,3,6)]
    note d1 = grown_staging [OF staged(2,3,4)]
    have v: "view (w_fs w1) t = view (w_fs w) t"
      using grown_view(1) [OF temp_at_grown [OF staged(5)] ok] staged(2) by simp
    have "commit_outcome (w_fs w) t ?nd ren e w w'"
      using s d1 staging_replacing [OF d1, of ?nd] unfolding commit_outcome_def
      by (auto intro: during_trans split: if_splits)
    moreover have "matches (w_fs w1) t s = matches (w_fs w) t s" for s
      by (simp add: matches_def shows_file_def v)
    ultimately show ?thesis using s by simp
  qed
qed

end
