(* ===== verification/Atomic_File.thy ===== *)
theory Atomic_File
  imports Replace
begin

text \<open>
  Replacing a file, seen from outside: the contract of \<open>replaceFileIfUnchanged\<close> as the locale
  \<open>file_replacer\<close> (at every instant, also through a power failure, the target shows the old or
  the whole new file; nothing else changes; success means the new file is on the disk), its
  interpretation on the code, and its behaviour in a healthy environment.
\<close>

section \<open>What the paths show\<close>

lemma meta_of_new_inode [simp]:
  "setOwnership m \<Longrightarrow> mode m AND modeMask = mode m \<Longrightarrow> meta_of (new_inode ops d m) = m"
  by (cases m) (simp add: meta_of_def new_inode_def and.assoc)

lemma new_inode_simps [simp]:
  "i_data (new_inode ops d m) = d" "i_synced (new_inode ops d m)" "IsRegular (i_mode (new_inode ops d m))"
  by (simp_all add: new_inode_def)

lemma meta_of_wf [simp]: "setOwnership (meta_of nd)" "mode (meta_of nd) AND modeMask = mode (meta_of nd)"
  by (simp_all add: meta_of_def and.assoc)

lemma staging_view:
  assumes "staging fs0 t fs" "fs_ok fs0"
  shows "p = t \<or> view fs0 p \<noteq> None \<Longrightarrow> view fs p = view fs0 p" and "disk fs p = disk fs0 p" and "fs_ok fs"
proof -
  have "(p = t \<or> view fs0 p \<noteq> None \<longrightarrow> view fs p = view fs0 p) \<and> disk fs p = disk fs0 p \<and> fs_ok fs"
  proof (cases "fs = fs0")
    case False
    with assms(1) obtain tp where tp: "tp \<noteq> t" "names fs0 tp = None" "grown fs0 tp fs"
      by (auto simp: staging_def)
    then have "p = t \<or> view fs0 p \<noteq> None \<Longrightarrow> p \<noteq> tp" by (auto simp: view_def)
    with grown_view [OF tp(3) assms(2)] grown_fs_ok [OF tp(3) assms(2)] show ?thesis by blast
  qed (use assms in simp)
  then show "p = t \<or> view fs0 p \<noteq> None \<Longrightarrow> view fs p = view fs0 p" "disk fs p = disk fs0 p" "fs_ok fs"
    by auto
qed

lemma map_option_agree: "(\<And>i. x = Some i \<Longrightarrow> f i = g i) \<Longrightarrow> map_option f x = map_option g x"
  by (cases x) auto

lemma swapped_view:
  assumes "swapped fs0 t nd fs" "fs_ok fs0"
  shows "view fs t = Some nd" and "disk fs t = disk fs0 t \<or> disk fs t = Some nd"
    and "p \<noteq> t \<Longrightarrow> view fs p = view fs0 p"
    and "p \<noteq> t \<Longrightarrow> disk fs p = disk fs0 p \<or> disk fs p = view fs0 p" and "fs_ok fs"
proof -
  from assms(1) obtain i where i: "next_ino fs0 \<le> i" "i < next_ino fs" "names fs t = Some i" "inodes fs i = nd"
    and n: "\<And>p. p \<noteq> t \<Longrightarrow> names fs p = names fs0 p"
    and d: "\<And>p. durable fs p = durable fs0 p \<or> durable fs p = names fs p"
    and old: "\<And>i. i < next_ino fs0 \<Longrightarrow> inodes fs i = inodes fs0 i" and le: "next_ino fs0 \<le> next_ino fs"
    by (auto simp: swapped_def)
  note ok = assms(2) [unfolded fs_ok_def, rule_format]
  have dd: "map_option (inodes fs) (durable fs0 p) = disk fs0 p"
    and nn: "map_option (inodes fs) (names fs0 p) = view fs0 p" for p
    unfolding disk_def view_def using ok old by (auto intro!: map_option_agree)
  show "view fs t = Some nd" using i by (simp add: view_def)
  then show "disk fs t = disk fs0 t \<or> disk fs t = Some nd"
    using d [of t] dd [of t] by (auto simp: disk_def view_def)
  show "view fs p = view fs0 p" if "p \<noteq> t" using n [OF that] nn by (simp add: view_def)
  show "disk fs p = disk fs0 p \<or> disk fs p = view fs0 p" if "p \<noteq> t"
    using d [of p] n [OF that] dd nn by (auto simp: disk_def)
  show "fs_ok fs" unfolding fs_ok_def using i n d ok le by (metis option.inject order_less_le_trans)
qed

section \<open>The contract of a replacement\<close>

text \<open>
  What the store relies on. \<open>calm\<close> is the condition on the environment; \<open>installed\<close> is the
  file a replacement puts in place.
\<close>

definition touches_only :: "string \<Rightarrow> inode \<Rightarrow> fsys \<Rightarrow> fsys \<Rightarrow> bool" where
  "touches_only t nd fs0 fs \<longleftrightarrow>
     (view fs t = view fs0 t \<or> view fs t = Some nd) \<and>
     (disk fs t = disk fs0 t \<or> disk fs t = Some nd) \<and>
     (\<forall>p. p \<noteq> t \<longrightarrow> view fs0 p \<noteq> None \<longrightarrow>
        view fs p = view fs0 p \<and> (disk fs p = disk fs0 p \<or> disk fs p = view fs0 p))"

text \<open>\<open>allowed A\<close>: every path shows, now and on the disk, something \<open>A\<close> allows there.\<close>

definition allowed :: "(string \<Rightarrow> inode option \<Rightarrow> bool) \<Rightarrow> fsys \<Rightarrow> bool" where
  "allowed A fs \<longleftrightarrow> (\<forall>p. A p (view fs p) \<and> A p (disk fs p))"

text \<open>
  The paths \<open>A\<close> says something about exist, but for the target: a temporary file may take any
  free name.
\<close>

definition tracked_exist :: "(string \<Rightarrow> inode option \<Rightarrow> bool) \<Rightarrow> string \<Rightarrow> fsys \<Rightarrow> bool" where
  "tracked_exist A t fs \<longleftrightarrow> (\<forall>p v. \<not> A p v \<longrightarrow> p = t \<or> view fs p \<noteq> None)"

locale file_replacer =
  fixes replace :: "ctx \<Rightarrow> string \<Rightarrow> string \<Rightarrow> fileMetadata \<Rightarrow> fileSnapshot \<Rightarrow> world \<Rightarrow> (bool \<times> err) \<times> world"
    and calm :: "world \<Rightarrow> bool"
    and installed :: "string \<Rightarrow> fileMetadata \<Rightarrow> inode"
  assumes calm_stays: "calm w \<Longrightarrow> replace c t d m ex w = (r, w') \<Longrightarrow> calm w'"
    and old_or_new: "calm w \<Longrightarrow> replace c t d m ex w = ((ren, e), w') \<Longrightarrow>
      during (touches_only t (installed d m) (w_fs w)) w w'"
    and refused: "calm w \<Longrightarrow> replace c t d m ex w = ((False, e), w') \<Longrightarrow>
      e \<noteq> None \<and> view (w_fs w') t = view (w_fs w) t \<and> disk (w_fs w') t = disk (w_fs w) t"
    and renamed: "calm w \<Longrightarrow> replace c t d m ex w = ((True, e), w') \<Longrightarrow>
      view (w_fs w') t = Some (installed d m) \<and> matches (w_fs w) t ex"
    and committed: "calm w \<Longrightarrow> replace c t d m ex w = ((ren, None), w') \<Longrightarrow>
      disk (w_fs w') t = Some (installed d m)"
    and installed_file: "i_data (installed d m) = d \<and> IsRegular (i_mode (installed d m)) \<and>
      i_synced (installed d m)"
begin

lemma success:
  assumes "calm w" "replace c t d m ex w = ((ren, None), w')"
  shows "ren" and "view (w_fs w') t = Some (installed d m)" and "disk (w_fs w') t = Some (installed d m)"
    and "matches (w_fs w) t ex"
proof -
  show ren: "ren" using refused [of w c t d m ex None w'] assms by (cases ren) auto
  have "replace c t d m ex w = ((True, None), w')" using assms(2) ren by simp
  from renamed [OF assms(1) this] show "view (w_fs w') t = Some (installed d m)" "matches (w_fs w) t ex"
    by blast+
  from committed [OF assms] show "disk (w_fs w') t = Some (installed d m)" .
qed

lemma others:
  assumes "calm w" "replace c t d m ex w = ((ren, e), w')" "p \<noteq> t" "view (w_fs w) p \<noteq> None"
  shows "view (w_fs w') p = view (w_fs w) p"
  using during_end [OF old_or_new [OF assms(1,2)]] assms(3,4) by (simp add: touches_only_def)

text \<open>Whatever happens during the replacement, allowed states stay allowed.\<close>

lemma keeps_allowed:
  assumes "calm w" "replace c t d m ex w = ((ren, e), w')"
    and "allowed A (w_fs w)" "A t (Some (installed d m))" "tracked_exist A t (w_fs w)"
  shows "during (allowed A) w w'"
proof (rule during_mono [OF old_or_new [OF assms(1,2)]])
  fix s
  assume s: "touches_only t (installed d m) (w_fs w) s"
  show "allowed A s"
    unfolding allowed_def
  proof
    fix p
    from assms(3) have old: "A p (view (w_fs w) p)" "A p (disk (w_fs w) p)" by (auto simp: allowed_def)
    show "A p (view s p) \<and> A p (disk s p)"
    proof (cases "p = t")
      case True
      with s old assms(4) show ?thesis by (auto simp: touches_only_def)
    next
      case False
      show ?thesis
      proof (cases "\<forall>v. A p v")
        case True
        then show ?thesis by simp
      next
        case tr: False
        with assms(5) False have "view (w_fs w) p \<noteq> None" by (auto simp: tracked_exist_def)
        with s False old show ?thesis by (auto simp: touches_only_def)
      qed
    qed
  qed
qed

text \<open>A refused replacement of a target that is not what was expected leaves it alone.\<close>

lemma mismatch_refused:
  assumes "calm w" "replace c t d m ex w = ((ren, e), w')" "\<not> matches (w_fs w) t ex"
  shows "\<not> ren \<and> e \<noteq> None \<and> view (w_fs w') t = view (w_fs w) t"
proof (cases ren)
  case True
  with renamed [OF assms(1), of c t d m ex e w'] assms(2,3) show ?thesis by simp
next
  case False
  with refused [OF assms(1), of c t d m ex e w'] assms(2) show ?thesis by simp
qed

end

definition calm :: "fileOps \<Rightarrow> world \<Rightarrow> bool" where
  "calm ops w \<longleftrightarrow> quiet ops (w_clock w) \<and> honest ops \<and> fs_ok (w_fs w)"

lemma replacing_touches_only:
  assumes "replacing fs0 t nd fs" "fs_ok fs0"
  shows "touches_only t nd fs0 fs" and "fs_ok fs"
  using assms staging_view [of fs0 t fs] swapped_view [of fs0 t nd fs]
  unfolding replacing_def touches_only_def by blast+

lemma commit_outcome_during:
  assumes "commit_outcome fs0 t nd ren e w w'"
  shows "during (replacing fs0 t nd) w w'"
  using assms staging_replacing by (auto simp: commit_outcome_def split: if_splits)

interpretation os_replacer: file_replacer "replaceFileIfUnchanged ops" "calm ops" "new_inode ops" for ops
proof
  fix w c t d m ex r w' ren e
  assume c: "calm ops w"
  then have q: "quiet ops (w_clock w)" and h: "honest ops" and ok: "fs_ok (w_fs w)" by (auto simp: calm_def)
  let ?nd = "new_inode ops d m"
  have spec: "commit_outcome (w_fs w) t (new_inode ops d m) ren e w w' \<and> (ren \<longrightarrow> matches (w_fs w) t ex)"
    if "replaceFileIfUnchanged ops c t d m ex w = ((ren, e), w')" for ren e c t d m ex w'
    using replace_spec [OF that [unfolded replaceFileIfUnchanged_def] q ok] h by blast
  {
    assume r: "replaceFileIfUnchanged ops c t d m ex w = (r, w')"
    obtain ren e where r': "r = (ren, e)" by fastforce
    note du = commit_outcome_during [OF spec [OF r [unfolded r'], THEN conjunct1]]
    show "calm ops w'"
      using during_quiet [OF q du] replacing_touches_only(2) [OF during_end [OF du] ok] h
      by (simp add: calm_def)
  next
    assume "replaceFileIfUnchanged ops c t d m ex w = ((ren, e), w')"
    from commit_outcome_during [OF spec [OF this, THEN conjunct1]]
    show "during (touches_only t ?nd (w_fs w)) w w'"
      by (rule during_mono) (rule replacing_touches_only(1) [OF _ ok])
  next
    assume "replaceFileIfUnchanged ops c t d m ex w = ((False, e), w')"
    from spec [OF this] have "e \<noteq> None" "staging (w_fs w) t (w_fs w')"
      by (auto simp: commit_outcome_def dest: during_end)
    with staging_view [OF _ ok] show "e \<noteq> None \<and> view (w_fs w') t = view (w_fs w) t \<and> disk (w_fs w') t = disk (w_fs w) t"
      by blast
  next
    assume "replaceFileIfUnchanged ops c t d m ex w = ((True, e), w')"
    from spec [OF this] show "view (w_fs w') t = Some ?nd \<and> matches (w_fs w) t ex"
      using swapped_view(1) [OF _ ok] by (auto simp: commit_outcome_def)
  next
    assume "replaceFileIfUnchanged ops c t d m ex w = ((ren, None), w')"
    from spec [OF this] have "swapped (w_fs w) t ?nd (w_fs w')" "durable (w_fs w') t = names (w_fs w') t"
      by (auto simp: commit_outcome_def split: if_splits)
    with swapped_view(1) [OF _ ok] show "disk (w_fs w') t = Some ?nd" by (simp add: disk_def view_def)
  }
qed simp

section \<open>A healthy environment\<close>

text \<open>No call fails, nobody else touches the file system, the context stays alive.\<close>

definition healthy :: "fileOps \<Rightarrow> ctx \<Rightarrow> bool" where
  "healthy ops c \<longleftrightarrow> (\<forall>n. op_fault ops n = None \<and> op_edit ops n = id \<and> c n = None)"

definition step_to :: "fsys \<Rightarrow> world \<Rightarrow> world" where
  "step_to fs w = w\<lparr>w_fs := fs, w_clock := Suc (w_clock w), w_trace := fs # w_fs w # w_trace w\<rparr>"

abbreviation look :: "world \<Rightarrow> world" where
  "look w \<equiv> step_to (w_fs w) w"

lemma step_to_sel [simp]:
  "w_fs (step_to fs w) = fs" "w_clock (step_to fs w) = Suc (w_clock w)"
  by (simp_all add: step_to_def)

lemma healthy_ctx: "healthy ops c \<Longrightarrow> checkContext c phase w = None"
  by (simp add: checkContext_def healthy_def)

lemma healthy_syscall:
  "healthy ops c \<Longrightarrow> syscall ops act w = (case act (w_fs w) of (r, fs) \<Rightarrow> (r, step_to fs w))"
  by (simp add: syscall_def healthy_def step_to_def split: prod.splits)

lemma healthy_calm: "healthy ops c \<Longrightarrow> fs_ok (w_fs w) \<Longrightarrow> calm ops w"
  by (simp add: healthy_def calm_def quiet_def honest_def)

lemma healthy_inode_call:
  "healthy ops c \<Longrightarrow>
     (case syscall ops (\<lambda>fs. (Inr (), on_inode j f fs)) w of (r, w') \<Rightarrow> (err_of r, w')) =
       (None, step_to (on_inode j f (w_fs w)) w)"
  by (simp add: healthy_syscall err_of_def)

lemma healthy_Close: "healthy ops c \<Longrightarrow> Close ops w = (None, look w)"
  by (simp add: Close_def healthy_syscall err_of_def)

definition not_symlink :: "fsys \<Rightarrow> string \<Rightarrow> bool" where
  "not_symlink fs p = (case view fs p of None \<Rightarrow> True | Some nd \<Rightarrow> IsRegular (i_mode nd))"

lemma regular_not_symlink:
  assumes "IsRegular m"
  shows "m AND ModeSymlink = 0" and "m AND ModeDir = 0"
proof -
  have "ModeType AND ModeSymlink = ModeSymlink" "ModeType AND ModeDir = ModeDir"
    by (simp_all add: ModeType_def ModeSymlink_def ModeDir_def)
  then show "m AND ModeSymlink = 0" "m AND ModeDir = 0"
    using assms unfolding IsRegular_def by (metis and.assoc and_zero_eq zero_and_eq)+
qed

lemma healthy_readOptional:
  assumes h: "healthy ops c"
  shows "view (w_fs w) p = None \<Longrightarrow>
      readOptionalRegularFile ops p w = (([], noMetadata, False, None), look w)"
    and "view (w_fs w) p = Some nd \<Longrightarrow> IsRegular (i_mode nd) \<Longrightarrow>
      readOptionalRegularFile ops p w = ((i_data nd, meta_of nd, True, None), look (look (look (look w))))"
proof -
  show "view (w_fs w) p = None \<Longrightarrow>
      readOptionalRegularFile ops p w = (([], noMetadata, False, None), look w)"
    by (simp add: readOptionalRegularFile_def OpenReadNoFollow_def healthy_syscall [OF h] view_def path_error_def)
  assume v: "view (w_fs w) p = Some nd" and r: "IsRegular (i_mode nd)"
  then obtain i where i: "names (w_fs w) p = Some i" "inodes (w_fs w) i = nd" by (auto simp: view_def)
  show "readOptionalRegularFile ops p w = ((i_data nd, meta_of nd, True, None), look (look (look (look w))))"
    using i r regular_not_symlink [OF r]
    by (simp add: readOptionalRegularFile_def OpenReadNoFollow_def Stat_def ReadAll_def joinReadClose_def
        healthy_syscall [OF h] healthy_Close [OF h] metadataFromInfo_def noMetadata_def meta_of_def)
qed

lemma matches_view: "view fs p = view fs' p \<Longrightarrow> matches fs p ex = matches fs' p ex"
  by (simp add: matches_def shows_file_def)

lemma healthy_matches:
  assumes "healthy ops c" "matches (w_fs w) p ex"
  shows "\<exists>w'. requireSnapshot ops p ex w = (None, w') \<and> w_fs w' = w_fs w"
proof (cases "snap_exists ex")
  case False
  with assms(2) have "view (w_fs w) p = None" by (simp add: matches_def)
  with healthy_readOptional(1) [OF assms(1) this] False show ?thesis by (simp add: requireSnapshot_def)
next
  case True
  with assms(2) obtain nd where nd: "view (w_fs w) p = Some nd" "IsRegular (i_mode nd)"
    "i_data nd = snap_data ex" "meta_of nd = snap_metadata ex"
    by (auto simp: matches_def shows_file_def)
  with healthy_readOptional(2) [OF assms(1) nd(1,2)] True show ?thesis by (simp add: requireSnapshot_def)
qed

text \<open>Room for the temporary file: the directory is there and the name drawn is free.\<close>

definition temp_path :: "fileOps \<Rightarrow> string \<Rightarrow> nat \<Rightarrow> string" where
  "temp_path ops t n = joinPath (Dir t) (temp_name (''.'' @ Base t @ ''.tmp-*'') (op_rand ops n))"

definition room :: "fileOps \<Rightarrow> string \<Rightarrow> world \<Rightarrow> bool" where
  "room ops t w \<longleftrightarrow> SEP \<notin> set (Base t) \<and> names (w_fs w) (temp_path ops t (w_clock w)) = None \<and>
     (\<exists>nd. view (w_fs w) (Dir t) = Some nd \<and> i_mode nd AND ModeDir \<noteq> 0)"

lemma healthy_stage:
  assumes h: "healthy ops c" and r: "room ops t w" and l: "\<forall>n. length data \<le> op_wlimit ops n"
  shows "\<exists>tp w'. stageReplacement ops c t data m w = (Inr tp, w')"
proof -
  let ?pat = "''.'' @ Base t @ ''.tmp-*''"
  obtain d where d: "names (w_fs w) (Dir t) = Some d" "i_mode (inodes (w_fs w) d) AND ModeDir \<noteq> 0"
    using r by (auto simp: room_def view_def)
  have sep: "SEP \<notin> set ?pat" using r by (simp add: room_def)
  obtain f w1 where ct: "CreateTemp ops (Dir t) ?pat w = (Inr f, w1)"
    using d r unfolding CreateTemp_def if_not_P [OF sep] Let_def healthy_syscall [OF h]
    by (simp add: room_def temp_path_def)
  have "\<exists>w2. configureTemporaryOwnership ops c f m w1 = (None, w2)"
    by (cases "setOwnership m")
      (simp_all add: configureTemporaryOwnership_def healthy_ctx [OF h] Chmod_def Chown_def healthy_inode_call [OF h])
  then obtain w2 where co: "configureTemporaryOwnership ops c f m w1 = (None, w2)" by blast
  obtain w3 where wr: "Write ops f data w2 = ((length data, None), w3)"
    using h l by (simp add: Write_def Let_def healthy_def min_absorb2)
  have "\<exists>w4. writeAndSyncTemporary ops c f data (mode m) w2 = (None, w4)"
    by (simp add: writeAndSyncTemporary_def healthy_ctx [OF h] wr Chmod_def Sync_def healthy_inode_call [OF h])
  then obtain w4 where "writeAndSyncTemporary ops c f data (mode m) w2 = (None, w4)" by blast
  with ct co show ?thesis by (simp add: stageReplacement_def healthy_ctx [OF h] Let_def healthy_Close [OF h])
qed

lemma healthy_replace:
  assumes h: "healthy ops c" and r: "room ops t w" and l: "\<forall>n. length data \<le> op_wlimit ops n"
    and ok: "fs_ok (w_fs w)" and m: "matches (w_fs w) t ex" and ns: "not_symlink (w_fs w) t"
  shows "\<exists>w'. replaceFileIfUnchanged ops c t data md ex w = ((True, None), w')"
proof -
  have q: "quiet ops (w_clock w)" using h by (simp add: healthy_def quiet_def)
  obtain tp w1 where st: "stageReplacement ops c t data md w = (Inr tp, w1)"
    using healthy_stage [OF h r l] by blast
  obtain j where tp: "tp \<noteq> t" "names (w_fs w) tp = None" and d1: "during (grown (w_fs w) tp) w w1"
    and ti: "temp_at (w_fs w) tp j (w_fs w1)" and nd: "inodes (w_fs w1) j = new_inode ops data md"
    using stage_spec [OF st q] by (metis sum.distinct(1) sum.inject(2))
  note g = temp_at_grown [OF ti]
  have v: "view (w_fs w1) t = view (w_fs w) t" using grown_view(1) [OF g ok] tp(1) by simp
  have "matches (w_fs w1) t ex" using m matches_view [OF v] by simp
  from healthy_matches [OF h this] obtain w2 where rs: "requireSnapshot ops t ex w1 = (None, w2)"
    "w_fs w2 = w_fs w1" by blast
  have nt: "names (w_fs w2) tp = Some j" using ti rs(2) by (simp add: temp_at_def)
  have nodir: "\<not> (case names (w_fs w2) t of None \<Rightarrow> False | Some j \<Rightarrow> i_mode (inodes (w_fs w2) j) AND ModeDir \<noteq> 0)"
    using ns rs(2) regular_not_symlink(2) v
    by (auto simp: not_symlink_def view_def split: option.splits)
  define w3 where "w3 = step_to ((w_fs w2)\<lparr>names := (names (w_fs w2))(t \<mapsto> j, tp := None)\<rparr>) w2"
  have rn: "Rename ops tp t w2 = (None, w3)"
    using nt nodir tp(1) by (simp add: Rename_def healthy_syscall [OF h] err_of_def w3_def)
  have "view (w_fs w) (Dir t) \<noteq> None" using r by (auto simp: room_def)
  then have "Dir t \<noteq> tp" using tp(2) by (auto simp: view_def)
  moreover have "names (w_fs w2) (Dir t) \<noteq> None"
    using \<open>Dir t \<noteq> tp\<close> g rs(2) \<open>view (w_fs w) (Dir t) \<noteq> None\<close> by (auto simp: grown_def view_def)
  ultimately have "names (w_fs w3) (Dir t) \<noteq> None" by (auto simp: w3_def)
  then obtain i where "names (w_fs w3) (Dir t) = Some i" by blast
  then have "\<exists>w4. syncParentDirectory ops c (Dir t) w3 = (None, w4) \<and> inodes (w_fs w4) = inodes (w_fs w3) \<and>
      names (w_fs w4) = names (w_fs w3)"
    by (simp add: syncParentDirectory_def healthy_ctx [OF h] OpenDir_def SyncDir_def healthy_syscall [OF h]
        healthy_Close [OF h] err_of_def)
  then obtain w4 where sp: "syncParentDirectory ops c (Dir t) w3 = (None, w4)"
    "inodes (w_fs w4) = inodes (w_fs w3)" "names (w_fs w4) = names (w_fs w3)" by blast
  have "view (w_fs w4) t = Some (new_inode ops data md)"
    using sp(2,3) nd rs(2) tp(1) by (simp add: view_def w3_def)
  from healthy_readOptional(2) [OF h this] have "\<exists>w5. validateReplacement ops c t data w4 = (None, w5)"
    by (simp add: validateReplacement_def healthy_ctx [OF h] readRegularFile_def)
  then obtain w5 where va: "validateReplacement ops c t data w4 = (None, w5)" by blast
  show ?thesis
    by (simp add: replaceFileIfUnchanged_def replaceFileWithExpectation_def st commitReplacement_def
        checkExpected_def healthy_ctx [OF h] rs(1) rn sp(1) va)
qed

section \<open>A target that has changed\<close>

text \<open>The same from an instant on: nothing fails and nobody else interferes any more.\<close>

definition healthy_from :: "fileOps \<Rightarrow> ctx \<Rightarrow> nat \<Rightarrow> bool" where
  "healthy_from ops c n \<longleftrightarrow> (\<forall>m\<ge>n. op_fault ops m = None \<and> op_edit ops m = id \<and> c m = None)"

lemma healthy_from_syscall:
  "healthy_from ops c n \<Longrightarrow> n \<le> w_clock w \<Longrightarrow> syscall ops act w = (case act (w_fs w) of (r, fs) \<Rightarrow> (r, step_to fs w))"
  by (simp add: syscall_def healthy_from_def step_to_def split: prod.splits)

lemma healthy_from_requireSnapshot:
  assumes h: "healthy_from ops c n" "n \<le> w_clock w" and m: "\<not> matches (w_fs w) p ex" "not_symlink (w_fs w) p"
  obtains e w' where "requireSnapshot ops p ex w = (Some e, w')" "w_fs w' = w_fs w" "n \<le> w_clock w'"
    "errors_Is e ErrConcurrentModification"
proof -
  note sc = healthy_from_syscall [OF h(1)]
  have "\<exists>e w'. requireSnapshot ops p ex w = (Some e, w') \<and> w_fs w' = w_fs w \<and> n \<le> w_clock w' \<and>
      errors_Is e ErrConcurrentModification"
  proof (cases "view (w_fs w) p")
    case None
    then have "readOptionalRegularFile ops p w = (([], noMetadata, False, None), look w)"
      using h(2) by (simp add: readOptionalRegularFile_def OpenReadNoFollow_def sc view_def path_error_def)
    with m(1) None h(2) show ?thesis by (auto simp: requireSnapshot_def matches_def split: if_splits)
  next
    case (Some nd)
    with m(2) have r: "IsRegular (i_mode nd)" by (simp add: not_symlink_def)
    obtain i where i: "names (w_fs w) p = Some i" "inodes (w_fs w) i = nd" using Some by (auto simp: view_def)
    have "readOptionalRegularFile ops p w = ((i_data nd, meta_of nd, True, None), look (look (look (look w))))"
      using i h(2) r regular_not_symlink [OF r]
      by (simp add: readOptionalRegularFile_def OpenReadNoFollow_def Stat_def ReadAll_def joinReadClose_def Close_def err_of_def
          sc metadataFromInfo_def noMetadata_def meta_of_def)
    with m(1) Some r h(2) show ?thesis by (auto simp: requireSnapshot_def matches_def shows_file_def split: if_splits)
  qed
  then show thesis using that by blast
qed

lemma stage_fresh:
  assumes "stageReplacement ops c t d m w = (Inr tp, w1)"
  shows "tp \<noteq> t"
proof -
  obtain r w2 where ct: "CreateTemp ops (Dir t) (''.'' @ Base t @ ''.tmp-*'') w = (r, w2)" by fastforce
  with assms obtain f where f: "r = Inr f" "tp = Name f"
    by (auto simp: stageReplacement_def Let_def split: option.splits sum.splits prod.splits)
  have sep: "SEP \<notin> set (''.'' @ Base t @ ''.tmp-*'')" using ct f(1) by (auto simp: CreateTemp_def)
  have "Name f = joinPath (Dir t) (temp_name (''.'' @ Base t @ ''.tmp-*'') (op_rand ops (w_clock w)))"
    using ct f(1) unfolding CreateTemp_def if_not_P [OF sep] syscall_def Let_def
    by (auto split: option.splits if_splits prod.splits)
  then show ?thesis using temp_path_fresh [OF sep] f(2) by simp
qed

text \<open>Removing another name leaves what a path shows alone.\<close>

lemma Remove_other:
  assumes "Remove ops tp w = (e, w')" and "quiet ops (w_clock w)" and "tp \<noteq> t"
  shows "during (\<lambda>fs. view fs t = view (w_fs w) t \<and> disk fs t = disk (w_fs w) t) w w'"
proof -
  obtain r where r: "syscall ops (\<lambda>fs. case names fs tp of
        None \<Rightarrow> (Inl (path_error ''remove'' tp (Sentinel ErrNotExist)), fs)
      | Some i \<Rightarrow> (Inr (), fs\<lparr>names := (names fs)(tp := None)\<rparr>)) w = (r, w')"
    using assms(1) by (auto simp: Remove_def split: prod.splits)
  show ?thesis
    by (rule syscall_during [OF r assms(2)]) (use assms(3) in \<open>auto simp: view_def disk_def split: option.splits\<close>)
qed

lemma refused_after_staging:
  assumes run: "replaceFileIfUnchanged ops c t d m ex w = ((renamed, e), w')"
    and st: "stageReplacement ops c t d m w = (r, w1)"
    and q: "quiet ops (w_clock w1)" and "honest ops" and no: "\<not> matches (w_fs w1) t ex"
  shows "\<not> renamed" and "e \<noteq> None"
    and "during (\<lambda>fs. view fs t = view (w_fs w1) t \<and> disk fs t = disk (w_fs w1) t) w1 w'"
proof -
  let ?P = "\<lambda>fs. view fs t = view (w_fs w1) t \<and> disk fs t = disk (w_fs w1) t"
  have "\<not> renamed \<and> e \<noteq> None \<and> during ?P w1 w'"
  proof (cases r)
    case (Inl x)
    with run st show ?thesis
      by (auto simp: replaceFileIfUnchanged_def replaceFileWithExpectation_def intro: during_refl)
  next
    case (Inr tp)
    have tp: "tp \<noteq> t" using stage_fresh st Inr by blast
    obtain x w2 where ce: "checkExpected ops c t (Some ex) w1 = (x, w2)" by fastforce
    have l: "looking w1 w2"
      using ce requireSnapshot_spec(1) [OF _ q] by (auto simp: checkExpected_def intro: during_refl split: option.splits)
    obtain y where x: "x = Some y"
    proof (cases x)
      case None
      with ce have "requireSnapshot ops t ex w1 = (None, w2)" by (auto simp: checkExpected_def split: option.splits)
      from requireSnapshot_spec(2) [OF this q refl assms(4)] no show thesis by contradiction
    qed (rule that)
    obtain z w3 where rm: "Remove ops tp w2 = (z, w3)" by fastforce
    have "commitCleanup ops tp y w2 = ((renamed, e), w')"
      using run by (simp add: replaceFileIfUnchanged_def replaceFileWithExpectation_def commitReplacement_def st [unfolded Inr] ce [unfolded x])
    then have w3: "w3 = w'" "\<not> renamed" "e \<noteq> None" using rm by (auto simp: commitCleanup_def split: option.splits)
    have "during ?P w1 w2" using l by (rule looking_during) simp
    moreover have "during ?P w2 w3" using Remove_other [OF rm during_quiet [OF q l] tp] looking_fs [OF l] by simp
    ultimately have "during ?P w1 w3" by (rule during_trans)
    with w3 show ?thesis by simp
  qed
  then show "\<not> renamed" "e \<noteq> None" "during ?P w1 w'" by auto
qed

lemma conflict_error:
  assumes run: "replaceFileIfUnchanged ops c t d m ex w = ((renamed, e), w')"
    and st: "stageReplacement ops c t d m w = (Inr tp, w1)" and h: "healthy_from ops c (w_clock w1)"
    and no: "\<not> matches (w_fs w1) t ex" and s: "not_symlink (w_fs w1) t"
  shows "\<exists>x. e = Some x \<and> errors_Is x ErrConcurrentModification" and "view (w_fs w') tp = None"
proof -
  obtain y w2 where rs: "requireSnapshot ops t ex w1 = (Some y, w2)" "w_fs w2 = w_fs w1" "w_clock w1 \<le> w_clock w2"
    "errors_Is y ErrConcurrentModification"
    by (rule healthy_from_requireSnapshot [OF h order_refl no s])
  obtain z w3 where rm: "Remove ops tp w2 = (z, w3)" by fastforce
  have c: "checkContext c p w1 = None" for p using h by (simp add: checkContext_def healthy_from_def)
  have "w' = w3" "e = Some (case z of None \<Rightarrow> y
      | Some z \<Rightarrow> Joined [y, Wrapf [Lit ''remove temporary file '', Quoted tp, Lit '': ''] z []])"
    using run st rs(1) rm c
    by (auto simp: replaceFileIfUnchanged_def replaceFileWithExpectation_def commitReplacement_def checkExpected_def commitCleanup_def
        split: option.splits)
  moreover have "view (w_fs w3) tp = None"
    using rm rs(3) by (auto simp: Remove_def healthy_from_syscall [OF h] err_of_def view_def split: option.splits)
  ultimately show "\<exists>x. e = Some x \<and> errors_Is x ErrConcurrentModification" "view (w_fs w') tp = None"
    using rs(4) by (auto split: option.splits)
qed

end
