(* ===== verification/Net_Addr.thy ===== *)
theory Net_Addr
  imports Go_Text
begin

text \<open>
  Go's \<open>net/netip.Addr\<close> as far as the program uses it: the zero address, IPv4 addresses and
  IPv6 addresses with an optional zone; \<open>IsValid\<close>, \<open>Is4\<close>, \<open>Is6\<close>, the order
  \<open>Compare\<close> and the text \<open>String\<close> (RFC 5952: lower case, the first longest run of zero
  groups compressed, IPv4-mapped addresses dotted). The lemmas say which bytes the text can hold
  and that \<open>Compare\<close> is a total order.
\<close>

datatype addr = AddrZero | V4 "32 word" | V6 "128 word" string

definition IsValid :: "addr \<Rightarrow> bool" where
  "IsValid ip \<longleftrightarrow> ip \<noteq> AddrZero"

fun Is4 :: "addr \<Rightarrow> bool" where
  "Is4 (V4 w) = True"
| "Is4 _ = False"

fun Is6 :: "addr \<Rightarrow> bool" where
  "Is6 (V6 w z) = True"
| "Is6 _ = False"

fun Zone :: "addr \<Rightarrow> string" where
  "Zone (V6 w z) = z"
| "Zone _ = []"

section \<open>Order\<close>

text \<open>\<open>cmp.Compare\<close> on strings and on unsigned integers, and \<open>cmp.Or\<close>.\<close>

definition cmp_Compare :: "'a::linorder \<Rightarrow> 'a \<Rightarrow> int" where
  "cmp_Compare a b = (if a < b then -1 else if b < a then 1 else 0)"

fun cmp_Or :: "int list \<Rightarrow> int" where
  "cmp_Or [] = 0"
| "cmp_Or (x # xs) = (if x \<noteq> 0 then x else cmp_Or xs)"

fun BitLen :: "addr \<Rightarrow> nat" where
  "BitLen AddrZero = 0"
| "BitLen (V4 w) = 32"
| "BitLen (V6 w z) = 128"

fun addr_bits :: "addr \<Rightarrow> nat" where
  "addr_bits AddrZero = 0"
| "addr_bits (V4 w) = unat w"
| "addr_bits (V6 w z) = unat w"

definition addr_Compare :: "addr \<Rightarrow> addr \<Rightarrow> int" where
  "addr_Compare a b =
     (if BitLen a < BitLen b then -1
      else if BitLen b < BitLen a then 1
      else if addr_bits a < addr_bits b then -1
      else if addr_bits b < addr_bits a then 1
      else if Is6 a then cmp_Compare (Zone a) (Zone b)
      else 0)"

text \<open>A comparison that orders by a key.\<close>

definition weak_order :: "('a \<Rightarrow> 'a \<Rightarrow> int) \<Rightarrow> bool" where
  "weak_order c \<longleftrightarrow>
     (\<forall>a b. c a b < 0 \<longleftrightarrow> 0 < c b a) \<and> (\<forall>a b d. c a b \<le> 0 \<longrightarrow> c b d \<le> 0 \<longrightarrow> c a d \<le> 0)"

lemma cmp_Compare_iff [simp]:
  "cmp_Compare a b < 0 \<longleftrightarrow> a < b" "0 < cmp_Compare a b \<longleftrightarrow> b < a"
  "cmp_Compare a b \<le> 0 \<longleftrightarrow> a \<le> b" "cmp_Compare a b = 0 \<longleftrightarrow> a = b"
  by (auto simp: cmp_Compare_def)

lemma weak_orderD:
  assumes "weak_order c"
  shows "c a b < 0 \<longleftrightarrow> 0 < c b a" and "c a b \<le> 0 \<Longrightarrow> c b d \<le> 0 \<Longrightarrow> c a d \<le> 0"
  using assms unfolding weak_order_def by blast+

lemma weak_order_total: "weak_order c \<Longrightarrow> c a b \<le> 0 \<or> c b a \<le> 0"
  using weak_orderD(1) [of c b a] by linarith

lemma weak_order_0: "weak_order c \<Longrightarrow> c a b = 0 \<longleftrightarrow> c a b \<le> 0 \<and> c b a \<le> 0"
  using weak_orderD(1) [of c a b] weak_orderD(1) [of c b a] by linarith

lemma weak_order_lex:
  assumes "weak_order c" "weak_order d"
  shows "weak_order (\<lambda>a b. if c a b \<noteq> 0 then c a b else d a b)"
proof -
  have c0: "c a b = 0 \<longleftrightarrow> c b a = 0" for a b
    using weak_order_0 [OF assms(1)] by metis
  show ?thesis
    unfolding weak_order_def
  proof (intro conjI allI impI)
    fix a b
    show "((if c a b \<noteq> 0 then c a b else d a b) < 0) = (0 < (if c b a \<noteq> 0 then c b a else d b a))"
      using assms c0 [of a b] by (auto simp: weak_order_def)
  next
    fix a b x
    let ?e = "\<lambda>a b. if c a b \<noteq> 0 then c a b else d a b"
    assume 1: "?e a b \<le> 0" and 2: "?e b x \<le> 0"
    then have le: "c a b \<le> 0" "c b x \<le> 0" by (auto split: if_splits)
    then have ax: "c a x \<le> 0" using assms(1) unfolding weak_order_def by blast
    show "?e a x \<le> 0"
    proof (cases "c a x = 0")
      case True
      then have "c x a \<le> 0" using c0 by (metis order_refl)
      then have "c x b \<le> 0" "c b a \<le> 0" using le assms(1) unfolding weak_order_def by blast+
      then have "c a b = 0" "c b x = 0" using le weak_order_0 [OF assms(1)] by blast+
      with 1 2 True assms(2) show ?thesis unfolding weak_order_def by auto
    qed (use ax in simp)
  qed
qed

lemma weak_order_key: "weak_order c \<Longrightarrow> weak_order (\<lambda>a b. c (f a) (f b))"
  unfolding weak_order_def by blast

lemma weak_order_cmp_Compare: "weak_order cmp_Compare"
  by (auto simp: weak_order_def)

definition addr_key :: "addr \<Rightarrow> nat \<times> nat \<times> string" where
  "addr_key a = (BitLen a, addr_bits a, Zone a)"

lemma addr_Compare_key:
  "addr_Compare a b = cmp_Or [cmp_Compare (BitLen a) (BitLen b), cmp_Compare (addr_bits a) (addr_bits b),
     cmp_Compare (Zone a) (Zone b)]"
  by (cases a; cases b) (auto simp: addr_Compare_def cmp_Compare_def)

lemma cmp_Or_2: "cmp_Or (x # xs) = (if x \<noteq> 0 then x else cmp_Or xs)" by simp

lemma weak_order_addr_Compare: "weak_order addr_Compare"
proof -
  note l = weak_order_lex and k = weak_order_key [OF weak_order_cmp_Compare]
  have "weak_order (\<lambda>a b. if cmp_Compare (BitLen a) (BitLen b) \<noteq> 0 then cmp_Compare (BitLen a) (BitLen b)
      else if cmp_Compare (addr_bits a) (addr_bits b) \<noteq> 0 then cmp_Compare (addr_bits a) (addr_bits b)
      else cmp_Compare (Zone a) (Zone b))"
    by (intro l k)
  moreover have "addr_Compare = (\<lambda>a b. if cmp_Compare (BitLen a) (BitLen b) \<noteq> 0 then cmp_Compare (BitLen a) (BitLen b)
      else if cmp_Compare (addr_bits a) (addr_bits b) \<noteq> 0 then cmp_Compare (addr_bits a) (addr_bits b)
      else cmp_Compare (Zone a) (Zone b))"
    by (auto simp: addr_Compare_key fun_eq_iff)
  ultimately show ?thesis by simp
qed

lemma addr_Compare_0_iff: "addr_Compare a b = 0 \<longleftrightarrow> a = b"
  by (cases a; cases b) (auto simp: addr_Compare_key word_unat_eq_iff)

lemma addr_Compare_refl [simp]: "addr_Compare a a = 0"
  by (simp add: addr_Compare_0_iff)

text \<open>So addresses are a linear order of the library.\<close>

instantiation addr :: linorder
begin

definition "a \<le> b \<longleftrightarrow> addr_Compare a b \<le> 0"
definition "a < b \<longleftrightarrow> addr_Compare a b < 0"

instance
proof
  fix a b c :: addr
  note ord = weak_orderD [OF weak_order_addr_Compare] weak_order_0 [OF weak_order_addr_Compare]
  show "a < b \<longleftrightarrow> a \<le> b \<and> \<not> b \<le> a"
    using ord(1) [of a b] ord(1) [of b a] by (auto simp: less_eq_addr_def less_addr_def)
  show "a \<le> a" by (simp add: less_eq_addr_def)
  show "a \<le> b \<Longrightarrow> b \<le> c \<Longrightarrow> a \<le> c" unfolding less_eq_addr_def by (rule ord(2))
  show "a \<le> b \<Longrightarrow> b \<le> a \<Longrightarrow> a = b" using ord(3) [of a b] by (simp add: less_eq_addr_def addr_Compare_0_iff)
  show "a \<le> b \<or> b \<le> a" using ord(1) [of a b] ord(1) [of b a] by (auto simp: less_eq_addr_def)
qed

end

section \<open>Text\<close>

fun hex_nat :: "nat \<Rightarrow> string" where
  "hex_nat n =
     (if n < 16 then [''0123456789abcdef'' ! n] else hex_nat (n div 16) @ [''0123456789abcdef'' ! (n mod 16)])"

declare hex_nat.simps [simp del]

definition octet :: "nat \<Rightarrow> nat \<Rightarrow> nat" where
  "octet n i = n div 256 ^ i mod 256"

definition string4 :: "nat \<Rightarrow> string" where
  "string4 n = Join (map (\<lambda>i. dec_nat (octet n i)) [3, 2, 1, 0]) ''.''"

definition v6_groups :: "nat \<Rightarrow> nat list" where
  "v6_groups n = map (\<lambda>i. n div 65536 ^ i mod 65536) [7, 6, 5, 4, 3, 2, 1, 0]"

text \<open>The first longest run of at least two zero groups, as the loop of \<open>appendTo6\<close> finds it.\<close>

definition zero_run :: "nat list \<Rightarrow> (nat \<times> nat) option" where
  "zero_run gs =
     foldl (\<lambda>best i.
         let l = length (takeWhile (\<lambda>g. g = 0) (drop i gs))
         in if 2 \<le> l \<and> (case best of None \<Rightarrow> True | Some (s, e) \<Rightarrow> e - s < l) then Some (i, i + l) else best)
       None [0..<length gs]"

definition string6 :: "nat \<Rightarrow> string" where
  "string6 n =
     (let gs = v6_groups n in
      case zero_run gs of
        None \<Rightarrow> Join (map hex_nat gs) '':''
      | Some (s, e) \<Rightarrow> Join (map hex_nat (take s gs)) '':'' @ ''::'' @ Join (map hex_nat (drop e gs)) '':'')"

definition zone_text :: "string \<Rightarrow> string" where
  "zone_text z = (if z = [] then [] else CHR ''%'' # z)"

fun addr_String :: "addr \<Rightarrow> string" where
  "addr_String AddrZero = ''invalid IP''"
| "addr_String (V4 w) = string4 (unat w)"
| "addr_String (V6 w z) =
     (if unat w div 2 ^ 32 = 65535 then ''::ffff:'' @ string4 (unat w mod 2 ^ 32) @ zone_text z
      else string6 (unat w) @ zone_text z)"

text \<open>
  The bytes of an address: digits, lower-case hexadecimal letters, dots and colons, and after a
  percent sign whatever the zone holds.
\<close>

definition addr_byte :: "char \<Rightarrow> bool" where
  "addr_byte c \<longleftrightarrow> (48 \<le> byte c \<and> byte c \<le> 58) \<or> (97 \<le> byte c \<and> byte c \<le> 102) \<or>
     byte c = 46 \<or> byte c = 37"

lemma digit_addr_byte: "48 \<le> byte c \<Longrightarrow> byte c \<le> 57 \<Longrightarrow> addr_byte c"
  by (simp add: addr_byte_def)

lemma addr_byte_consts [simp]:
  "addr_byte (CHR ''.'')" "addr_byte (CHR '':'')" "addr_byte (CHR ''%'')" "addr_byte (CHR ''f'')"
  by (simp_all add: addr_byte_def)

lemma hex_nat_not_Nil [simp]: "hex_nat n \<noteq> []"
  by (subst hex_nat.simps) simp

lemma hex_nat_bytes: "c \<in> set (hex_nat n) \<Longrightarrow> addr_byte c"
proof (induction n rule: hex_nat.induct)
  case (1 n)
  have d: "addr_byte (''0123456789abcdef'' ! k)" if "k < 16" for k
  proof -
    have "''0123456789abcdef'' ! k \<in> set ''0123456789abcdef''" by (rule nth_mem) (use that in simp)
    moreover have "\<forall>c\<in>set ''0123456789abcdef''. addr_byte c" by (simp add: addr_byte_def)
    ultimately show ?thesis by blast
  qed
  show ?case
  proof (cases "n < 16")
    case True
    with 1 d show ?thesis by (auto simp: hex_nat.simps [of n])
  next
    case False
    with 1 d [of "n mod 16"] show ?thesis by (auto simp: hex_nat.simps [of n])
  qed
qed

lemma Join_bytes:
  assumes "c \<in> set (Join ws sep)" "\<And>w c. w \<in> set ws \<Longrightarrow> c \<in> set w \<Longrightarrow> P c" "\<And>c. c \<in> set sep \<Longrightarrow> P c"
  shows "P c"
  using set_Join [of ws sep] assms by auto

lemma Join_not_Nil: "ws \<noteq> [] \<Longrightarrow> hd ws \<noteq> [] \<Longrightarrow> Join ws sep \<noteq> []"
  by (cases "(ws, sep)" rule: Join.cases) auto

lemma string4_bytes:
  assumes "c \<in> set (string4 n)"
  shows "addr_byte c"
  using assms unfolding string4_def
proof (rule Join_bytes)
  fix w c
  assume "w \<in> set (map (\<lambda>i. dec_nat (octet n i)) [3, 2, 1, 0])" "c \<in> set w"
  then obtain k where "c \<in> set (dec_nat k)" by auto
  then show "addr_byte c" using dec_nat_digits digit_addr_byte by blast
qed simp

lemma hex_groups_bytes:
  assumes "c \<in> set (Join (map hex_nat gs) '':'')"
  shows "addr_byte c"
  using assms by (rule Join_bytes) (auto dest: hex_nat_bytes)

lemma string6_bytes: "c \<in> set (string6 n) \<Longrightarrow> addr_byte c"
  by (auto simp: string6_def Let_def split: option.splits dest: hex_groups_bytes)

lemma addr_String_bytes:
  assumes "IsValid a" "c \<in> set (addr_String a)"
  shows "addr_byte c \<or> c \<in> set (Zone a)"
proof (cases a)
  case (V6 w z)
  show ?thesis
  proof (cases "unat w div 2 ^ 32 = 65535")
    case True
    with assms(2) V6 have "c \<in> set ''::ffff:'' \<or> c \<in> set (string4 (unat w mod 2 ^ 32)) \<or> c \<in> set (zone_text z)"
      by (simp del: set_simps) auto
    with V6 show ?thesis by (auto simp: zone_text_def dest: string4_bytes split: if_splits)
  next
    case False
    with assms(2) V6 have "c \<in> set (string6 (unat w)) \<or> c \<in> set (zone_text z)" by simp
    with V6 show ?thesis by (auto simp: zone_text_def dest: string6_bytes split: if_splits)
  qed
qed (use assms string4_bytes in \<open>auto simp: IsValid_def\<close>)

lemma string4_not_Nil [simp]: "string4 n \<noteq> []"
  by (simp add: string4_def)

lemma string6_not_Nil [simp]: "string6 n \<noteq> []"
proof (cases "zero_run (v6_groups n)")
  case None
  have "Join (map hex_nat (v6_groups n)) '':'' \<noteq> []"
    by (rule Join_not_Nil) (simp_all add: v6_groups_def)
  with None show ?thesis by (simp add: string6_def)
qed (simp add: string6_def Let_def split: prod.splits)

lemma addr_String_not_Nil [simp]: "addr_String a \<noteq> []"
  by (cases a) auto

end
