(* ===== verification/Markers.thy ===== *)
theory Markers
  imports Go_Text
begin

text \<open>
  The managed section of the hosts file (\<open>hosts/markers.go\<close>): \<open>locateMarkers\<close> scans the
  file by byte offsets for one ordered pair of marker lines, \<open>replaceManagedSection\<close> replaces
  the bytes between them. The scan is proved equal to a reading of the file line by line; from that
  follow an exact characterisation of its three outcomes and the lens laws of the managed section,
  stated as the locale \<open>section_lens\<close>.
\<close>

section \<open>The operations\<close>

abbreviation NL :: char where "NL \<equiv> CHR 0x0A"
abbreviation CR :: char where "CR \<equiv> CHR 0x0D"

datatype markerState = NoMarkers | ValidMarkers

record markerSection =
  beginStart :: nat
  beginEnd :: nat
  endStart :: nat
  endEnd :: nat

definition no_section :: markerSection where
  "no_section = \<lparr>beginStart = 0, beginEnd = 0, endStart = 0, endEnd = 0\<rparr>"

text \<open>The loop of \<open>locateMarkers\<close>, from the offset \<open>lineStart\<close> on.\<close>

function locateLoop ::
  "string \<Rightarrow> string \<Rightarrow> string \<Rightarrow> nat \<Rightarrow> markerSection \<Rightarrow> bool \<Rightarrow> bool \<Rightarrow>
     go_error + (markerSection \<times> bool \<times> bool)" where
  "locateLoop data beginMarker endMarker lineStart sec beginFound endFound =
     (if lineStart < length data then
        let newline = IndexByte (drop lineStart data) NL;
            lineEnd = (case newline of None \<Rightarrow> length data | Some k \<Rightarrow> lineStart + k);
            lineNext = (case newline of None \<Rightarrow> length data | Some k \<Rightarrow> lineStart + k + 1);
            line0 = take (lineEnd - lineStart) (drop lineStart data);
            line = (if 0 < length line0 \<and> line0 ! (length line0 - 1) = CR
                    then take (length line0 - 1) line0 else line0)
        in if line = beginMarker then
             (if beginFound then Inl (errors_New ''duplicate BEGIN marker'')
              else locateLoop data beginMarker endMarker lineNext
                     (sec\<lparr>beginStart := lineStart, beginEnd := lineNext\<rparr>) True endFound)
           else if line = endMarker then
             (if endFound then Inl (errors_New ''duplicate END marker'')
              else locateLoop data beginMarker endMarker lineNext
                     (sec\<lparr>endStart := lineStart, endEnd := lineNext\<rparr>) beginFound True)
           else locateLoop data beginMarker endMarker lineNext sec beginFound endFound
      else Inr (sec, beginFound, endFound))"
  by pat_completeness auto
termination
  by (relation "measure (\<lambda>(data, b, e, n, _). length data - n)")
     (auto split: option.splits dest: IndexByte_Some)

declare locateLoop.simps [simp del]

definition locateMarkers :: "string \<Rightarrow> string \<Rightarrow> string \<Rightarrow> go_error + (markerState \<times> markerSection)" where
  "locateMarkers data beginMarker endMarker =
     (case locateLoop data beginMarker endMarker 0 no_section False False of
        Inl err \<Rightarrow> Inl err
      | Inr (sec, beginFound, endFound) \<Rightarrow>
          if \<not> beginFound \<and> \<not> endFound then Inr (NoMarkers, no_section)
          else if \<not> beginFound then Inl (errors_New ''END marker without BEGIN marker'')
          else if \<not> endFound then Inl (errors_New ''BEGIN marker without END marker'')
          else if endStart sec < beginStart sec
          then Inl (errors_New ''END marker appears before BEGIN marker'')
          else Inr (ValidMarkers, sec))"

definition replaceManagedSection :: "string \<Rightarrow> markerSection \<Rightarrow> string \<Rightarrow> string" where
  "replaceManagedSection data sec body =
     take (beginEnd sec) data @ body @ drop (endStart sec) data"

section \<open>The file as lines\<close>

text \<open>
  \<open>raw_lines\<close> cuts the file after every newline and keeps every byte; \<open>logical\<close> is a
  line without its terminator (LF or CRLF), which is what the scan compares with the markers.
\<close>

fun raw_lines :: "string \<Rightarrow> string list" where
  "raw_lines [] = []"
| "raw_lines (c # cs) =
     (if c = NL then [c] # raw_lines cs
      else case raw_lines cs of [] \<Rightarrow> [[c]] | l # ls \<Rightarrow> (c # l) # ls)"

definition chop_cr :: "string \<Rightarrow> string" where
  "chop_cr l = (if l \<noteq> [] \<and> last l = CR then butlast l else l)"

definition logical :: "string \<Rightarrow> string" where
  "logical l = chop_cr (if l \<noteq> [] \<and> last l = NL then butlast l else l)"

definition terminated :: "string \<Rightarrow> bool" where
  "terminated s \<longleftrightarrow> s = [] \<or> last s = NL"

lemma concat_raw_lines [simp]: "concat (raw_lines s) = s"
  by (induction s) (auto split: list.splits)

lemma raw_lines_eq_Nil [simp]: "raw_lines s = [] \<longleftrightarrow> s = []"
  by (metis concat.simps(1) concat_raw_lines raw_lines.simps(1))

lemma raw_lines_line: "NL \<notin> set l \<Longrightarrow> raw_lines (l @ NL # rest) = (l @ [NL]) # raw_lines rest"
  by (induction l) auto

lemma raw_lines_no_newline: "NL \<notin> set l \<Longrightarrow> l \<noteq> [] \<Longrightarrow> raw_lines l = [l]"
proof (induction l)
  case (Cons c l)
  then show ?case by (cases "l = []") auto
qed simp

text \<open>The first line and the rest.\<close>

lemma raw_lines_Cons_iff:
  "raw_lines s = l # ls \<longleftrightarrow>
     (\<exists>r. s = l @ r \<and> raw_lines r = ls \<and> l \<noteq> [] \<and> NL \<notin> set (butlast l) \<and> (last l = NL \<or> r = []))"
  (is "?L s l ls \<longleftrightarrow> ?R s l ls")
proof
  show "?L s l ls \<Longrightarrow> ?R s l ls"
  proof (induction s arbitrary: l ls)
    case (Cons c s)
    show ?case
    proof (cases "c = NL")
      case True
      with Cons.prems show ?thesis by auto
    next
      case False
      show ?thesis
      proof (cases "raw_lines s")
        case Nil
        with Cons.prems False show ?thesis by auto
      next
        case (Cons m ms)
        from Cons.IH [OF Cons] obtain r where
          "s = m @ r" "raw_lines r = ms" "m \<noteq> []" "NL \<notin> set (butlast m)" "last m = NL \<or> r = []"
          by blast
        moreover have "l = c # m" "ls = ms" using Cons Cons.prems False by auto
        ultimately show ?thesis using False by auto
      qed
    qed
  qed simp
next
  assume "?R s l ls"
  then obtain r where r: "s = l @ r" "raw_lines r = ls" "l \<noteq> []" "NL \<notin> set (butlast l)"
    "last l = NL \<or> r = []" by blast
  show "?L s l ls"
  proof (cases "last l = NL")
    case True
    with r have "s = butlast l @ NL # r" by (metis append_butlast_last_id append.assoc append_Cons append_Nil)
    with r True show ?thesis using raw_lines_line [of "butlast l" r] by (metis append_butlast_last_id)
  next
    case False
    with r have "NL \<notin> set l" by (metis append_butlast_last_id in_set_conv_decomp rotate1.simps(2) set_ConsD set_rotate1)
    with r False show ?thesis using raw_lines_no_newline by auto
  qed
qed

lemma raw_lines_append:
  "terminated x \<Longrightarrow> raw_lines (x @ y) = raw_lines x @ raw_lines y"
proof (induction x)
  case (Cons c x)
  show ?case
  proof (cases "x = []")
    case True
    with Cons.prems show ?thesis by (simp add: terminated_def)
  next
    case False
    with Cons.prems have "terminated x" by (simp add: terminated_def)
    with Cons.IH have IH: "raw_lines (x @ y) = raw_lines x @ raw_lines y" by simp
    obtain l ls where "raw_lines x = l # ls" using False by (cases "raw_lines x") auto
    with IH show ?thesis by simp
  qed
qed simp

text \<open>Every line but the last one is terminated.\<close>

lemma raw_lines_not_last: "raw_lines s = xs @ l # ys \<Longrightarrow> ys \<noteq> [] \<Longrightarrow> l \<noteq> [] \<and> last l = NL"
proof (induction s arbitrary: xs l ys)
  case (Cons c s)
  show ?case
  proof (cases "c = NL")
    case True
    with Cons show ?thesis by (cases xs) auto
  next
    case False
    show ?thesis
    proof (cases "raw_lines s")
      case Nil
      with Cons.prems False show ?thesis by (cases xs) auto
    next
      case (Cons m ms)
      with Cons.prems False have eq: "(c # m) # ms = xs @ l # ys" by simp
      show ?thesis
      proof (cases xs)
        case Nil
        with eq have "l = c # m" "ms = ys" by auto
        with Cons.IH [of "[]" m ys] Cons.prems \<open>raw_lines s = m # ms\<close> show ?thesis by simp
      next
        case (Cons x xs')
        with eq have "raw_lines s = (m # xs') @ l # ys" using \<open>raw_lines s = m # ms\<close> by simp
        with Cons.IH Cons.prems(2) show ?thesis by blast
      qed
    qed
  qed
qed simp

lemma raw_lines_prefix_terminated:
  assumes "raw_lines s = xs @ l # ys"
  shows "terminated (concat xs)"
proof (cases xs rule: rev_exhaust)
  case (snoc zs z)
  with assms have "raw_lines s = zs @ z # (l # ys)" by simp
  then have "z \<noteq> [] \<and> last z = NL" by (rule raw_lines_not_last) simp
  with snoc show ?thesis by (simp add: terminated_def)
qed (simp add: terminated_def)

lemma raw_lines_split:
  "raw_lines s = xs @ ys \<Longrightarrow> raw_lines (concat xs) = xs \<and> raw_lines (concat ys) = ys"
proof (induction xs arbitrary: s)
  case Nil
  then show ?case by (metis append_Nil concat.simps(1) concat_raw_lines raw_lines.simps(1))
next
  case (Cons x xs)
  then obtain r where r: "s = x @ r" "raw_lines r = xs @ ys" "x \<noteq> []" "NL \<notin> set (butlast x)"
    "last x = NL \<or> r = []" by (auto simp: raw_lines_Cons_iff)
  from Cons.IH [OF r(2)] have IH: "raw_lines (concat xs) = xs" "raw_lines (concat ys) = ys" by auto
  have "r = concat xs @ concat ys" by (metis r(2) concat_append concat_raw_lines)
  with r have "last x = NL \<or> concat xs = []" by auto
  with r IH show ?case by (auto simp: raw_lines_Cons_iff)
qed

section \<open>The scan, line by line\<close>

fun scan :: "string \<Rightarrow> string \<Rightarrow> nat \<Rightarrow> string list \<Rightarrow> markerSection \<Rightarrow> bool \<Rightarrow> bool \<Rightarrow>
     go_error + (markerSection \<times> bool \<times> bool)" where
  "scan b e off [] sec bf ef = Inr (sec, bf, ef)"
| "scan b e off (l # ls) sec bf ef =
     (let next_off = off + length l in
      if logical l = b then
        (if bf then Inl (errors_New ''duplicate BEGIN marker'')
         else scan b e next_off ls (sec\<lparr>beginStart := off, beginEnd := next_off\<rparr>) True ef)
      else if logical l = e then
        (if ef then Inl (errors_New ''duplicate END marker'')
         else scan b e next_off ls (sec\<lparr>endStart := off, endEnd := next_off\<rparr>) bf True)
      else scan b e next_off ls sec bf ef)"

lemma chop_cr_alt:
  "(if 0 < length l \<and> l ! (length l - 1) = CR then take (length l - 1) l else l) = chop_cr l"
  by (auto simp: chop_cr_def last_conv_nth butlast_conv_take)

text \<open>What one iteration of the loop reads: the next line of the rest of the file.\<close>

lemma next_line:
  assumes "n < length data"
  defines "nl \<equiv> IndexByte (drop n data) NL"
  defines "stop \<equiv> (case nl of None \<Rightarrow> length data | Some k \<Rightarrow> n + k)"
  defines "nxt \<equiv> (case nl of None \<Rightarrow> length data | Some k \<Rightarrow> n + k + 1)"
  obtains l where "raw_lines (drop n data) = l # raw_lines (drop nxt data)"
    and "nxt = n + length l" and "logical l = chop_cr (take (stop - n) (drop n data))"
proof (cases nl)
  case None
  then have no: "NL \<notin> set (drop n data)" by (simp add: nl_def IndexByte_None_iff)
  have ne: "drop n data \<noteq> []" using assms by simp
  have "last (drop n data) \<noteq> NL" using no ne by (metis last_in_set)
  then have "logical (drop n data) = chop_cr (drop n data)" by (simp add: logical_def)
  moreover have "raw_lines (drop n data) = [drop n data]" using no ne by (rule raw_lines_no_newline)
  ultimately show ?thesis using that None assms by (simp add: nxt_def stop_def)
next
  case (Some k)
  let ?s = "drop n data"
  let ?l = "take k ?s"
  from Some have k: "k < length ?s" "?s ! k = NL" "NL \<notin> set ?l"
    using IndexByte_Some [of ?s NL k] by (auto simp: nl_def)
  then have s: "?s = ?l @ NL # drop (Suc k) ?s" by (metis id_take_nth_drop)
  then have "raw_lines ?s = (?l @ [NL]) # raw_lines (drop (Suc k) ?s)"
    using raw_lines_line [OF k(3)] by metis
  moreover have "drop (Suc k) ?s = drop (n + k + 1) data" by (simp add: add.commute)
  moreover have "logical (?l @ [NL]) = chop_cr ?l" by (simp add: logical_def)
  ultimately show ?thesis using that [of "?l @ [NL]"] Some k by (simp add: nxt_def stop_def)
qed

lemma locateLoop_scan:
  "locateLoop data b e n sec bf ef = scan b e n (raw_lines (drop n data)) sec bf ef"
proof (induction data b e n sec bf ef rule: locateLoop.induct)
  case (1 data b e n sec bf ef)
  show ?case
  proof (cases "n < length data")
    case False
    then show ?thesis by (simp add: locateLoop.simps)
  next
    case True
    obtain l where l: "raw_lines (drop n data) = l # raw_lines
          (drop (case IndexByte (drop n data) NL of None \<Rightarrow> length data | Some k \<Rightarrow> n + k + 1) data)"
      "(case IndexByte (drop n data) NL of None \<Rightarrow> length data | Some k \<Rightarrow> n + k + 1) = n + length l"
      "logical l = chop_cr (take ((case IndexByte (drop n data) NL of
           None \<Rightarrow> length data | Some k \<Rightarrow> n + k) - n) (drop n data))"
      using next_line [OF True] by blast
    note IH = "1.IH" [OF True refl refl refl refl refl, unfolded chop_cr_alt, folded l(3), unfolded l(2)]
    show ?thesis
      unfolding locateLoop.simps [of data b e n] Let_def chop_cr_alt
      unfolding l(3) [symmetric] l(2) l(1)
      using True IH by (auto simp: Let_def)
  qed
qed

definition unmarked :: "string \<Rightarrow> string \<Rightarrow> string list \<Rightarrow> bool" where
  "unmarked b e ls \<longleftrightarrow> (\<forall>l\<in>set ls. logical l \<noteq> b \<and> logical l \<noteq> e)"

lemma unmarked_simps [simp]:
  "unmarked b e []"
  "unmarked b e (l # ls) \<longleftrightarrow> logical l \<noteq> b \<and> logical l \<noteq> e \<and> unmarked b e ls"
  "unmarked b e (xs @ ys) \<longleftrightarrow> unmarked b e xs \<and> unmarked b e ys"
  by (auto simp: unmarked_def)

lemma scan_unmarked_append:
  "unmarked b e xs \<Longrightarrow>
     scan b e off (xs @ ys) sec bf ef = scan b e (off + length (concat xs)) ys sec bf ef"
  by (induction xs arbitrary: off) (auto simp: Let_def add.assoc)

lemma scan_unmarked: "unmarked b e xs \<Longrightarrow> scan b e off xs sec bf ef = Inr (sec, bf, ef)"
  using scan_unmarked_append [of b e xs off "[]"] by simp

text \<open>
  A successful scan has seen each marker at most once, and the flags say whether it has: what it
  saw of the begin marker is one more than before exactly when the flag was raised.
\<close>

abbreviation hits :: "string \<Rightarrow> string list \<Rightarrow> nat" where
  "hits m ls \<equiv> length (filter (\<lambda>l. logical l = m) ls)"

lemma scan_counts:
  "scan b e off ls sec bf ef = Inr (sec', bf', ef') \<Longrightarrow> b \<noteq> e \<Longrightarrow>
     hits b ls + of_bool bf = of_bool bf' \<and> hits e ls + of_bool ef = of_bool ef'"
proof (induction ls arbitrary: off sec bf ef)
  case (Cons l ls)
  consider "logical l = b" | "logical l \<noteq> b" "logical l = e" | "logical l \<noteq> b" "logical l \<noteq> e"
    by blast
  then show ?case
  proof cases
    case 1
    with Cons.prems(1) have "\<not> bf" "scan b e (off + length l) ls
        (sec\<lparr>beginStart := off, beginEnd := off + length l\<rparr>) True ef = Inr (sec', bf', ef')"
      by (simp_all add: Let_def split: if_splits)
    with Cons.IH Cons.prems(2) have "hits b ls + of_bool True = of_bool bf'"
      "hits e ls + of_bool ef = of_bool ef'" by blast+
    with 1 \<open>\<not> bf\<close> Cons.prems(2) show ?thesis by simp
  next
    case 2
    with Cons.prems(1) have "\<not> ef" "scan b e (off + length l) ls
        (sec\<lparr>endStart := off, endEnd := off + length l\<rparr>) bf True = Inr (sec', bf', ef')"
      by (simp_all add: Let_def split: if_splits)
    with Cons.IH Cons.prems(2) have "hits b ls + of_bool bf = of_bool bf'"
      "hits e ls + of_bool True = of_bool ef'" by blast+
    with 2 \<open>\<not> ef\<close> show ?thesis by simp
  next
    case 3
    with Cons.prems(1) have "scan b e (off + length l) ls sec bf ef = Inr (sec', bf', ef')"
      by (simp add: Let_def)
    with Cons.IH Cons.prems(2) 3 show ?thesis by simp
  qed
qed simp

lemma hits_0: "b \<noteq> e \<Longrightarrow> hits b ls = 0 \<Longrightarrow> hits e ls = 0 \<Longrightarrow> unmarked b e ls"
  by (auto simp: unmarked_def filter_empty_conv)

lemma hits_1_split:
  assumes "hits m ls = 1"
  obtains xs l ys where "ls = xs @ l # ys" "logical l = m" "hits m xs = 0" "hits m ys = 0"
proof -
  from assms obtain l where "filter (\<lambda>l. logical l = m) ls = [l]"
    by (metis One_nat_def length_0_conv length_Suc_conv)
  then show ?thesis by (auto simp: filter_eq_Cons_iff filter_empty_conv intro!: that)
qed

section \<open>What locateMarkers finds\<close>

text \<open>The layout of a file with one ordered pair of marker lines.\<close>

definition layout ::
  "string \<Rightarrow> string \<Rightarrow> string \<Rightarrow> string list \<Rightarrow> string \<Rightarrow> string list \<Rightarrow> string \<Rightarrow> string list \<Rightarrow> bool" where
  "layout b e data pre bl mid el post \<longleftrightarrow>
     raw_lines data = pre @ bl # mid @ el # post \<and> logical bl = b \<and> logical el = e \<and>
     unmarked b e pre \<and> unmarked b e mid \<and> unmarked b e post"

definition layout_section :: "string list \<Rightarrow> string \<Rightarrow> string list \<Rightarrow> string \<Rightarrow> markerSection" where
  "layout_section pre bl mid el =
     (let p = length (concat pre); q = p + length bl; r = q + length (concat mid)
      in \<lparr>beginStart = p, beginEnd = q, endStart = r, endEnd = r + length el\<rparr>)"

lemma locateMarkers_layout:
  assumes "b \<noteq> e" and "layout b e data pre bl mid el post"
  shows "locateMarkers data b e = Inr (ValidMarkers, layout_section pre bl mid el)"
  using assms
  by (simp add: locateMarkers_def locateLoop_scan layout_def scan_unmarked_append scan_unmarked
      layout_section_def no_section_def Let_def add.assoc)

lemma locateMarkers_swapped:
  assumes "b \<noteq> e" and "raw_lines data = pre @ el # mid @ bl # post"
    and "logical bl = b" "logical el = e"
    and "unmarked b e pre" "unmarked b e mid" "unmarked b e post"
  shows "locateMarkers data b e = Inl (errors_New ''END marker appears before BEGIN marker'')"
proof -
  have "el \<noteq> []"
    using raw_lines_not_last [of data pre el "mid @ bl # post"] assms(2) by simp
  with assms show ?thesis
    by (simp add: locateMarkers_def locateLoop_scan scan_unmarked_append scan_unmarked
        no_section_def Let_def)
qed

lemma locateMarkers_valid_obtains:
  assumes "b \<noteq> e" and "locateMarkers data b e = Inr (ValidMarkers, sec)"
  obtains pre bl mid el post where "layout b e data pre bl mid el post"
proof -
  let ?ls = "raw_lines data"
  from assms(2) obtain s where s: "scan b e 0 ?ls no_section False False = Inr (s, True, True)"
    by (auto simp: locateMarkers_def locateLoop_scan split: sum.splits if_splits)
  with assms(1) have cnt: "hits b ?ls = 1" "hits e ?ls = 1" using scan_counts by fastforce+
  obtain xs bl ys where b: "?ls = xs @ bl # ys" "logical bl = b" "hits b xs = 0" "hits b ys = 0"
    using hits_1_split [OF cnt(1)] by blast
  with cnt assms(1) have "hits e xs + hits e ys = 1" by simp
  then consider "hits e xs = 0" "hits e ys = 1" | "hits e xs = 1" "hits e ys = 0" by linarith
  then show ?thesis
  proof cases
    case 1
    obtain us el vs where e: "ys = us @ el # vs" "logical el = e" "hits e us = 0" "hits e vs = 0"
      using hits_1_split [OF 1(2)] by blast
    from b e 1 assms(1) have "layout b e data xs bl us el vs"
      by (auto simp: layout_def intro!: hits_0)
    then show ?thesis by (rule that)
  next
    case 2
    obtain us el vs where e: "xs = us @ el # vs" "logical el = e" "hits e us = 0" "hits e vs = 0"
      using hits_1_split [OF 2(1)] by blast
    have "locateMarkers data b e = Inl (errors_New ''END marker appears before BEGIN marker'')"
      by (rule locateMarkers_swapped [where pre = us and el = el and mid = vs and bl = bl and post = ys])
         (use b e 2 assms(1) in \<open>auto intro!: hits_0\<close>)
    with assms(2) show ?thesis by simp
  qed
qed

lemma locateMarkers_NoMarkers_iff:
  assumes "b \<noteq> e"
  shows "(\<exists>sec. locateMarkers data b e = Inr (NoMarkers, sec)) \<longleftrightarrow> unmarked b e (raw_lines data)"
proof
  assume "unmarked b e (raw_lines data)"
  then have "locateMarkers data b e = Inr (NoMarkers, no_section)"
    by (simp add: locateMarkers_def locateLoop_scan scan_unmarked)
  then show "\<exists>sec. locateMarkers data b e = Inr (NoMarkers, sec)" by blast
next
  assume "\<exists>sec. locateMarkers data b e = Inr (NoMarkers, sec)"
  then obtain s where "scan b e 0 (raw_lines data) no_section False False = Inr (s, False, False)"
    by (auto simp: locateMarkers_def locateLoop_scan split: sum.splits if_splits)
  from scan_counts [OF this assms] assms show "unmarked b e (raw_lines data)" by (auto intro: hits_0)
qed

section \<open>The managed section as a lens\<close>

text \<open>
  What the store relies on: the managed body can be read and replaced, replacing it changes nothing
  else, and the replaced file is again one the markers are found in.
\<close>

locale section_lens =
  fixes valid :: "'f \<Rightarrow> bool"
    and body_ok :: "'b \<Rightarrow> bool"
    and get :: "'f \<Rightarrow> 'b"
    and put :: "'b \<Rightarrow> 'f \<Rightarrow> 'f"
    and outer :: "'f \<Rightarrow> 'o"
  assumes valid_put: "valid f \<Longrightarrow> body_ok b \<Longrightarrow> valid (put b f)"
    and get_put: "valid f \<Longrightarrow> body_ok b \<Longrightarrow> get (put b f) = b"
    and put_get: "valid f \<Longrightarrow> put (get f) f = f"
    and get_ok: "valid f \<Longrightarrow> body_ok (get f)"
    and outer_put: "valid f \<Longrightarrow> body_ok b \<Longrightarrow> outer (put b f) = outer f"
    and outer_inj: "valid f \<Longrightarrow> valid g \<Longrightarrow> outer f = outer g \<Longrightarrow> get f = get g \<Longrightarrow> f = g"
begin

lemma put_put: "valid f \<Longrightarrow> body_ok a \<Longrightarrow> body_ok b \<Longrightarrow> put b (put a f) = put b f"
  by (rule outer_inj) (auto simp: valid_put get_put outer_put)

lemma put_unchanged_iff: "valid f \<Longrightarrow> body_ok b \<Longrightarrow> put b f = f \<longleftrightarrow> get f = b"
  using get_put put_get by metis

text \<open>A run of updates leaves what the last one wrote and never touches the outside.\<close>

lemma run_puts:
  assumes "valid f" and "\<forall>b\<in>set bs. body_ok b"
  shows "valid (fold put bs f)" and "outer (fold put bs f) = outer f"
    and "bs \<noteq> [] \<Longrightarrow> fold put bs f = put (last bs) f"
proof -
  have "valid (fold put bs f) \<and> outer (fold put bs f) = outer f \<and>
      (bs \<noteq> [] \<longrightarrow> fold put bs f = put (last bs) f)"
    using assms
  proof (induction bs arbitrary: f)
    case (Cons b bs)
    then have v: "valid (put b f)" by (simp add: valid_put)
    note IH = Cons.IH [OF v] and prems = Cons.prems
    show ?case
    proof (cases "bs = []")
      case True
      with v prems show ?thesis by (simp add: outer_put)
    next
      case False
      then have "last bs \<in> set bs" by simp
      with prems have "body_ok (last bs)" "body_ok b" by auto
      moreover from this prems have "valid (put (last bs) f)" by (simp add: valid_put)
      ultimately show ?thesis using IH prems False by (simp add: outer_put put_put)
    qed
  qed simp
  then show "valid (fold put bs f)" "outer (fold put bs f) = outer f"
    "bs \<noteq> [] \<Longrightarrow> fold put bs f = put (last bs) f" by auto
qed

end

definition marked :: "string \<Rightarrow> string \<Rightarrow> string \<Rightarrow> bool" where
  "marked b e data \<longleftrightarrow> b \<noteq> e \<and>
     (case locateMarkers data b e of Inr (ValidMarkers, sec) \<Rightarrow> True | _ \<Rightarrow> False)"

definition section_of :: "string \<Rightarrow> string \<Rightarrow> string \<Rightarrow> markerSection" where
  "section_of b e data =
     (case locateMarkers data b e of Inr (ValidMarkers, sec) \<Rightarrow> sec | _ \<Rightarrow> no_section)"

definition managed_body :: "string \<Rightarrow> string \<Rightarrow> string \<Rightarrow> string" where
  "managed_body b e data =
     (let sec = section_of b e data in take (endStart sec - beginEnd sec) (drop (beginEnd sec) data))"

definition outside :: "string \<Rightarrow> string \<Rightarrow> string \<Rightarrow> string \<times> string" where
  "outside b e data =
     (let sec = section_of b e data in (take (beginEnd sec) data, drop (endStart sec) data))"

definition put_body :: "string \<Rightarrow> string \<Rightarrow> string \<Rightarrow> string \<Rightarrow> string" where
  "put_body b e body data = replaceManagedSection data (section_of b e data) body"

definition body_fits :: "string \<Rightarrow> string \<Rightarrow> string \<Rightarrow> bool" where
  "body_fits b e body \<longleftrightarrow> terminated body \<and> unmarked b e (raw_lines body)"

lemma marked_iff: "marked b e data \<longleftrightarrow> b \<noteq> e \<and> (\<exists>sec. locateMarkers data b e = Inr (ValidMarkers, sec))"
  by (auto simp: marked_def split: sum.splits prod.splits markerState.splits)

lemma marked_layout:
  assumes "marked b e data"
  obtains pre bl mid el post where "b \<noteq> e" "layout b e data pre bl mid el post"
  using assms locateMarkers_valid_obtains by (metis marked_iff)

lemma layout_marked:
  assumes "b \<noteq> e" "layout b e data pre bl mid el post"
  shows "marked b e data" and "section_of b e data = layout_section pre bl mid el"
  using locateMarkers_layout [OF assms] assms by (auto simp: marked_iff section_of_def)

lemma layout_data:
  assumes "layout b e data pre bl mid el post"
  shows "data = concat pre @ bl @ concat mid @ el @ concat post"
  using assms concat_raw_lines [of data] by (simp add: layout_def)

lemma layout_parts:
  assumes "b \<noteq> e" "layout b e data pre bl mid el post"
  shows "managed_body b e data = concat mid"
    and "outside b e data = (concat pre @ bl, el @ concat post)"
    and "put_body b e body data = concat pre @ bl @ body @ el @ concat post"
  using layout_marked [OF assms] layout_data [OF assms(2)]
  by (simp_all add: managed_body_def outside_def put_body_def replaceManagedSection_def
      layout_section_def Let_def)

lemma layout_put:
  assumes "layout b e data pre bl mid el post" and "body_fits b e body"
  shows "layout b e (concat pre @ bl @ body @ el @ concat post) pre bl (raw_lines body) el post"
proof -
  from assms(1) have lines: "raw_lines data = (pre @ [bl]) @ (mid @ el # post)"
    "raw_lines data = (pre @ bl # mid) @ (el # post)" by (auto simp: layout_def)
  have t: "terminated (concat (pre @ [bl]))"
    using lines(1) raw_lines_prefix_terminated [of data "pre @ [bl]" "hd (mid @ el # post)" "tl (mid @ el # post)"]
    by simp
  have "raw_lines (concat (pre @ [bl])) = pre @ [bl]" "raw_lines (concat (el # post)) = el # post"
    using raw_lines_split lines by blast+
  then have "raw_lines (concat (pre @ [bl]) @ body @ concat (el # post)) = pre @ bl # raw_lines body @ el # post"
    using raw_lines_append [OF t] raw_lines_append [of body] assms(2) by (simp add: body_fits_def)
  with assms show ?thesis by (simp add: layout_def body_fits_def)
qed

lemma layout_body_fits:
  assumes "b \<noteq> e" "layout b e data pre bl mid el post"
  shows "body_fits b e (concat mid)"
proof -
  from assms(2) have lines: "raw_lines data = (pre @ [bl]) @ (mid @ el # post)" by (simp add: layout_def)
  then have r: "raw_lines (concat (mid @ el # post)) = mid @ el # post" using raw_lines_split by blast
  then have "terminated (concat mid)" using raw_lines_prefix_terminated by blast
  moreover have "raw_lines (concat mid) = mid" using r raw_lines_split by blast
  ultimately show ?thesis using assms by (simp add: body_fits_def layout_def)
qed

interpretation hosts_section: section_lens "marked b e" "body_fits b e" "managed_body b e"
    "put_body b e" "outside b e" for b e
proof
  fix f body
  assume f: "marked b e f" and body: "body_fits b e body"
  obtain pre bl mid el post where l: "b \<noteq> e" "layout b e f pre bl mid el post"
    using marked_layout [OF f] by blast
  note l' = layout_put [OF l(2) body]
  note put = layout_parts(3) [OF l]
  show "marked b e (put_body b e body f)" using layout_marked l(1) l' put by metis
  show "managed_body b e (put_body b e body f) = body"
    using layout_parts(1) [OF l(1) l'] put by simp
  show "outside b e (put_body b e body f) = outside b e f"
    using layout_parts(2) [OF l(1) l'] layout_parts(2) [OF l] put by simp
next
  fix f
  assume "marked b e f"
  then obtain pre bl mid el post where l: "b \<noteq> e" "layout b e f pre bl mid el post"
    using marked_layout by blast
  then show "put_body b e (managed_body b e f) f = f"
    using layout_parts [OF l] layout_data [OF l(2)] by simp
  show "body_fits b e (managed_body b e f)"
    using layout_parts(1) [OF l] layout_body_fits [OF l] by simp
next
  fix f g
  assume "marked b e f" "marked b e g" and o: "outside b e f = outside b e g"
    and m: "managed_body b e f = managed_body b e g"
  obtain p bl q el r where l: "b \<noteq> e" "layout b e f p bl q el r"
    using marked_layout [OF \<open>marked b e f\<close>] by blast
  obtain p' bl' q' el' r' where l': "b \<noteq> e" "layout b e g p' bl' q' el' r'"
    using marked_layout [OF \<open>marked b e g\<close>] by blast
  from o m show "f = g"
    using layout_parts [OF l] layout_parts [OF l'] layout_data [OF l(2)] layout_data [OF l'(2)]
    by (metis append.assoc prod.inject)
qed

lemma managed_body_fits: "marked b e data \<Longrightarrow> body_fits b e (managed_body b e data)"
  using layout_parts(1) layout_body_fits by (metis marked_layout)

lemma replacements_last:
  assumes "marked b e data" "bodies \<noteq> [] \<and> (\<forall>x\<in>set bodies. body_fits b e x)"
  shows "marked b e (fold (put_body b e) bodies data) \<and>
    outside b e (fold (put_body b e) bodies data) = outside b e data \<and>
    managed_body b e (fold (put_body b e) bodies data) = last bodies \<and>
    fold (put_body b e) bodies data = replaceManagedSection data (section_of b e data) (last bodies)"
proof -
  have final: "fold (put_body b e) bodies data = put_body b e (last bodies) data"
    by (rule hosts_section.run_puts(3)) (use assms in auto)
  have fits: "body_fits b e (last bodies)" using assms by simp
  show ?thesis
    unfolding final
    using assms(1) fits hosts_section.valid_put hosts_section.outer_put hosts_section.get_put
    by (simp add: put_body_def)
qed

section \<open>Properties\<close>

text \<open>
  C23. \<open>locateMarkers\<close> reports a valid pair exactly when, reading the file line by line (LF or
  CRLF), there is one BEGIN line and one END line, in that order; and the offsets it returns are
  those of the two lines.
\<close>

theorem locateMarkers_valid_iff:
  assumes "b \<noteq> e"
  shows "locateMarkers data b e = Inr (ValidMarkers, sec) \<longleftrightarrow>
    (\<exists>pre bl mid el post. layout b e data pre bl mid el post \<and> sec = layout_section pre bl mid el)"
  using locateMarkers_layout [OF assms] locateMarkers_valid_obtains [OF assms]
  by (metis old.prod.inject sum.inject(2))

theorem locateMarkers_valid_iff_witness:
  "locateMarkers (''# B'' @ [CR, NL] @ ''x'' @ [NL] @ ''# E'') ''# B'' ''# E'' =
     Inr (ValidMarkers, \<lparr>beginStart = 0, beginEnd = 5, endStart = 7, endEnd = 10\<rparr>)"
proof -
  have "layout ''# B'' ''# E'' (''# B'' @ [CR, NL] @ ''x'' @ [NL] @ ''# E'')
      [] (''# B'' @ [CR, NL]) [''x'' @ [NL]] ''# E'' []"
    by (simp add: layout_def logical_def chop_cr_def)
  moreover have "layout_section [] (''# B'' @ [CR, NL]) [''x'' @ [NL]] ''# E'' =
      \<lparr>beginStart = 0, beginEnd = 5, endStart = 7, endEnd = 10\<rparr>"
    by (simp add: layout_section_def)
  ultimately show ?thesis using locateMarkers_valid_iff [of "''# B''" "''# E''"] by fastforce
qed

text \<open>
  \<open>locateMarkers\<close> reports that no section exists exactly when no line is a marker; every
  file that is neither unmarked nor properly marked is refused with an error.
\<close>

lemma locateMarkers_none_or_error:
  assumes "b \<noteq> e"
  shows "((\<exists>sec. locateMarkers data b e = Inr (NoMarkers, sec)) \<longleftrightarrow> unmarked b e (raw_lines data)) \<and>
    ((\<exists>err. locateMarkers data b e = Inl err) \<longleftrightarrow>
      \<not> unmarked b e (raw_lines data) \<and> (\<nexists>pre bl mid el post. layout b e data pre bl mid el post))"
proof -
  note none_iff = locateMarkers_NoMarkers_iff [OF assms, of data]
  have lay: "locateMarkers data b e \<noteq> Inl err" if "layout b e data pre bl mid el post"
    for err pre bl mid el post
    using locateMarkers_layout [OF assms that] by simp
  show ?thesis
  proof (cases "locateMarkers data b e")
    case (Inl err)
    then have "\<not> unmarked b e (raw_lines data)" using none_iff by auto
    moreover have "\<nexists>pre bl mid el post. layout b e data pre bl mid el post" using Inl lay by blast
    ultimately show ?thesis using Inl by simp
  next
    case (Inr q)
    obtain st sec where q: "q = (st, sec)" by fastforce
    show ?thesis
    proof (cases st)
      case NoMarkers
      with Inr q none_iff show ?thesis by auto
    next
      case ValidMarkers
      with Inr q obtain pre bl mid el post where "layout b e data pre bl mid el post"
        using locateMarkers_valid_obtains [OF assms] by blast
      then have "\<not> (\<nexists>pre bl mid el post. layout b e data pre bl mid el post)" by blast
      with Inr q ValidMarkers none_iff show ?thesis by simp
    qed
  qed
qed



end
