(* ===== verification/Render.thy ===== *)
theory Render
  imports Net_Addr Markers
begin

text \<open>
  Rendering a snapshot of endpoints into the managed body (\<open>hosts/render.go\<close>), with the
  endpoint type of \<open>daemon/types.go\<close>. \<open>slices.SortFunc\<close> promises a permutation sorted by
  the comparison and no more, so it is an argument of the model, with that promise as the locale
  \<open>slices_sort\<close>; the insertion sort that package runs on short slices is shown to keep it.
\<close>

section \<open>Sorting with a comparison\<close>

locale slices_sort =
  fixes SortFunc :: "('a \<Rightarrow> 'a \<Rightarrow> int) \<Rightarrow> 'a list \<Rightarrow> 'a list"
  assumes perm: "mset (SortFunc c xs) = mset xs"
    and sorts: "weak_order c \<Longrightarrow> sorted_wrt (\<lambda>a b. c a b \<le> 0) (SortFunc c xs)"
begin

lemma set_SortFunc: "set (SortFunc c xs) = set xs"
  by (metis perm set_mset_mset)

lemma SortFunc_eq_Nil: "SortFunc c xs = [] \<longleftrightarrow> xs = []"
  by (metis perm mset_zero_iff)

text \<open>Without ties between different elements the result does not depend on the input's order.\<close>

lemma SortFunc_unique:
  assumes "weak_order c" "mset xs = mset ys"
    and "\<And>x y. x \<in> set xs \<Longrightarrow> y \<in> set xs \<Longrightarrow> c x y = 0 \<Longrightarrow> x = y"
  shows "SortFunc c xs = SortFunc c ys"
proof (rule sorted_wrt_mset_unique [where P = "\<lambda>a b. c a b \<le> 0"])
  show "sorted_wrt (\<lambda>a b. c a b \<le> 0) (SortFunc c xs)" "sorted_wrt (\<lambda>a b. c a b \<le> 0) (SortFunc c ys)"
    using sorts [OF assms(1)] by auto
  show "mset (SortFunc c xs) = mset (SortFunc c ys)" using assms(2) by (simp add: perm)
  show "\<And>x y. x \<in> set (SortFunc c xs) \<Longrightarrow> y \<in> set (SortFunc c xs) \<Longrightarrow> c x y \<le> 0 \<Longrightarrow> c y x \<le> 0 \<Longrightarrow> x = y"
    using assms(3) weak_order_0 [OF assms(1)] by (auto simp: set_SortFunc)
qed

end

text \<open>
  \<open>insertionSortCmpFunc\<close> of package \<open>slices\<close>: each element moves left past the elements it
  is less than. The accumulator holds the sorted prefix from right to left.
\<close>

fun insert_left :: "('a \<Rightarrow> 'a \<Rightarrow> int) \<Rightarrow> 'a \<Rightarrow> 'a list \<Rightarrow> 'a list" where
  "insert_left c x [] = [x]"
| "insert_left c x (y # ys) = (if c x y < 0 then y # insert_left c x ys else x # y # ys)"

definition insertionSort :: "('a \<Rightarrow> 'a \<Rightarrow> int) \<Rightarrow> 'a list \<Rightarrow> 'a list" where
  "insertionSort c xs = rev (foldl (\<lambda>acc x. insert_left c x acc) [] xs)"

lemma mset_insert_left: "mset (insert_left c x ys) = add_mset x (mset ys)"
  by (induction ys) auto

lemma set_insert_left: "set (insert_left c x ys) = insert x (set ys)"
  by (metis mset_insert_left set_mset_add_mset_insert set_mset_mset)

lemma sorted_insert_left:
  assumes "weak_order c" "sorted_wrt (\<lambda>a b. c b a \<le> 0) ys"
  shows "sorted_wrt (\<lambda>a b. c b a \<le> 0) (insert_left c x ys)"
  using assms(2)
proof (induction ys)
  case (Cons y ys)
  show ?case
  proof (cases "c x y < 0")
    case True
    with Cons show ?thesis by (auto simp: set_insert_left)
  next
    case False
    then have yx: "c y x \<le> 0" using weak_orderD(1) [OF assms(1), of x y] by linarith
    moreover have "c z x \<le> 0" if "z \<in> set ys" for z
      using Cons.prems that yx weak_orderD(2) [OF assms(1)] by auto
    ultimately show ?thesis using Cons.prems False by simp
  qed
qed simp

interpretation go_insertion: slices_sort insertionSort
proof
  fix c :: "'a \<Rightarrow> 'a \<Rightarrow> int" and xs
  have "mset (foldl (\<lambda>acc x. insert_left c x acc) ys xs) = mset ys + mset xs" for ys
    by (induction xs arbitrary: ys) (auto simp: mset_insert_left)
  then show "mset (insertionSort c xs) = mset xs" by (simp add: insertionSort_def)
  assume c: "weak_order c"
  have "sorted_wrt (\<lambda>a b. c b a \<le> 0) ys \<Longrightarrow>
      sorted_wrt (\<lambda>a b. c b a \<le> 0) (foldl (\<lambda>acc x. insert_left c x acc) ys xs)" for ys
    by (induction xs arbitrary: ys) (auto simp: sorted_insert_left [OF c])
  from this [of "[]"] show "sorted_wrt (\<lambda>a b. c a b \<le> 0) (insertionSort c xs)"
    by (simp add: insertionSort_def sorted_wrt_rev)
qed

section \<open>Endpoints and their validation\<close>

record endpoint =
  Network :: string
  IP :: addr
  Aliases :: "string list"

definition delimiter_rune :: "nat \<Rightarrow> bool" where
  "delimiter_rune r \<longleftrightarrow> IsSpace r \<or> IsControl r \<or> r = 35"

definition validateHostnamePart :: "string \<Rightarrow> err" where
  "validateHostnamePart v =
     (if v = [] then Some (errors_New ''empty value'')
      else if list_ex delimiter_rune (runes v) then Some (errors_New ''contains a hosts-file delimiter'')
      else None)"

definition validateNetwork :: "string \<Rightarrow> err" where
  "validateNetwork network =
     (if network = [] then Some (errors_New ''empty network name'') else validateHostnamePart network)"

fun validateAliases :: "string list \<Rightarrow> err" where
  "validateAliases [] = None"
| "validateAliases (a # as) =
     (case validateHostnamePart a of
        Some e \<Rightarrow> Some (Wrapf [Lit ''alias '', Quoted a, Lit '': ''] e [])
      | None \<Rightarrow> validateAliases as)"

definition validateEndpoint :: "endpoint \<Rightarrow> err" where
  "validateEndpoint ep =
     (if \<not> IsValid (IP ep) then Some (errors_New ''invalid IP address'')
      else case validateNetwork (Network ep) of
        Some e \<Rightarrow> Some (wrap ''network: '' e)
      | None \<Rightarrow>
          if Aliases ep = [] then Some (errors_New ''empty aliases'')
          else validateAliases (Aliases ep))"

text \<open>The validation loop: the index of the endpoint goes into the error.\<close>

fun validateEndpoints :: "nat \<Rightarrow> endpoint list \<Rightarrow> err" where
  "validateEndpoints i [] = None"
| "validateEndpoints i (ep # eps) =
     (case validateEndpoint ep of
        Some e \<Rightarrow> Some (Wrapf [Lit ''endpoint '', Dec (int i), Lit '': ''] e [])
      | None \<Rightarrow> validateEndpoints (Suc i) eps)"

section \<open>Rendering\<close>

record renderedEndpoint =
  re_network :: string
  re_ip :: addr
  re_ipText :: string
  re_hostnames :: "string list"

text \<open>
  The host names of an endpoint: the keys of a map, so each name once, sorted. The default network
  contributes the bare alias, every network the qualified one.
\<close>

definition hostnames_of :: "string \<Rightarrow> endpoint \<Rightarrow> string list" where
  "hostnames_of defaultNetwork ep =
     sort (remdups (concat (map (\<lambda>alias.
        (if Network ep = defaultNetwork then [alias] else []) @ [alias @ ''.'' @ Network ep])
      (Aliases ep))))"

definition render_one :: "string \<Rightarrow> endpoint \<Rightarrow> renderedEndpoint" where
  "render_one defaultNetwork ep =
     \<lparr>re_network = Network ep, re_ip = IP ep, re_ipText = addr_String (IP ep),
      re_hostnames = hostnames_of defaultNetwork ep\<rparr>"

definition render_cmp :: "renderedEndpoint \<Rightarrow> renderedEndpoint \<Rightarrow> int" where
  "render_cmp l r =
     cmp_Or [cmp_Compare (hd (re_hostnames l)) (hd (re_hostnames r)),
             cmp_Compare (re_network l) (re_network r),
             addr_Compare (re_ip l) (re_ip r)]"

text \<open>\<open>%-*s\<close> pads on the right; the width counts runes, while \<open>maxIPWidth\<close> counts bytes.\<close>

definition pad_right :: "nat \<Rightarrow> string \<Rightarrow> string" where
  "pad_right w s = s @ replicate (w - RuneCount s) (CHR '' '')"

definition render_line :: "nat \<Rightarrow> renderedEndpoint \<Rightarrow> string" where
  "render_line w r = pad_right w (re_ipText r) @ '' '' @ Join (re_hostnames r) '' '' @ [NL]"

definition renderEndpoints ::
  "((renderedEndpoint \<Rightarrow> renderedEndpoint \<Rightarrow> int) \<Rightarrow> renderedEndpoint list \<Rightarrow> renderedEndpoint list) \<Rightarrow>
     endpoint list \<Rightarrow> string \<Rightarrow> go_error + string" where
  "renderEndpoints SortFunc endpoints defaultNetwork =
     (case validateNetwork defaultNetwork of
        Some e \<Rightarrow> Inl (wrap ''default network: '' e)
      | None \<Rightarrow>
          (case validateEndpoints 0 endpoints of
             Some e \<Rightarrow> Inl e
           | None \<Rightarrow>
               (let rendered = map (render_one defaultNetwork) endpoints;
                    maxIPWidth = foldl (\<lambda>m r. max m (length (re_ipText r))) 0 rendered;
                    sorted = SortFunc render_cmp rendered
                in Inr (concat (map (render_line maxIPWidth) sorted)))))"

section \<open>Which inputs render\<close>

lemma validateAliases_None_iff: "validateAliases as = None \<longleftrightarrow> (\<forall>a\<in>set as. validateHostnamePart a = None)"
  by (induction as) (auto split: option.splits)

lemma validateEndpoint_None_iff:
  "validateEndpoint ep = None \<longleftrightarrow>
     IsValid (IP ep) \<and> validateNetwork (Network ep) = None \<and> Aliases ep \<noteq> [] \<and>
     (\<forall>a\<in>set (Aliases ep). validateHostnamePart a = None)"
  by (auto simp: validateEndpoint_def validateAliases_None_iff split: option.splits)

lemma validateEndpoints_None_iff: "validateEndpoints i eps = None \<longleftrightarrow> (\<forall>ep\<in>set eps. validateEndpoint ep = None)"
  by (induction eps arbitrary: i) (auto split: option.splits)

lemma renderEndpoints_Inr_iff:
  "renderEndpoints srt eps d = Inr body \<longleftrightarrow>
     validateNetwork d = None \<and> (\<forall>ep\<in>set eps. validateEndpoint ep = None) \<and>
     body = concat (map (render_line (foldl (\<lambda>m r. max m (length (re_ipText r))) 0 (map (render_one d) eps)))
       (srt render_cmp (map (render_one d) eps)))"
  by (auto simp: renderEndpoints_def Let_def simp flip: validateEndpoints_None_iff [of 0] split: option.splits)

text \<open>
  A validated name holds no delimiter byte: no ASCII space, no control byte, no number sign.
\<close>

definition name_byte :: "char \<Rightarrow> bool" where
  "name_byte c \<longleftrightarrow> 32 < byte c \<and> byte c \<noteq> 127 \<and> byte c \<noteq> 35"

definition clean_name :: "string \<Rightarrow> bool" where
  "clean_name s \<longleftrightarrow> s \<noteq> [] \<and> (\<forall>c\<in>set s. name_byte c)"

lemma validateHostnamePart_bytes:
  assumes "validateHostnamePart v = None"
  shows "clean_name v"
proof -
  from assms have ne: "v \<noteq> []" and no: "\<And>r. r \<in> set (runes v) \<Longrightarrow> \<not> delimiter_rune r"
    by (auto simp: validateHostnamePart_def list_ex_iff split: if_splits)
  have "name_byte c" if "c \<in> set v" for c
  proof (rule ccontr)
    assume "\<not> name_byte c"
    then have "byte c < 128" "delimiter_rune (byte c)"
      by (auto simp: name_byte_def delimiter_rune_def IsSpace_def IsControl_def)
    with that ascii_byte_in_runes no show False by blast
  qed
  with ne show ?thesis by (simp add: clean_name_def)
qed

lemma validateNetwork_bytes: "validateNetwork n = None \<Longrightarrow> clean_name n"
  by (auto simp: validateNetwork_def validateHostnamePart_bytes split: if_splits)

lemma clean_name_append_dot: "clean_name a \<Longrightarrow> clean_name b \<Longrightarrow> clean_name (a @ ''.'' @ b)"
  by (auto simp: clean_name_def name_byte_def)

lemma set_hostnames_of:
  "set (hostnames_of d ep) =
     (\<lambda>a. a @ ''.'' @ Network ep) ` set (Aliases ep) \<union>
     (if Network ep = d then set (Aliases ep) else {})"
  by (auto simp: hostnames_of_def)

lemma hostnames_of_clean:
  assumes "validateEndpoint ep = None" "h \<in> set (hostnames_of d ep)"
  shows "clean_name h"
  using assms clean_name_append_dot
  by (auto simp: set_hostnames_of validateEndpoint_None_iff validateHostnamePart_bytes validateNetwork_bytes
      split: if_splits)

lemma hostnames_of_not_Nil: "validateEndpoint ep = None \<Longrightarrow> hostnames_of d ep \<noteq> []"
  using set_hostnames_of [of d ep] by (auto simp: validateEndpoint_None_iff)

lemma weak_order_render_cmp: "weak_order render_cmp"
proof -
  let ?h = "\<lambda>r. hd (re_hostnames r)"
  have eq: "render_cmp = (\<lambda>a b. if cmp_Compare (?h a) (?h b) \<noteq> 0 then cmp_Compare (?h a) (?h b)
      else if cmp_Compare (re_network a) (re_network b) \<noteq> 0 then cmp_Compare (re_network a) (re_network b)
      else addr_Compare (re_ip a) (re_ip b))"
    by (auto simp: render_cmp_def fun_eq_iff)
  show ?thesis
    unfolding eq
    by (intro weak_order_lex weak_order_key [OF weak_order_cmp_Compare]
        weak_order_key [OF weak_order_addr_Compare])
qed

section \<open>Reading the rendered body\<close>

text \<open>
  How a resolver reads a hosts file: the words of each line, the first one an address, the others
  its names.
\<close>

definition line_words :: "string \<Rightarrow> string list" where
  "line_words l = filter (\<lambda>w. w \<noteq> []) (Split l (CHR '' ''))"

definition parse_hosts :: "string \<Rightarrow> (string \<times> string list) list" where
  "parse_hosts body =
     map (\<lambda>l. case line_words (logical l) of [] \<Rightarrow> ([], []) | w # ws \<Rightarrow> (w, ws)) (raw_lines body)"

definition clean_zone :: "endpoint \<Rightarrow> bool" where
  "clean_zone ep \<longleftrightarrow> (\<forall>c\<in>set (Zone (IP ep)). name_byte c)"

definition clean_rendered :: "renderedEndpoint \<Rightarrow> bool" where
  "clean_rendered r \<longleftrightarrow> clean_name (re_ipText r) \<and> re_hostnames r \<noteq> [] \<and> (\<forall>h\<in>set (re_hostnames r). clean_name h)"

lemma clean_name_no_delim: "clean_name s \<Longrightarrow> CHR '' '' \<notin> set s \<and> NL \<notin> set s \<and> CR \<notin> set s \<and> CHR ''#'' \<notin> set s"
  by (auto simp: clean_name_def name_byte_def)

lemma render_one_clean:
  assumes "validateEndpoint ep = None" "clean_zone ep"
  shows "clean_rendered (render_one d ep)"
proof -
  have "name_byte c" if "c \<in> set (addr_String (IP ep))" for c
  proof -
    have "addr_byte c \<or> c \<in> set (Zone (IP ep))"
      using that assms(1) addr_String_bytes by (simp add: validateEndpoint_None_iff)
    with assms(2) show ?thesis by (auto simp: clean_zone_def addr_byte_def name_byte_def)
  qed
  with assms show ?thesis
    by (simp add: clean_rendered_def render_one_def hostnames_of_not_Nil hostnames_of_clean clean_name_def [of "addr_String _"])
qed

lemma Split_spaces: "CHR '' '' \<notin> set w \<Longrightarrow> w \<noteq> [] \<Longrightarrow>
    filter (\<lambda>w. w \<noteq> []) (Split (w @ replicate k (CHR '' '') @ '' '' @ rest) (CHR '' '')) =
    w # filter (\<lambda>w. w \<noteq> []) (Split rest (CHR '' ''))"
proof -
  assume w: "CHR '' '' \<notin> set w" "w \<noteq> []"
  have eq: "w @ replicate k (CHR '' '') @ '' '' @ rest = w @ CHR '' '' # (replicate k (CHR '' '') @ rest)"
    by (metis append.assoc append_Cons append_Nil replicate_app_Cons_same)
  have "filter (\<lambda>w. w \<noteq> []) (Split (replicate k (CHR '' '') @ rest) (CHR '' '')) =
      filter (\<lambda>w. w \<noteq> []) (Split rest (CHR '' ''))"
    by (induction k) auto
  then show ?thesis unfolding eq using w by (simp add: Split_append_sep)
qed

definition line_body :: "nat \<Rightarrow> renderedEndpoint \<Rightarrow> string" where
  "line_body w r = re_ipText r @ replicate (w - RuneCount (re_ipText r)) (CHR '' '') @ '' '' @ Join (re_hostnames r) '' ''"

lemma render_line_eq: "render_line w r = line_body w r @ [NL]"
  by (simp add: render_line_def line_body_def pad_right_def)

lemma line_body_bytes:
  assumes "clean_rendered r" "c \<in> set (line_body w r)"
  shows "name_byte c \<or> c = CHR '' ''"
proof -
  have names: "name_byte c \<or> c = CHR '' ''" if "c \<in> set (Join (re_hostnames r) '' '')"
    using that by (rule Join_bytes) (use assms in \<open>auto simp: clean_rendered_def clean_name_def\<close>)
  have "c \<in> set (re_ipText r) \<or> c = CHR '' '' \<or> c \<in> set (Join (re_hostnames r) '' '')"
    using assms(2) by (auto simp: line_body_def)
  with names assms(1) show ?thesis by (auto simp: clean_rendered_def clean_name_def)
qed

lemma line_body_not_Nil: "clean_rendered r \<Longrightarrow> line_body w r \<noteq> []"
  by (simp add: line_body_def)

lemma render_line_body:
  assumes "clean_rendered r"
  shows "NL \<notin> set (line_body w r)"
    and "logical (render_line w r) = line_body w r"
    and "line_words (line_body w r) = re_ipText r # re_hostnames r"
    and "hd (line_body w r) \<noteq> CHR ''#''"
proof -
  show "NL \<notin> set (line_body w r)"
    using line_body_bytes [OF assms, of NL] by (auto simp: name_byte_def)
  have "CR \<notin> set (line_body w r)"
    using line_body_bytes [OF assms, of CR] by (auto simp: name_byte_def)
  then have "last (line_body w r) \<noteq> CR" using line_body_not_Nil [OF assms] by (metis last_in_set)
  then show "logical (render_line w r) = line_body w r"
    by (simp add: logical_def chop_cr_def render_line_eq)
  have "Split (Join (re_hostnames r) '' '') (CHR '' '') = re_hostnames r"
    by (rule Split_Join) (use assms in \<open>auto simp: clean_rendered_def dest: clean_name_no_delim\<close>)
  moreover have "filter (\<lambda>w. w \<noteq> []) (re_hostnames r) = re_hostnames r"
    using assms by (auto simp: clean_rendered_def clean_name_def)
  moreover have ip: "CHR '' '' \<notin> set (re_ipText r)" "re_ipText r \<noteq> []"
    using assms by (auto simp: clean_rendered_def clean_name_def name_byte_def)
  ultimately show "line_words (line_body w r) = re_ipText r # re_hostnames r"
    unfolding line_words_def line_body_def by (simp only: Split_spaces [OF ip(1) ip(2)])
  have "hd (line_body w r) \<in> set (re_ipText r)" using ip by (simp add: line_body_def)
  with assms show "hd (line_body w r) \<noteq> CHR ''#''"
    using clean_name_no_delim by (auto simp: clean_rendered_def)
qed

lemma raw_lines_rendered:
  "\<forall>r\<in>set rs. clean_rendered r \<Longrightarrow> raw_lines (concat (map (render_line w) rs)) = map (render_line w) rs"
  by (induction rs) (simp_all add: render_line_eq raw_lines_line render_line_body)

lemma parse_rendered:
  assumes "\<forall>r\<in>set rs. clean_rendered r"
  shows "parse_hosts (concat (map (render_line w) rs)) = map (\<lambda>r. (re_ipText r, re_hostnames r)) rs"
  using assms render_line_body(2,3) by (simp add: parse_hosts_def raw_lines_rendered)

lemma terminated_rendered: "terminated (concat (map (render_line w) rs))"
proof (cases rs rule: rev_exhaust)
  case (snoc ys y)
  then show ?thesis by (simp add: terminated_def render_line_def)
qed (simp add: terminated_def)

lemma render_cmp_0:
  "render_cmp a b = 0 \<longleftrightarrow> hd (re_hostnames a) = hd (re_hostnames b) \<and> re_network a = re_network b \<and> re_ip a = re_ip b"
  by (auto simp: render_cmp_def addr_Compare_0_iff)

lemma max_width_perm:
  assumes "mset xs = mset ys"
  shows "foldl (\<lambda>m r. max m (f r)) (0::nat) xs = foldl (\<lambda>m r. max m (f r)) 0 ys"
proof -
  have "fold (\<lambda>r m. max m (f r)) xs = fold (\<lambda>r m. max m (f r)) ys"
    by (rule fold_multiset_equiv) (auto simp: assms fun_eq_iff)
  then show ?thesis by (simp add: foldl_conv_fold)
qed

text \<open>
  Qualified names of networks without a dot never collide: they agree only when alias and network
  agree.
\<close>

lemma qualified_name_inj:
  assumes "CHR ''.'' \<notin> set m" "CHR ''.'' \<notin> set n"
  shows "a @ ''.'' @ m = b @ ''.'' @ n \<longleftrightarrow> a = b \<and> m = n"
  using split_last_unique [OF assms] by auto

text \<open>A rendered body holds no marker line.\<close>

lemma rendered_body_fits:
  assumes "slices_sort srt" and "renderEndpoints srt eps d = Inr body" and "\<forall>ep\<in>set eps. clean_zone ep"
  shows "body_fits (CHR ''#'' # b) (CHR ''#'' # e) body"
proof -
  let ?sorted = "srt render_cmp (map (render_one d) eps)"
  from assms(2) obtain w where body: "body = concat (map (render_line w) ?sorted)"
    by (auto simp: renderEndpoints_Inr_iff)
  have "\<forall>ep\<in>set eps. validateEndpoint ep = None" using assms(2) by (simp add: renderEndpoints_Inr_iff)
  then have clean: "\<forall>r\<in>set ?sorted. clean_rendered r"
    using assms(3) render_one_clean by (auto simp: slices_sort.set_SortFunc [OF assms(1)])
  have "logical (render_line w r) \<noteq> CHR ''#'' # x" if "r \<in> set ?sorted" for r x
  proof -
    have "clean_rendered r" using clean that by blast
    from render_line_body(2,4) [OF this, of w] show ?thesis by auto
  qed
  then show ?thesis
    unfolding body body_fits_def unmarked_def
    using clean by (simp add: raw_lines_rendered terminated_rendered)
qed

section \<open>What counts as valid\<close>

definition valid_name :: "string \<Rightarrow> bool" where
  "valid_name s \<longleftrightarrow> s \<noteq> [] \<and> list_all (\<lambda>r. \<not> IsSpace r \<and> \<not> IsControl r \<and> r \<noteq> 35) (runes s)"

definition valid_endpoint :: "endpoint \<Rightarrow> bool" where
  "valid_endpoint ep \<longleftrightarrow>
     IP ep \<noteq> AddrZero \<and> valid_name (Network ep) \<and> Aliases ep \<noteq> [] \<and> list_all valid_name (Aliases ep)"

section \<open>A worked snapshot\<close>

text \<open>Two containers with the same alias on the default network and on another one.\<close>

lemmas render_eval =
  renderEndpoints_def validateNetwork_def validateEndpoint_def validateHostnamePart_def
  runes_all_ascii delimiter_rune_def IsSpace_def IsControl_def IsValid_def render_one_def string4_def
  octet_def dec_nat.simps char_of_digits hostnames_of_def insertionSort_def render_cmp_def
  cmp_Compare_def addr_Compare_def render_line_def pad_right_def RuneCount_ascii

definition ex_backend :: endpoint where
  "ex_backend = \<lparr>Network = ''backend'', IP = V4 0xAC140002, Aliases = [''radarr'']\<rparr>"

definition ex_saltbox :: endpoint where
  "ex_saltbox = \<lparr>Network = ''saltbox'', IP = V4 0xAC120002, Aliases = [''radarr'']\<rparr>"

definition ex_body :: string where
  "ex_body = ''172.18.0.2 radarr radarr.saltbox'' @ [NL] @ ''172.20.0.2 radarr.backend'' @ [NL]"

lemma ex_render: "renderEndpoints insertionSort [ex_backend, ex_saltbox] ''saltbox'' = Inr ex_body"
  by (simp add: ex_backend_def ex_saltbox_def ex_body_def render_eval)

lemma ex_clean_zone: "\<forall>ep\<in>set [ex_backend, ex_saltbox]. clean_zone ep"
  by (simp add: ex_backend_def ex_saltbox_def clean_zone_def)

text \<open>The entry of an endpoint, and the line of an entry in a column of the given width.\<close>

definition hosts_entry :: "string \<Rightarrow> endpoint \<Rightarrow> string \<times> string list" where
  "hosts_entry d ep = (addr_String (IP ep), hostnames_of d ep)"

definition hosts_line :: "nat \<Rightarrow> string \<times> string list \<Rightarrow> string" where
  "hosts_line w entry = pad_right w (fst entry) @ '' '' @ Join (snd entry) '' '' @ [NL]"

text \<open>What a rendered body consists of, and what it reads back as.\<close>

lemma rendered_body_lines:
  assumes "slices_sort srt" and "renderEndpoints srt eps d = Inr body"
  obtains w entries where "body = concat (map (hosts_line w) entries)" "mset entries = mset (map (hosts_entry d) eps)"
    "sorted (map (\<lambda>(ip, names). hd names) entries)" "(\<forall>ep\<in>set eps. clean_zone ep) \<longrightarrow> parse_hosts body = entries"
proof -
  let ?rs = "map (render_one d) eps"
  let ?sorted = "srt render_cmp ?rs"
  let ?entry = "\<lambda>r. (re_ipText r, re_hostnames r)"
  from assms(2) obtain w where body: "body = concat (map (render_line w) ?sorted)"
    and valid: "\<forall>ep\<in>set eps. validateEndpoint ep = None" by (auto simp: renderEndpoints_Inr_iff)
  have mset: "mset ?sorted = mset ?rs" using assms(1) by (rule slices_sort.perm)
  have "parse_hosts body = map ?entry ?sorted" if "\<forall>ep\<in>set eps. clean_zone ep"
    unfolding body using valid that render_one_clean
    by (intro parse_rendered) (auto simp: slices_sort.set_SortFunc [OF assms(1)])
  moreover have "mset (map ?entry ?sorted) = image_mset ?entry (mset ?rs)" using mset by (simp only: mset_map)
  then have "mset (map ?entry ?sorted) = mset (map (hosts_entry d) eps)"
    by (simp add: render_one_def hosts_entry_def [abs_def] image_mset.compositionality comp_def)
  moreover have "sorted_wrt (\<lambda>a b. render_cmp a b \<le> 0) ?sorted"
    using assms(1) weak_order_render_cmp by (rule slices_sort.sorts)
  then have "sorted (map (\<lambda>r. hd (re_hostnames r)) ?sorted)"
    unfolding sorted_map
    by (rule sorted_wrt_mono_rel [rotated]) (auto simp: render_cmp_def split: if_splits)
  moreover have "body = concat (map (hosts_line w) (map ?entry ?sorted))"
    by (simp add: body hosts_line_def [abs_def] render_line_def [abs_def] comp_def)
  ultimately show thesis using that [of w "map ?entry ?sorted"] by (simp add: comp_def)
qed

section \<open>Properties\<close>



text \<open>
  The rendered names of an endpoint, in increasing order and each once: \<open>alias.network\<close> for
  every alias, and the bare alias for endpoints of the default network only.
\<close>

lemma hostnames_of_spec:
  "sorted (hostnames_of d ep) \<and> distinct (hostnames_of d ep) \<and>
   set (hostnames_of d ep) =
     {a @ ''.'' @ Network ep | a. a \<in> set (Aliases ep)} \<union> {a. a \<in> set (Aliases ep) \<and> Network ep = d}"
proof -
  have "sorted (hostnames_of d ep)" "distinct (hostnames_of d ep)"
    by (simp_all add: hostnames_of_def)
  moreover have "set (hostnames_of d ep) =
     {a @ ''.'' @ Network ep | a. a \<in> set (Aliases ep)} \<union> {a. a \<in> set (Aliases ep) \<and> Network ep = d}"
    by (auto simp: set_hostnames_of)
  ultimately show ?thesis by blast
qed

text \<open>
  C26. Rendering is deterministic: whichever way the snapshot is ordered, and however ties are broken
  by the sort, the body is the same, provided endpoints that agree on first host name, network and
  address agree on all their names.
\<close>

theorem renderEndpoints_deterministic:
  assumes "slices_sort srt" and "slices_sort srt'" and "renderEndpoints srt eps d = Inr body"
    and "mset eps = mset eps'"
    and "\<forall>x\<in>set eps. \<forall>y\<in>set eps.
      hd (hostnames_of d x) = hd (hostnames_of d y) \<and> Network x = Network y \<and> IP x = IP y \<longrightarrow>
      hostnames_of d x = hostnames_of d y"
  shows "renderEndpoints srt' eps' d = Inr body"
proof -
  let ?rs = "map (render_one d) eps" and ?rs' = "map (render_one d) eps'"
  have m: "mset ?rs = mset ?rs'" using assms(4) by simp
  have sets: "set eps' = set eps" using assms(4) by (metis mset_eq_setD)
  have ties: "x = y" if "x \<in> set ?rs" "y \<in> set ?rs" "render_cmp x y = 0" for x y
  proof -
    from that(1,2) obtain p q where pq: "p \<in> set eps" "q \<in> set eps" "x = render_one d p" "y = render_one d q"
      by auto
    with that(3) have "hd (hostnames_of d p) = hd (hostnames_of d q) \<and> Network p = Network q \<and> IP p = IP q"
      by (simp add: render_cmp_0 render_one_def)
    moreover from this pq(1,2) assms(5) have "hostnames_of d p = hostnames_of d q" by blast
    ultimately show ?thesis using pq by (simp add: render_one_def)
  qed
  have "srt render_cmp ?rs = srt' render_cmp ?rs'"
  proof (rule sorted_wrt_mset_unique [where P = "\<lambda>a b. render_cmp a b \<le> 0"])
    show "sorted_wrt (\<lambda>a b. render_cmp a b \<le> 0) (srt render_cmp ?rs)"
      "sorted_wrt (\<lambda>a b. render_cmp a b \<le> 0) (srt' render_cmp ?rs')"
      using slices_sort.sorts [OF _ weak_order_render_cmp] assms(1,2) by auto
    show "mset (srt render_cmp ?rs) = mset (srt' render_cmp ?rs')"
      using m by (simp add: slices_sort.perm [OF assms(1)] slices_sort.perm [OF assms(2)])
    show "\<And>x y. x \<in> set (srt render_cmp ?rs) \<Longrightarrow> y \<in> set (srt render_cmp ?rs) \<Longrightarrow>
        render_cmp x y \<le> 0 \<Longrightarrow> render_cmp y x \<le> 0 \<Longrightarrow> x = y"
      using ties weak_order_0 [OF weak_order_render_cmp] slices_sort.set_SortFunc [OF assms(1)] by blast
  qed
  with max_width_perm [OF m] assms(3) sets show ?thesis by (simp add: renderEndpoints_Inr_iff)
qed

theorem renderEndpoints_deterministic_witness:
  "renderEndpoints insertionSort [ex_saltbox, ex_backend] ''saltbox'' = Inr ex_body"
proof (rule renderEndpoints_deterministic
    [OF go_insertion.slices_sort_axioms go_insertion.slices_sort_axioms ex_render])
  show "mset [ex_backend, ex_saltbox] = mset [ex_saltbox, ex_backend]" by simp
  show "\<forall>x\<in>set [ex_backend, ex_saltbox]. \<forall>y\<in>set [ex_backend, ex_saltbox].
      hd (hostnames_of ''saltbox'' x) = hd (hostnames_of ''saltbox'' y) \<and> Network x = Network y \<and> IP x = IP y \<longrightarrow>
      hostnames_of ''saltbox'' x = hostnames_of ''saltbox'' y"
    by (simp add: ex_backend_def ex_saltbox_def)
qed

text \<open>
  Rendering succeeds exactly on valid data: a valid default network, and for every endpoint a
  valid address, a valid network, at least one alias and only valid aliases, where a valid name is
  not empty and holds no space, control character or number sign in any encoding Go decodes.
\<close>

lemma renderEndpoints_accepts_iff:
  "(\<exists>body. renderEndpoints srt eps d = Inr body) \<longleftrightarrow> valid_name d \<and> list_all valid_endpoint eps"
proof -
  have n: "validateNetwork s = None \<longleftrightarrow> valid_name s" "validateHostnamePart s = None \<longleftrightarrow> valid_name s" for s
    by (auto simp: validateNetwork_def validateHostnamePart_def valid_name_def delimiter_rune_def
        list_ex_iff list_all_iff)
  then have "validateEndpoint ep = None \<longleftrightarrow> valid_endpoint ep" for ep
    by (auto simp: validateEndpoint_None_iff valid_endpoint_def IsValid_def list_all_iff)
  with n show ?thesis by (auto simp: renderEndpoints_Inr_iff list_all_iff)
qed

section \<open>Limits\<close>

text \<open>
  Two limits of the rules for names. Qualified names of different networks can be equal, when the name of a
  network has a dot; and an address is accepted with any zone, whatever bytes it has.
\<close>

lemma qualified_names_can_collide:
  "(\<exists>body. renderEndpoints insertionSort
      [\<lparr>Network = ''b.c'', IP = V4 1, Aliases = [''a'']\<rparr>, \<lparr>Network = ''c'', IP = V4 2, Aliases = [''a.b'']\<rparr>] ''saltbox'' = Inr body) \<and>
   hostnames_of ''saltbox'' \<lparr>Network = ''b.c'', IP = V4 1, Aliases = [''a'']\<rparr> =
   hostnames_of ''saltbox'' \<lparr>Network = ''c'', IP = V4 2, Aliases = [''a.b'']\<rparr>"
proof -
  have "\<exists>body. renderEndpoints insertionSort
      [\<lparr>Network = ''b.c'', IP = V4 1, Aliases = [''a'']\<rparr>, \<lparr>Network = ''c'', IP = V4 2, Aliases = [''a.b'']\<rparr>] ''saltbox'' = Inr body"
    by (simp add: renderEndpoints_def validateNetwork_def validateEndpoint_def validateHostnamePart_def
        runes_all_ascii delimiter_rune_def IsSpace_def IsControl_def IsValid_def)
  then show ?thesis by (simp add: hostnames_of_def)
qed

lemma zone_is_not_validated: "validateEndpoint ep = None \<Longrightarrow> validateEndpoint (ep\<lparr>IP := V6 w zone\<rparr>) = None"
  by (simp add: validateEndpoint_def IsValid_def split: if_splits option.splits)

end
