(* ===== verification/Store.thy ===== *)
theory Store
  imports Atomic_File Render
begin

text \<open>
  The managed hosts file and its backup (the upper half of \<open>hosts/store.go\<close>): \<open>Prepare\<close>
  makes sure there is a managed section, \<open>Apply\<close> replaces it by a rendered snapshot,
  \<open>Regenerate\<close> writes a fresh hosts file. Each is a transaction over two files, built from
  the replacements of \<open>Atomic_File\<close>.
\<close>

section \<open>The operations\<close>

record Store =
  store_ops :: fileOps
  hostsPath :: string
  backupPath :: string
  beginMarker :: string
  endMarker :: string
  defaultNetwork :: string
  hostname :: "go_error + string"     \<comment> \<open>what \<open>os.Hostname\<close> returns\<close>

definition NewStore :: "fileOps \<Rightarrow> go_error + string \<Rightarrow> string \<Rightarrow> string \<Rightarrow> string \<Rightarrow> string \<Rightarrow> Store" where
  "NewStore osFileOps os_Hostname hostsFile backupFile sectionName network =
     \<lparr>store_ops = osFileOps, hostsPath = hostsFile, backupPath = backupFile,
      beginMarker = ''# BEGIN '' @ sectionName, endMarker = ''# END '' @ sectionName,
      defaultNetwork = network, hostname = os_Hostname\<rparr>"

definition rollbackTimeout :: int where
  "rollbackTimeout = 5 * 1000000000"

definition defaultFileMetadata :: "fileOps \<Rightarrow> fileMetadata" where
  "defaultFileMetadata ops = \<lparr>mode = 0x1A4, uid = op_uid ops, gid = op_gid ops, setOwnership = True\<rparr>"

definition freshHostsFile :: "string \<Rightarrow> string \<Rightarrow> string \<Rightarrow> string" where
  "freshHostsFile host begin_marker end_marker =
     ''127.0.0.1'' @ [CHR 0x09] @ ''localhost'' @ [NL] @
     ''127.0.1.1'' @ [CHR 0x09] @ host @ [NL] @
     [NL] @
     ''# The following lines are desirable for IPv6 capable hosts'' @ [NL] @
     ''::1'' @ [CHR 0x09] @ ''ip6-localhost ip6-loopback'' @ [NL] @
     ''fe00::0'' @ [CHR 0x09] @ ''ip6-localnet'' @ [NL] @
     ''ff00::0'' @ [CHR 0x09] @ ''ip6-mcastprefix'' @ [NL] @
     ''ff02::1'' @ [CHR 0x09] @ ''ip6-allnodes'' @ [NL] @
     ''ff02::2'' @ [CHR 0x09] @ ''ip6-allrouters'' @ [NL] @
     ''ff02::3'' @ [CHR 0x09] @ ''ip6-allhosts'' @ [NL] @
     [NL] @
     begin_marker @ [NL] @ end_marker @ [NL]"

definition appendEmptySection :: "string \<Rightarrow> string \<Rightarrow> string \<Rightarrow> string" where
  "appendEmptySection data begin_marker end_marker =
     (if 0 < length data \<and> data ! (length data - 1) \<noteq> NL then data @ [NL] else data) @
     begin_marker @ [NL] @ end_marker @ [NL]"

definition requireValidMarkers :: "string \<Rightarrow> string \<Rightarrow> string \<Rightarrow> err" where
  "requireValidMarkers data begin_marker end_marker =
     (case locateMarkers data begin_marker end_marker of
        Inl e \<Rightarrow> Some e
      | Inr (state, _) \<Rightarrow>
          if state \<noteq> ValidMarkers then Some (errors_New ''managed markers are missing'') else None)"

definition ensureBackupMatches :: "Store \<Rightarrow> ctx \<Rightarrow> string \<Rightarrow> fileMetadata \<Rightarrow> world \<Rightarrow> err \<times> world" where
  "ensureBackupMatches s c validTarget targetMetadata w =
     (case readOptionalRegularFile (store_ops s) (backupPath s) w of
        ((backup, metadata, ex, e), w) \<Rightarrow>
          (case e of
             Some e \<Rightarrow> (Some (wrap ''inspect backup: '' e), w)
           | None \<Rightarrow>
               if ex \<and> backup = validTarget then (None, w)
               else
                 let backupSnapshot = \<lparr>snap_data = backup, snap_metadata = metadata, snap_exists = ex\<rparr>;
                     metadata = (if \<not> ex then targetMetadata else metadata)
                 in (case replaceFileIfUnchanged (store_ops s) c (backupPath s) validTarget metadata backupSnapshot w of
                       ((_, Some e), w) \<Rightarrow> (Some (wrap ''refresh backup mirror: '' e), w)
                     | ((_, None), w) \<Rightarrow> (None, w))))"

definition rollbackTarget ::
  "Store \<Rightarrow> string \<Rightarrow> string \<Rightarrow> fileMetadata \<Rightarrow> fileSnapshot \<Rightarrow> world \<Rightarrow> err \<times> world" where
  "rollbackTarget s target retainedValidatedBytes metadata expected w =
     restoreTargetIfUnchanged (store_ops s)
       (WithTimeout_WithoutCancel (store_ops s) rollbackTimeout (w_clock w))
       target retainedValidatedBytes metadata expected w"

definition initializeManagedSection ::
  "Store \<Rightarrow> ctx \<Rightarrow> string \<Rightarrow> string \<Rightarrow> fileMetadata \<Rightarrow> world \<Rightarrow> err \<times> world" where
  "initializeManagedSection s c current proposed targetMetadata w =
     (case ensureBackupMatches s c proposed targetMetadata w of
        (Some e, w) \<Rightarrow> (Some (wrap ''seed initialized backup: '' e), w)
      | (None, w) \<Rightarrow>
          (case replaceFileIfUnchanged (store_ops s) c (hostsPath s) proposed targetMetadata
                  \<lparr>snap_data = current, snap_metadata = targetMetadata, snap_exists = True\<rparr> w of
             ((renamed, None), w) \<Rightarrow> (None, w)
           | ((renamed, Some e), w) \<Rightarrow>
               let primaryErr = wrap ''initialize managed section: '' e
               in if \<not> renamed then (Some primaryErr, w)
                  else (case rollbackTarget s (hostsPath s) current targetMetadata
                          \<lparr>snap_data = proposed, snap_metadata = targetMetadata, snap_exists = True\<rparr> w of
                          (rollbackErr, w) \<Rightarrow> (errors_Join [Some primaryErr, rollbackErr], w))))"

text \<open>The second half of \<open>applyReplacement\<close>: the target, once the backup holds the current bytes.\<close>

definition commitTarget ::
  "Store \<Rightarrow> ctx \<Rightarrow> string \<Rightarrow> string \<Rightarrow> fileMetadata \<Rightarrow> fileMetadata \<Rightarrow> world \<Rightarrow> err \<times> world" where
  "commitTarget s c current proposed targetMetadata newBackupMetadata w =
     (case replaceFileIfUnchanged (store_ops s) c (hostsPath s) proposed targetMetadata
             \<lparr>snap_data = current, snap_metadata = targetMetadata, snap_exists = True\<rparr> w of
        ((renamed, None), w) \<Rightarrow>
          (case ensureBackupMatches s c proposed newBackupMetadata w of
             (Some e, w) \<Rightarrow> (Some (wrap ''refresh committed backup: '' e), w)
           | (None, w) \<Rightarrow> (None, w))
      | ((renamed, Some e), w) \<Rightarrow>
          let primaryErr = wrap ''replace hosts file: '' e
          in if \<not> renamed then (Some primaryErr, w)
             else (case rollbackTarget s (hostsPath s) current targetMetadata
                     \<lparr>snap_data = proposed, snap_metadata = targetMetadata, snap_exists = True\<rparr> w of
                     (None, w) \<Rightarrow> (Some (Wrapf [] primaryErr [Lit ''; target restored from retained snapshot'']), w)
                   | (Some rollbackErr, w) \<Rightarrow>
                       (Some (Joined [primaryErr,
                          wrap ''restore target after replacement failure: '' rollbackErr]), w)))"

definition applyReplacement ::
  "Store \<Rightarrow> ctx \<Rightarrow> string \<Rightarrow> string \<Rightarrow> fileMetadata \<Rightarrow> fileMetadata \<Rightarrow> world \<Rightarrow> err \<times> world" where
  "applyReplacement s c current proposed targetMetadata newBackupMetadata w =
     (case readOptionalRegularFile (store_ops s) (backupPath s) w of
        ((backup, backupMetadata, ex, e), w) \<Rightarrow>
          (case e of
             Some e \<Rightarrow> (Some (wrap ''inspect backup: '' e), w)
           | None \<Rightarrow>
               let backupSnapshot = \<lparr>snap_data = backup, snap_metadata = backupMetadata, snap_exists = ex\<rparr>;
                   backupMetadata = (if \<not> ex then newBackupMetadata else backupMetadata)
               in if \<not> ex \<or> backup \<noteq> current then
                    (case replaceFileIfUnchanged (store_ops s) c (backupPath s) current backupMetadata backupSnapshot w of
                       ((_, Some e), w) \<Rightarrow> (Some (wrap ''refresh backup: '' e), w)
                     | ((_, None), w) \<Rightarrow>
                         commitTarget s c current proposed targetMetadata newBackupMetadata w)
                  else commitTarget s c current proposed targetMetadata newBackupMetadata w))"

record PrepareResult =
  RecoveredFromBackup :: bool

definition Prepare :: "Store \<Rightarrow> ctx \<Rightarrow> world \<Rightarrow> (PrepareResult \<times> err) \<times> world" where
  "Prepare s c w =
     (let none = \<lparr>RecoveredFromBackup = False\<rparr> in
      case checkContext c ''prepare hosts file'' w of
        Some e \<Rightarrow> ((none, Some e), w)
      | None \<Rightarrow>
        (case readRegularFile (store_ops s) (hostsPath s) w of
           (Inl e, w) \<Rightarrow> ((none, Some (wrap ''read hosts file: '' e)), w)
         | (Inr (current, metadata), w) \<Rightarrow>
           (case locateMarkers current (beginMarker s) (endMarker s) of
              Inr (ValidMarkers, _) \<Rightarrow>
                (case ensureBackupMatches s c current metadata w of (e, w) \<Rightarrow> ((none, e), w))
            | Inr (NoMarkers, _) \<Rightarrow>
                (let proposed = appendEmptySection current (beginMarker s) (endMarker s) in
                 case requireValidMarkers proposed (beginMarker s) (endMarker s) of
                   Some e \<Rightarrow> ((none, Some (wrap ''validate initialized hosts file: '' e)), w)
                 | None \<Rightarrow>
                     (case initializeManagedSection s c current proposed metadata w of
                        (e, w) \<Rightarrow> ((none, e), w)))
            | Inl markerErr \<Rightarrow>
                (case readRegularFile (store_ops s) (backupPath s) w of
                   (Inl e, w) \<Rightarrow>
                     ((none, Some (wrap ''recover corrupt hosts file: '' (Joined [markerErr, e]))), w)
                 | (Inr (backup, _), w) \<Rightarrow>
                     (case requireValidMarkers backup (beginMarker s) (endMarker s) of
                        Some e \<Rightarrow>
                          ((none, Some (wrap ''recover corrupt hosts file: invalid backup: ''
                              (Joined [markerErr, e]))), w)
                      | None \<Rightarrow>
                          (case restoreTargetIfUnchanged (store_ops s) c (hostsPath s) backup metadata
                                  \<lparr>snap_data = current, snap_metadata = metadata, snap_exists = True\<rparr> w of
                             (Some e, w) \<Rightarrow> ((none, Some (wrap ''recover corrupt hosts file: '' e)), w)
                           | (None, w) \<Rightarrow> ((\<lparr>RecoveredFromBackup = True\<rparr>, None), w)))))))"

definition Apply ::
  "((renderedEndpoint \<Rightarrow> renderedEndpoint \<Rightarrow> int) \<Rightarrow> renderedEndpoint list \<Rightarrow> renderedEndpoint list) \<Rightarrow>
     Store \<Rightarrow> ctx \<Rightarrow> endpoint list \<Rightarrow> world \<Rightarrow> err \<times> world" where
  "Apply SortFunc s c endpoints w =
     (case checkContext c ''apply hosts snapshot'' w of
        Some e \<Rightarrow> (Some e, w)
      | None \<Rightarrow>
        (case readRegularFile (store_ops s) (hostsPath s) w of
           (Inl e, w) \<Rightarrow> (Some (wrap ''read hosts file: '' e), w)
         | (Inr (current, metadata), w) \<Rightarrow>
           (case locateMarkers current (beginMarker s) (endMarker s) of
              Inl e \<Rightarrow> (Some (wrap ''validate hosts file: '' e), w)
            | Inr (state, sec) \<Rightarrow>
                if state \<noteq> ValidMarkers
                then (Some (errors_New ''validate hosts file: managed markers are missing''), w)
                else
                  (case renderEndpoints SortFunc endpoints (defaultNetwork s) of
                     Inl e \<Rightarrow> (Some (wrap ''render hosts entries: '' e), w)
                   | Inr body \<Rightarrow>
                       let proposed = replaceManagedSection current sec body in
                       (case requireValidMarkers proposed (beginMarker s) (endMarker s) of
                          Some e \<Rightarrow> (Some (wrap ''validate proposed hosts file: '' e), w)
                        | None \<Rightarrow>
                            if current = proposed then ensureBackupMatches s c current metadata w
                            else applyReplacement s c current proposed metadata metadata w)))))"

definition Regenerate :: "Store \<Rightarrow> ctx \<Rightarrow> world \<Rightarrow> err \<times> world" where
  "Regenerate s c w =
     (case checkContext c ''regenerate hosts file'' w of
        Some e \<Rightarrow> (Some e, w)
      | None \<Rightarrow>
        (case hostname s of
           Inl e \<Rightarrow> (Some (wrap ''read system hostname: '' e), w)
         | Inr host \<Rightarrow>
           (case validateHostnamePart host of
              Some e \<Rightarrow> (Some (Wrapf [Lit ''system hostname '', Quoted host, Lit '': ''] e []), w)
            | None \<Rightarrow>
              (let fresh = freshHostsFile host (beginMarker s) (endMarker s) in
               case requireValidMarkers fresh (beginMarker s) (endMarker s) of
                 Some e \<Rightarrow> (Some (wrap ''validate regenerated hosts file: '' e), w)
               | None \<Rightarrow>
                 (case readOptionalRegularFile (store_ops s) (hostsPath s) w of
                    ((current, targetMetadata, targetExists, e), w) \<Rightarrow>
                      (case e of
                         Some e \<Rightarrow> (Some (wrap ''inspect hosts file: '' e), w)
                       | None \<Rightarrow>
                         (let targetMetadata =
                                (if \<not> targetExists then defaultFileMetadata (store_ops s) else targetMetadata)
                          in if targetExists \<and> requireValidMarkers current (beginMarker s) (endMarker s) = None
                             then applyReplacement s c current fresh targetMetadata
                                    (defaultFileMetadata (store_ops s)) w
                             else
                               (case ensureBackupMatches s c fresh (defaultFileMetadata (store_ops s)) w of
                                  (Some e, w) \<Rightarrow> (Some (wrap ''seed regenerated backup: '' e), w)
                                | (None, w) \<Rightarrow>
                                    (case replaceFileIfUnchanged (store_ops s) c (hostsPath s) fresh targetMetadata
                                            \<lparr>snap_data = current, snap_metadata = targetMetadata,
                                             snap_exists = targetExists\<rparr> w of
                                       ((_, Some e), w) \<Rightarrow>
                                         (Some (wrap ''replace hosts file with regenerated content: '' e), w)
                                     | ((_, None), w) \<Rightarrow> (None, w))))))))))"

section \<open>The two files of a store\<close>

text \<open>What the hosts file and the backup may show.\<close>

definition files :: "Store \<Rightarrow> (inode option \<Rightarrow> bool) \<Rightarrow> (inode option \<Rightarrow> bool) \<Rightarrow> string \<Rightarrow> inode option \<Rightarrow> bool" where
  "files s H B p v = (if p = hostsPath s then H v else if p = backupPath s then B v else True)"

definition file_with :: "(string \<Rightarrow> bool) \<Rightarrow> inode option \<Rightarrow> bool" where
  "file_with P v = (case v of None \<Rightarrow> False | Some nd \<Rightarrow> IsRegular (i_mode nd) \<and> P (i_data nd))"

lemma file_with_new_inode [simp]: "file_with P (Some (new_inode ops d m)) = P d"
  by (simp add: file_with_def)

lemma tracked_hosts: "view fs (backupPath s) \<noteq> None \<Longrightarrow> tracked_exist (files s H B) (hostsPath s) fs"
  by (auto simp: tracked_exist_def files_def split: if_splits)

lemma tracked_backup: "view fs (hostsPath s) \<noteq> None \<Longrightarrow> tracked_exist (files s H B) (backupPath s) fs"
  by (auto simp: tracked_exist_def files_def split: if_splits)

lemma looking_calm: "looking w w' \<Longrightarrow> calm ops w \<Longrightarrow> calm ops w'"
  using looking_fs during_clock quiet_mono unfolding calm_def by metis

lemma calm_quiet: "calm ops w \<Longrightarrow> quiet ops (w_clock w)"
  by (simp add: calm_def)

lemma during_view_some:
  assumes "during (allowed (files s H B)) w w'" "\<not> H None"
  shows "view (w_fs w') (hostsPath s) \<noteq> None"
  using during_end [OF assms(1)] assms(2) unfolding allowed_def files_def by metis

text \<open>The backup mirror.\<close>

lemma ensureBackup_spec:
  assumes run: "ensureBackupMatches s c d m w = (e, w')" and c: "calm (store_ops s) w"
  shows "calm (store_ops s) w'"
    and "p \<noteq> backupPath s \<Longrightarrow> view (w_fs w) p \<noteq> None \<Longrightarrow> view (w_fs w') p = view (w_fs w) p"
    and "e = None \<Longrightarrow> file_with (\<lambda>x. x = d) (view (w_fs w') (backupPath s))"
    and "view (w_fs w) (backupPath s) \<noteq> None \<Longrightarrow> view (w_fs w') (backupPath s) \<noteq> None"
    and "allowed A (w_fs w) \<Longrightarrow> tracked_exist A (backupPath s) (w_fs w) \<Longrightarrow>
      (\<And>m'. A (backupPath s) (Some (new_inode (store_ops s) d m'))) \<Longrightarrow> during (allowed A) w w'"
    and "p \<noteq> backupPath s \<Longrightarrow> view (w_fs w) p \<noteq> None \<Longrightarrow>
      disk (w_fs w') p = disk (w_fs w) p \<or> disk (w_fs w') p = view (w_fs w) p"
proof -
  let ?ops = "store_ops s" and ?B = "backupPath s"
  obtain bk md ex e1 w1 where rd: "readOptionalRegularFile ?ops ?B w = ((bk, md, ex, e1), w1)"
    by (metis prod.exhaust)
  note rs = readOptional_spec [OF rd calm_quiet [OF c]]
  have l1: "looking w w1" using rs by blast
  note fs1 = looking_fs [OF l1] and c1 = looking_calm [OF l1 c]
  let ?m = "if \<not> ex then m else md"
  let ?sn = "\<lparr>snap_data = bk, snap_metadata = md, snap_exists = ex\<rparr>"
  obtain ren e2 w2 where rp: "replaceFileIfUnchanged ?ops c ?B d ?m ?sn w1 = ((ren, e2), w2)"
    by (metis prod.exhaust)
  note run' = run [unfolded ensureBackupMatches_def rd prod.case]
  consider (seen) "w' = w1" "e = None \<Longrightarrow> ex \<and> bk = d \<and> e1 = None" | (replaced) "w' = w2" "e = None \<Longrightarrow> e2 = None"
    using run' rp by (auto simp: Let_def split: option.splits if_splits)
  note cases = this
  show "calm ?ops w'" using cases c1 os_replacer.calm_stays [OF c1 rp] by cases auto
  show "view (w_fs w') p = view (w_fs w) p" if "p \<noteq> ?B" "view (w_fs w) p \<noteq> None" for p
    using cases by cases (use fs1 os_replacer.others [OF c1 rp that(1)] that in auto)
  show "file_with (\<lambda>x. x = d) (view (w_fs w') ?B)" if "e = None"
    using cases
  proof cases
    case seen
    with that rs have "shows_file (w_fs w) ?B d md" by auto
    with fs1 seen show ?thesis by (auto simp: shows_file_def file_with_def)
  next
    case replaced
    with that rp os_replacer.success(2) [OF c1, of c ?B d ?m ?sn ren w2] show ?thesis by simp
  qed
  show "view (w_fs w') ?B \<noteq> None" if "view (w_fs w) ?B \<noteq> None"
    using cases
  proof cases
    case replaced
    from during_end [OF os_replacer.old_or_new [OF c1 rp]] that fs1 replaced(1)
    show ?thesis by (auto simp: touches_only_def)
  qed (use that fs1 in simp)
  show "during (allowed A) w w'"
    if A: "allowed A (w_fs w)" "tracked_exist A ?B (w_fs w)" "\<And>m'. A ?B (Some (new_inode ?ops d m'))" for A
  proof -
    have d1: "during (allowed A) w w1" using l1 A(1) by (rule looking_during)
    have "during (allowed A) w1 w2"
      by (rule os_replacer.keeps_allowed [OF c1 rp]) (use A fs1 in auto)
    with d1 have "during (allowed A) w w2" by (rule during_trans)
    with cases d1 show ?thesis by cases auto
  qed
  show "disk (w_fs w') p = disk (w_fs w) p \<or> disk (w_fs w') p = view (w_fs w) p"
    if "p \<noteq> ?B" "view (w_fs w) p \<noteq> None" for p
    using cases
  proof cases
    case replaced
    from during_end [OF os_replacer.old_or_new [OF c1 rp]] that fs1 replaced(1)
    show ?thesis by (auto simp: touches_only_def)
  qed (use fs1 in simp)
qed

lemma rollback_spec:
  assumes run: "rollbackTarget s t d m ex w = (e, w')" and c: "calm (store_ops s) w"
  shows "calm (store_ops s) w'"
    and "e = None \<Longrightarrow> view (w_fs w') t = Some (new_inode (store_ops s) d m) \<and>
      disk (w_fs w') t = Some (new_inode (store_ops s) d m)"
    and "allowed A (w_fs w) \<Longrightarrow> tracked_exist A t (w_fs w) \<Longrightarrow> A t (Some (new_inode (store_ops s) d m)) \<Longrightarrow>
      during (allowed A) w w'"
proof -
  let ?c = "WithTimeout_WithoutCancel (store_ops s) rollbackTimeout (w_clock w)"
  obtain ren e1 w1 where rp: "replaceFileIfUnchanged (store_ops s) ?c t d m ex w = ((ren, e1), w1)"
    by (metis prod.exhaust)
  have r: "w' = w1" "e = None \<Longrightarrow> e1 = None"
    using run rp by (auto simp: rollbackTarget_def restoreTargetIfUnchanged_def split: option.splits)
  show "calm (store_ops s) w'" using os_replacer.calm_stays [OF c rp] r by simp
  show "view (w_fs w') t = Some (new_inode (store_ops s) d m) \<and>
      disk (w_fs w') t = Some (new_inode (store_ops s) d m)" if "e = None"
    using os_replacer.success(2,3) [OF c, of ?c t d m ex ren w1] rp r that by simp
  show "during (allowed A) w w'" if "allowed A (w_fs w)" "tracked_exist A t (w_fs w)"
    "A t (Some (new_inode (store_ops s) d m))"
    using os_replacer.keeps_allowed [OF c rp that(1,3,2)] r by simp
qed

lemma commitTarget_spec:
  assumes run: "commitTarget s c cur new m bm w = (e, w')" and c: "calm (store_ops s) w"
    and ne: "hostsPath s \<noteq> backupPath s" and bex: "view (w_fs w) (backupPath s) \<noteq> None"
  shows "calm (store_ops s) w'"
    and "e = None \<Longrightarrow> view (w_fs w') (hostsPath s) = Some (new_inode (store_ops s) new m) \<and>
      disk (w_fs w') (hostsPath s) = Some (new_inode (store_ops s) new m) \<and>
      file_with (\<lambda>x. x = new) (view (w_fs w') (backupPath s))"
    and "allowed (files s H B) (w_fs w) \<Longrightarrow> \<not> H None \<Longrightarrow>
      H (Some (new_inode (store_ops s) new m)) \<Longrightarrow> H (Some (new_inode (store_ops s) cur m)) \<Longrightarrow>
      (\<And>m'. B (Some (new_inode (store_ops s) new m'))) \<Longrightarrow> during (allowed (files s H B)) w w'"
proof -
  let ?ops = "store_ops s" and ?H = "hostsPath s" and ?B = "backupPath s"
  let ?sn = "\<lparr>snap_data = cur, snap_metadata = m, snap_exists = True\<rparr>"
  let ?sn' = "\<lparr>snap_data = new, snap_metadata = m, snap_exists = True\<rparr>"
  obtain ren e1 w1 where rp: "replaceFileIfUnchanged ?ops c ?H new m ?sn w = ((ren, e1), w1)"
    by (metis prod.exhaust)
  note c1 = os_replacer.calm_stays [OF c rp]
  note b1 = os_replacer.others [OF c rp ne [symmetric] bex]
  obtain e2 w2 where eb: "ensureBackupMatches s c new bm w1 = (e2, w2)" by fastforce
  note es = ensureBackup_spec [OF eb c1]
  obtain e3 w3 where rb: "rollbackTarget s ?H cur m ?sn' w1 = (e3, w3)" by fastforce
  note rs = rollback_spec [OF rb c1]
  consider (committed) "e1 = None" "w' = w2" "e = None \<Longrightarrow> e2 = None" | (refused) "e \<noteq> None" "w' = w1"
    | (rolled) "e \<noteq> None" "w' = w3"
    using run rp eb rb by (auto simp: commitTarget_def Let_def split: option.splits if_splits)
  note cases = this
  show "calm ?ops w'" using cases c1 es(1) rs(1) by cases auto
  show "view (w_fs w') ?H = Some (new_inode ?ops new m) \<and> disk (w_fs w') ?H = Some (new_inode ?ops new m) \<and>
      file_with (\<lambda>x. x = new) (view (w_fs w') ?B)" if "e = None"
    using cases
  proof cases
    case committed
    from os_replacer.success(2,3) [OF c, of c ?H new m ?sn ren w1] rp committed
    have v: "view (w_fs w1) ?H = Some (new_inode ?ops new m)" "disk (w_fs w1) ?H = Some (new_inode ?ops new m)"
      by auto
    with es(2) [OF ne] es(6) [OF ne] es(3) committed that show ?thesis by auto
  qed (use that in auto)
  show "during (allowed (files s H B)) w w'"
    if A: "allowed (files s H B) (w_fs w)" "\<not> H None" "H (Some (new_inode ?ops new m))"
      "H (Some (new_inode ?ops cur m))" "\<And>m'. B (Some (new_inode ?ops new m'))"
  proof -
    have d1: "during (allowed (files s H B)) w w1"
      by (rule os_replacer.keeps_allowed [OF c rp A(1)]) (use A tracked_hosts [OF bex] in \<open>auto simp: files_def\<close>)
    note a1 = during_end [OF d1]
    have "during (allowed (files s H B)) w1 w2"
      by (rule es(5) [OF a1]) (use A ne tracked_backup [OF during_view_some [OF d1 A(2)]] in \<open>auto simp: files_def\<close>)
    moreover have "during (allowed (files s H B)) w1 w3"
      by (rule rs(3) [OF a1]) (use A b1 bex tracked_hosts in \<open>auto simp: files_def\<close>)
    ultimately show ?thesis using cases d1 by cases (auto intro: during_trans)
  qed
qed

lemma applyReplacement_spec:
  assumes run: "applyReplacement s c cur new m bm w = (e, w')" and c: "calm (store_ops s) w"
    and ne: "hostsPath s \<noteq> backupPath s"
  shows "calm (store_ops s) w'"
    and "e = None \<Longrightarrow> view (w_fs w') (hostsPath s) = Some (new_inode (store_ops s) new m) \<and>
      disk (w_fs w') (hostsPath s) = Some (new_inode (store_ops s) new m) \<and>
      file_with (\<lambda>x. x = new) (view (w_fs w') (backupPath s))"
    and "allowed (files s H B) (w_fs w) \<Longrightarrow> \<not> H None \<Longrightarrow>
      H (Some (new_inode (store_ops s) new m)) \<Longrightarrow> H (Some (new_inode (store_ops s) cur m)) \<Longrightarrow>
      (\<And>m'. B (Some (new_inode (store_ops s) new m'))) \<Longrightarrow>
      (\<And>m'. B (Some (new_inode (store_ops s) cur m'))) \<Longrightarrow> during (allowed (files s H B)) w w'"
proof -
  let ?ops = "store_ops s" and ?H = "hostsPath s" and ?B = "backupPath s"
  obtain bk md ex e1 w1 where rd: "readOptionalRegularFile ?ops ?B w = ((bk, md, ex, e1), w1)"
    by (metis prod.exhaust)
  note rs = readOptional_spec [OF rd calm_quiet [OF c]]
  have l1: "looking w w1" using rs by blast
  note fs1 = looking_fs [OF l1] and c1 = looking_calm [OF l1 c]
  let ?m = "if \<not> ex then bm else md"
  let ?sn = "\<lparr>snap_data = bk, snap_metadata = md, snap_exists = ex\<rparr>"
  obtain ren e2 w2 where rp: "replaceFileIfUnchanged ?ops c ?B cur ?m ?sn w1 = ((ren, e2), w2)"
    by (metis prod.exhaust)
  note c2 = os_replacer.calm_stays [OF c1 rp]
  note run' = run [unfolded applyReplacement_def rd prod.case]
  consider (read) "e \<noteq> None" "w' = w1" | (failed) "e \<noteq> None" "w' = w2"
    | (same) "e1 = None" "ex" "commitTarget s c cur new m bm w1 = (e, w')"
    | (refreshed) "e2 = None" "commitTarget s c cur new m bm w2 = (e, w')"
    using run' rp by (auto simp: Let_def split: option.splits if_splits)
  note cases = this
  have bex1: "view (w_fs w1) ?B \<noteq> None" if "ex" "e1 = None"
    using rs that fs1 by (auto simp: shows_file_def)
  have bex2: "view (w_fs w2) ?B \<noteq> None" if "e2 = None"
    using os_replacer.success(2) [OF c1, of c ?B cur ?m ?sn ren w2] rp that by simp
  show "calm ?ops w'"
    using cases by cases (use c1 c2 commitTarget_spec(1) [OF _ c1 ne bex1] commitTarget_spec(1) [OF _ c2 ne bex2] in auto)
  show "view (w_fs w') ?H = Some (new_inode ?ops new m) \<and> disk (w_fs w') ?H = Some (new_inode ?ops new m) \<and>
      file_with (\<lambda>x. x = new) (view (w_fs w') ?B)" if "e = None"
    using cases by cases (use that commitTarget_spec(2) [OF _ c1 ne bex1] commitTarget_spec(2) [OF _ c2 ne bex2] in auto)
  show "during (allowed (files s H B)) w w'"
    if A: "allowed (files s H B) (w_fs w)" "\<not> H None" "H (Some (new_inode ?ops new m))"
      "H (Some (new_inode ?ops cur m))" "\<And>m'. B (Some (new_inode ?ops new m'))"
      "\<And>m'. B (Some (new_inode ?ops cur m'))"
  proof -
    have d1: "during (allowed (files s H B)) w w1" using l1 A(1) by (rule looking_during)
    have "during (allowed (files s H B)) w1 w2"
      by (rule os_replacer.keeps_allowed [OF c1 rp during_end [OF d1]])
         (use A ne tracked_backup [OF during_view_some [OF d1 A(2)]] in \<open>auto simp: files_def\<close>)
    with d1 have d2: "during (allowed (files s H B)) w w2" by (rule during_trans)
    show ?thesis
      using cases
    proof cases
      case same
      from commitTarget_spec(3) [OF same(3) c1 ne bex1 [OF same(2,1)] during_end [OF d1] A(2-5)] d1
      show ?thesis by (rule during_trans [rotated])
    next
      case refreshed
      from commitTarget_spec(3) [OF refreshed(2) c2 ne bex2 [OF refreshed(1)] during_end [OF d2] A(2-5)] d2
      show ?thesis by (rule during_trans [rotated])
    qed (use d1 d2 in auto)
  qed
qed

end
