(* ===== verification/Store_Apply.thy ===== *)
theory Store_Apply
  imports Store
begin

text \<open>
  \<open>Apply\<close>: the contents a snapshot leads to (\<open>apply_to\<close>), the ways a run goes, what the
  hosts file may show while it is under way, what success means, and that it succeeds in a healthy
  environment.
\<close>

section \<open>The markers of a proposed file\<close>

lemma requireValidMarkers_None_iff:
  "b \<noteq> e \<Longrightarrow> requireValidMarkers d b e = None \<longleftrightarrow> marked b e d"
  by (auto simp: requireValidMarkers_def marked_iff split: sum.splits prod.splits markerState.splits)

text \<open>
  The check of the proposed file is enough: a body that ends with a newline and leaves one valid pair
  of markers fits the section, whatever it holds.
\<close>

lemma body_fits_of_marked:
  assumes "marked b e d" and "terminated body" and "marked b e (put_body b e body d)"
  shows "body_fits b e body"
proof -
  obtain pre bl mid el post where ne: "b \<noteq> e" and l: "layout b e d pre bl mid el post"
    using marked_layout [OF assms(1)] by blast
  obtain pre' bl' mid' el' post' where "b \<noteq> e" and
    l': "layout b e (put_body b e body d) pre' bl' mid' el' post'"
    by (rule marked_layout [OF assms(3)])
  from l have lines: "raw_lines d = (pre @ [bl]) @ (mid @ el # post)"
    "raw_lines d = (pre @ bl # mid) @ (el # post)" by (auto simp: layout_def)
  have t: "terminated (concat (pre @ [bl]))"
    using lines(1) raw_lines_prefix_terminated [of d "pre @ [bl]" "hd (mid @ el # post)" "tl (mid @ el # post)"]
    by simp
  have "raw_lines (concat (pre @ [bl])) = pre @ [bl]" "raw_lines (concat (el # post)) = el # post"
    using raw_lines_split lines by blast+
  then have "raw_lines (put_body b e body d) = pre @ bl # raw_lines body @ el # post"
    using raw_lines_append [OF t] raw_lines_append [OF assms(2)] layout_parts(3) [OF ne l] by simp
  with l' have eq: "pre @ bl # raw_lines body @ el # post = pre' @ bl' # mid' @ el' # post'"
    by (simp add: layout_def)
  have zero: "hits b xs = 0 \<and> hits e xs = 0" if "unmarked b e xs" for xs
    using that by (auto simp: unmarked_def filter_empty_conv)
  have marks: "logical bl = b" "logical el = e" "logical bl' = b" "logical el' = e"
    "unmarked b e pre" "unmarked b e post" "unmarked b e pre'" "unmarked b e mid'" "unmarked b e post'"
    using l l' by (auto simp: layout_def)
  have "hits b (pre @ bl # raw_lines body @ el # post) = 1" "hits e (pre @ bl # raw_lines body @ el # post) = 1"
    unfolding eq using marks zero ne by auto
  then have "hits b (raw_lines body) = 0" "hits e (raw_lines body) = 0"
    using marks zero ne by auto
  then show ?thesis using hits_0 [OF ne] assms(2) by (simp add: body_fits_def)
qed

lemma rendered_terminated: "renderEndpoints srt eps d = Inr body \<Longrightarrow> terminated body"
  by (auto simp: renderEndpoints_Inr_iff terminated_rendered)

section \<open>Apply\<close>

text \<open>The contents a snapshot of endpoints leads to; the file itself when it cannot be applied.\<close>

definition apply_to ::
  "((renderedEndpoint \<Rightarrow> renderedEndpoint \<Rightarrow> int) \<Rightarrow> renderedEndpoint list \<Rightarrow> renderedEndpoint list) \<Rightarrow>
     Store \<Rightarrow> endpoint list \<Rightarrow> string \<Rightarrow> string" where
  "apply_to srt s eps d =
     (case renderEndpoints srt eps (defaultNetwork s) of
        Inl _ \<Rightarrow> d
      | Inr body \<Rightarrow>
          if marked (beginMarker s) (endMarker s) d \<and>
             marked (beginMarker s) (endMarker s) (put_body (beginMarker s) (endMarker s) body d)
          then put_body (beginMarker s) (endMarker s) body d else d)"

lemma apply_to_outside:
  assumes "marked (beginMarker s) (endMarker s) d"
  shows "marked (beginMarker s) (endMarker s) (apply_to srt s eps d)"
    and "outside (beginMarker s) (endMarker s) (apply_to srt s eps d) = outside (beginMarker s) (endMarker s) d"
proof -
  have fits: "body_fits (beginMarker s) (endMarker s) body"
    if "renderEndpoints srt eps (defaultNetwork s) = Inr body"
      "marked (beginMarker s) (endMarker s) (put_body (beginMarker s) (endMarker s) body d)" for body
    using body_fits_of_marked [OF assms rendered_terminated [OF that(1)] that(2)] .
  show "marked (beginMarker s) (endMarker s) (apply_to srt s eps d)"
    using assms by (auto simp: apply_to_def split: sum.splits)
  show "outside (beginMarker s) (endMarker s) (apply_to srt s eps d) = outside (beginMarker s) (endMarker s) d"
    using assms fits hosts_section.outer_put by (auto simp: apply_to_def split: sum.splits)
qed

lemma apply_to_body:
  assumes "apply_to srt s eps d = put_body (beginMarker s) (endMarker s) body d"
    and "marked (beginMarker s) (endMarker s) d"
    and "marked (beginMarker s) (endMarker s) (put_body (beginMarker s) (endMarker s) body d)"
    and "renderEndpoints srt eps (defaultNetwork s) = Inr body"
  shows "managed_body (beginMarker s) (endMarker s) (apply_to srt s eps d) = body"
  using assms body_fits_of_marked [OF assms(2) rendered_terminated [OF assms(4)] assms(3)]
    hosts_section.get_put by simp

text \<open>
  The ways a run of \<open>Apply\<close> goes: it stops before touching any file, it only mirrors an
  unchanged file to the backup, or it replaces the hosts file.
\<close>

lemma Apply_cases:
  assumes run: "Apply srt s c eps w = (e, w')" and calm: "calm (store_ops s) w"
    and ne: "beginMarker s \<noteq> endMarker s"
  obtains (stopped) "e \<noteq> None" "looking w w'"
    | (started) d m body w1 where "looking w w1" "calm (store_ops s) w1"
        "shows_file (w_fs w) (hostsPath s) d m"
        "renderEndpoints srt eps (defaultNetwork s) = Inr body"
        "marked (beginMarker s) (endMarker s) d"
        "marked (beginMarker s) (endMarker s) (put_body (beginMarker s) (endMarker s) body d)"
        "apply_to srt s eps d = put_body (beginMarker s) (endMarker s) body d"
        "(if d = apply_to srt s eps d then ensureBackupMatches s c d m w1
          else applyReplacement s c d (apply_to srt s eps d) m m w1) = (e, w')"
proof -
  let ?b = "beginMarker s" and ?e = "endMarker s"
  obtain r w1 where rd: "readRegularFile (store_ops s) (hostsPath s) w = (r, w1)" by fastforce
  note rs = readRegular_spec [OF rd calm_quiet [OF calm]]
  have c1: "calm (store_ops s) w1" using looking_calm [OF rs(1) calm] .
  show thesis
  proof (cases "c (w_clock w)")
    case (Some x)
    with run show thesis by (intro stopped) (auto simp: Apply_def checkContext_def intro: during_refl)
  next
    case None
    note run' = run [unfolded Apply_def checkContext_def None option.case rd prod.case]
    show thesis
    proof (cases r)
      case (Inl x)
      with run' rs(1) show thesis by (intro stopped) auto
    next
      case (Inr q)
      obtain d m where q: "q = (d, m)" by fastforce
      note run2 = run' [unfolded Inr q sum.case prod.case]
      show thesis
      proof (cases "marked ?b ?e d")
        case False
        with run2 rs(1) ne show thesis
          by (intro stopped) (auto simp: marked_iff split: sum.splits prod.splits if_splits markerState.splits)
      next
        case True
        then obtain sec where sec: "locateMarkers d ?b ?e = Inr (ValidMarkers, sec)" by (auto simp: marked_iff)
        have put: "replaceManagedSection d sec body = put_body ?b ?e body d" for body
          using sec by (simp add: put_body_def section_of_def)
        note run3 = run2 [unfolded sec sum.case prod.case put]
        show thesis
        proof (cases "renderEndpoints srt eps (defaultNetwork s)")
          case (Inl x)
          with run3 rs(1) show thesis by (intro stopped) auto
        next
          case body: (Inr body)
          show thesis
          proof (cases "marked ?b ?e (put_body ?b ?e body d)")
            case False
            then have "requireValidMarkers (put_body ?b ?e body d) ?b ?e \<noteq> None"
              using requireValidMarkers_None_iff [OF ne] by simp
            with run3 body rs(1) show thesis by (intro stopped) (auto simp: Let_def)
          next
            case fit: True
            have a: "apply_to srt s eps d = put_body ?b ?e body d"
              using body True fit by (simp add: apply_to_def)
            have "requireValidMarkers (put_body ?b ?e body d) ?b ?e = None"
              using requireValidMarkers_None_iff [OF ne] fit by simp
            then show thesis
              using run3 body rs Inr q True fit a c1 by (intro started [of w1 d m body]) (auto simp: Let_def)
          qed
        qed
      qed
    qed
  qed
qed

text \<open>What the hosts file may be while an update is under way.\<close>

definition one_of :: "fileMetadata \<Rightarrow> string set \<Rightarrow> inode option \<Rightarrow> bool" where
  "one_of m ds v = (case v of None \<Rightarrow> False
     | Some nd \<Rightarrow> IsRegular (i_mode nd) \<and> i_synced nd \<and> meta_of nd = m \<and> i_data nd \<in> ds)"

text \<open>The hosts file is a regular file and has reached the disk.\<close>

definition settled :: "fsys \<Rightarrow> string \<Rightarrow> inode \<Rightarrow> bool" where
  "settled fs p nd \<longleftrightarrow> view fs p = Some nd \<and> disk fs p = Some nd \<and> IsRegular (i_mode nd) \<and> i_synced nd"

lemma one_of_new_inode [simp]:
  "one_of (meta_of nd) ds (Some (new_inode ops d (meta_of nd))) \<longleftrightarrow> d \<in> ds"
  by (simp add: one_of_def)

definition any_backup :: "inode option \<Rightarrow> bool" where
  "any_backup v = True"

lemma allowed_files:
  "allowed (files s H any_backup) fs \<longleftrightarrow> H (view fs (hostsPath s)) \<and> H (disk fs (hostsPath s))"
  unfolding allowed_def files_def any_backup_def by metis

lemma settled_shows:
  "settled fs p nd \<Longrightarrow> shows_file fs p d m \<longleftrightarrow> d = i_data nd \<and> m = meta_of nd"
  by (auto simp: settled_def shows_file_def)

lemma one_of_new [simp]:
  "setOwnership m \<Longrightarrow> mode m AND modeMask = mode m \<Longrightarrow> one_of m ds (Some (new_inode ops d m)) \<longleftrightarrow> d \<in> ds"
  by (simp add: one_of_def)

lemma one_of_shows:
  assumes "one_of m ds (view fs p)" "shows_file fs p d m'"
  shows "d \<in> ds" "m' = m" "setOwnership m" "mode m AND modeMask = mode m"
  using assms by (auto simp: one_of_def shows_file_def)

lemma Apply_keeps:
  assumes run: "Apply srt s c eps w = (e, w')" and calm: "calm (store_ops s) w"
    and ne: "beginMarker s \<noteq> endMarker s" "hostsPath s \<noteq> backupPath s"
    and v: "one_of m ds (view (w_fs w) (hostsPath s))" "one_of m ds (disk (w_fs w) (hostsPath s))"
    and cl: "\<And>nd. view (w_fs w) (hostsPath s) = Some nd \<Longrightarrow> apply_to srt s eps (i_data nd) \<in> ds"
  shows "during (allowed (files s (one_of m ds) any_backup)) w w'" (is "during (allowed ?A) w w'")
    and "calm (store_ops s) w'"
proof -
  have a0: "allowed ?A (w_fs w)" using v by (simp add: allowed_files)
  have "during (allowed ?A) w w' \<and> calm (store_ops s) w'"
    using run calm ne(1)
  proof (cases rule: Apply_cases)
    case stopped
    then show ?thesis using looking_during [of w w' "allowed ?A"] a0 looking_calm [OF stopped(2) calm] by simp
  next
    case (started d m' body w1)
    note dm = one_of_shows [OF v(1) started(3)]
    have new: "apply_to srt s eps d \<in> ds" using cl started(3) by (auto simp: shows_file_def)
    note fs1 = looking_fs [OF started(1)]
    have d1: "during (allowed ?A) w w1" using started(1) a0 by (rule looking_during)
    have hx: "view (w_fs w1) (hostsPath s) \<noteq> None" using started(3) fs1 by (auto simp: shows_file_def)
    show ?thesis
    proof (cases "d = apply_to srt s eps d")
      case True
      with started(8) have eb: "ensureBackupMatches s c d m' w1 = (e, w')" by simp
      note es = ensureBackup_spec [OF eb started(2)]
      have "during (allowed ?A) w1 w'"
        by (rule es(5) [OF during_end [OF d1] tracked_backup [OF hx]]) (use ne(2) in \<open>simp add: files_def any_backup_def\<close>)
      with d1 es(1) show ?thesis by (blast intro: during_trans)
    next
      case False
      with started(8) have ar: "applyReplacement s c d (apply_to srt s eps d) m' m' w1 = (e, w')" by simp
      have "during (allowed ?A) w1 w'"
        by (rule applyReplacement_spec(3) [OF ar started(2) ne(2) during_end [OF d1]])
           (use dm new in \<open>auto simp: any_backup_def\<close>, simp add: one_of_def)
      with d1 applyReplacement_spec(1) [OF ar started(2) ne(2)] show ?thesis by (blast intro: during_trans)
    qed
  qed
  then show "during (allowed ?A) w w'" "calm (store_ops s) w'" by auto
qed

lemma Apply_success:
  assumes run: "Apply srt s c eps w = (None, w')" and calm: "calm (store_ops s) w"
    and ne: "beginMarker s \<noteq> endMarker s" "hostsPath s \<noteq> backupPath s"
    and st: "settled (w_fs w) (hostsPath s) nd"
  shows "\<exists>body nd'. renderEndpoints srt eps (defaultNetwork s) = Inr body \<and>
      settled (w_fs w') (hostsPath s) nd' \<and> meta_of nd' = meta_of nd \<and>
      i_data nd' = put_body (beginMarker s) (endMarker s) body (i_data nd) \<and>
      managed_body (beginMarker s) (endMarker s) (i_data nd') = body \<and>
      outside (beginMarker s) (endMarker s) (i_data nd') = outside (beginMarker s) (endMarker s) (i_data nd) \<and>
      file_with (\<lambda>x. x = i_data nd') (view (w_fs w') (backupPath s))"
  using run calm ne(1)
proof (cases rule: Apply_cases)
  case (started d m body w1)
  have dm: "d = i_data nd" "m = meta_of nd" using settled_shows [OF st] started(3) by auto
  note fs1 = looking_fs [OF started(1)]
  note body = apply_to_body [OF started(7,5,6,4)] apply_to_outside(2) [OF started(5), of srt eps]
  show ?thesis
  proof (cases "d = apply_to srt s eps d")
    case True
    with started(8) have eb: "ensureBackupMatches s c d m w1 = (None, w')" by simp
    note es = ensureBackup_spec [OF eb started(2)]
    have "settled (w_fs w') (hostsPath s) nd"
      using es(2,6) [OF ne(2)] st fs1 by (auto simp: settled_def)
    with es(3) True body dm started(4,7) show ?thesis by (intro exI [of _ body] exI [of _ nd]) simp
  next
    case False
    with started(8) have ar: "applyReplacement s c d (apply_to srt s eps d) m m w1 = (None, w')" by simp
    from applyReplacement_spec(2) [OF ar started(2) ne(2)]
    have "settled (w_fs w') (hostsPath s) (new_inode (store_ops s) (apply_to srt s eps d) m)"
      "file_with (\<lambda>x. x = apply_to srt s eps d) (view (w_fs w') (backupPath s))"
      by (auto simp: settled_def)
    with body dm started(4,7) show ?thesis
      by (intro exI [of _ body] exI [of _ "new_inode (store_ops s) (apply_to srt s eps d) m"]) simp
  qed
qed simp

section \<open>Apply completes in a healthy environment\<close>

definition roomy :: "Store \<Rightarrow> fsys \<Rightarrow> bool" where
  "roomy s fs \<longleftrightarrow> (\<forall>t. t = hostsPath s \<or> t = backupPath s \<longrightarrow>
     SEP \<notin> set (Base t) \<and> (\<exists>nd. view fs (Dir t) = Some nd \<and> i_mode nd AND ModeDir \<noteq> 0) \<and>
     (\<forall>n. names fs (temp_path (store_ops s) t n) = None \<and>
        temp_path (store_ops s) t n \<noteq> hostsPath s \<and> temp_path (store_ops s) t n \<noteq> backupPath s))"

lemma roomy_room: "roomy s (w_fs w) \<Longrightarrow> t = hostsPath s \<or> t = backupPath s \<Longrightarrow> room (store_ops s) t w"
proof -
  assume r: "roomy s (w_fs w)" and t: "t = hostsPath s \<or> t = backupPath s"
  from r [unfolded roomy_def, rule_format, OF t] show ?thesis unfolding room_def by blast
qed

lemma roomy_swapped:
  assumes "roomy s fs" "swapped fs t nd fs'" "fs_ok fs" "not_symlink fs t" "t = hostsPath s \<or> t = backupPath s"
  shows "roomy s fs'"
  unfolding roomy_def
proof (intro allI impI)
  fix u
  assume u: "u = hostsPath s \<or> u = backupPath s"
  with assms(1) obtain dn where dn: "view fs (Dir u) = Some dn" "i_mode dn AND ModeDir \<noteq> 0"
    and r: "SEP \<notin> set (Base u)" "\<And>n. names fs (temp_path (store_ops s) u n) = None \<and>
        temp_path (store_ops s) u n \<noteq> hostsPath s \<and> temp_path (store_ops s) u n \<noteq> backupPath s"
    by (auto simp: roomy_def)
  have "Dir u \<noteq> t"
    using dn assms(4) regular_not_symlink(2) by (auto simp: not_symlink_def)
  then have "view fs' (Dir u) = Some dn" using swapped_view(3) [OF assms(2,3)] dn(1) by simp
  moreover have "names fs' (temp_path (store_ops s) u n) = None" for n
    using assms(2,5) r(2) [of n] by (auto simp: swapped_def)
  ultimately show "SEP \<notin> set (Base u) \<and> (\<exists>nd. view fs' (Dir u) = Some nd \<and> i_mode nd AND ModeDir \<noteq> 0) \<and>
     (\<forall>n. names fs' (temp_path (store_ops s) u n) = None \<and>
        temp_path (store_ops s) u n \<noteq> hostsPath s \<and> temp_path (store_ops s) u n \<noteq> backupPath s)"
    using r dn(2) by blast
qed

definition file_or_none :: "Store \<Rightarrow> fsys \<Rightarrow> bool" where
  "file_or_none s fs \<longleftrightarrow> not_symlink fs (hostsPath s) \<and> not_symlink fs (backupPath s)"

lemma healthy_replace_next:
  assumes h: "healthy (store_ops s) c" and r: "roomy s (w_fs w)" and ok: "fs_ok (w_fs w)"
    and f: "file_or_none s (w_fs w)" and t: "t = hostsPath s \<or> t = backupPath s"
    and l: "\<forall>n. length d \<le> op_wlimit (store_ops s) n" and m: "matches (w_fs w) t ex"
  shows "\<exists>w'. replaceFileIfUnchanged (store_ops s) c t d md ex w = ((True, None), w') \<and>
    roomy s (w_fs w') \<and> fs_ok (w_fs w') \<and> file_or_none s (w_fs w') \<and>
    view (w_fs w') t = Some (new_inode (store_ops s) d md) \<and>
    (\<forall>p. p \<noteq> t \<longrightarrow> view (w_fs w') p = view (w_fs w) p)"
proof -
  have ns: "not_symlink (w_fs w) t" using f t by (auto simp: file_or_none_def)
  obtain w' where w': "replaceFileIfUnchanged (store_ops s) c t d md ex w = ((True, None), w')"
    using healthy_replace [OF h roomy_room [OF r t] l ok m ns] by blast
  have "quiet (store_ops s) (w_clock w)" using h by (simp add: healthy_def quiet_def)
  from replace_spec [OF w' [unfolded replaceFileIfUnchanged_def] this ok]
  have sw: "swapped (w_fs w) t (new_inode (store_ops s) d md) (w_fs w')" by (simp add: commit_outcome_def)
  note sv = swapped_view [OF sw ok]
  have "not_symlink (w_fs w') p" if "not_symlink (w_fs w) p" for p
    using that sv(1,3) by (cases "p = t") (auto simp: not_symlink_def)
  then have "file_or_none s (w_fs w')" using f by (simp add: file_or_none_def)
  then show ?thesis using w' sv roomy_swapped [OF r sw ok ns t] by blast
qed

lemma healthy_read_snapshot:
  assumes h: "healthy ops c" and f: "not_symlink (w_fs w) p"
  obtains d m ex w1 where "readOptionalRegularFile ops p w = ((d, m, ex, None), w1)" "w_fs w1 = w_fs w"
    "matches (w_fs w) p \<lparr>snap_data = d, snap_metadata = m, snap_exists = ex\<rparr>"
proof (cases "view (w_fs w) p")
  case None
  with healthy_readOptional(1) [OF h None] show ?thesis
    by (intro that [of "[]" noMetadata False "look w"]) (simp_all add: matches_def)
next
  case (Some nd)
  then have "IsRegular (i_mode nd)" using f by (simp add: not_symlink_def)
  with healthy_readOptional(2) [OF h Some] Some show ?thesis
    by (intro that [of "i_data nd" "meta_of nd" True "look (look (look (look w)))"])
       (simp_all add: matches_def shows_file_def)
qed

lemma healthy_ensureBackup:
  assumes h: "healthy (store_ops s) c" and r: "roomy s (w_fs w)" and ok: "fs_ok (w_fs w)"
    and f: "file_or_none s (w_fs w)" and l: "\<forall>n. length d \<le> op_wlimit (store_ops s) n"
  shows "\<exists>w'. ensureBackupMatches s c d m w = (None, w')"
proof -
  let ?ops = "store_ops s" and ?B = "backupPath s"
  obtain bk md ex w1 where rd: "readOptionalRegularFile ?ops ?B w = ((bk, md, ex, None), w1)"
    "w_fs w1 = w_fs w" "matches (w_fs w) ?B \<lparr>snap_data = bk, snap_metadata = md, snap_exists = ex\<rparr>"
    by (rule healthy_read_snapshot [OF h, of w ?B]) (use f in \<open>simp_all add: file_or_none_def\<close>)
  let ?sn = "\<lparr>snap_data = bk, snap_metadata = md, snap_exists = ex\<rparr>"
  obtain w2 where "replaceFileIfUnchanged ?ops c ?B d (if \<not> ex then m else md) ?sn w1 = ((True, None), w2)"
    using healthy_replace_next [OF h, of w1 ?B d ?sn] r ok f l rd by metis
  then show ?thesis using rd(1) by (simp add: ensureBackupMatches_def Let_def)
qed

lemma healthy_applyReplacement:
  assumes h: "healthy (store_ops s) c" and r: "roomy s (w_fs w)" and ok: "fs_ok (w_fs w)"
    and f: "file_or_none s (w_fs w)" and ne: "hostsPath s \<noteq> backupPath s"
    and l: "\<forall>n. length cur \<le> op_wlimit (store_ops s) n" "\<forall>n. length new \<le> op_wlimit (store_ops s) n"
    and sh: "shows_file (w_fs w) (hostsPath s) cur m"
  shows "\<exists>w'. applyReplacement s c cur new m bm w = (None, w')"
proof -
  let ?ops = "store_ops s" and ?B = "backupPath s" and ?H = "hostsPath s"
  have commit: "\<exists>w'. commitTarget s c cur new m bm v = (None, w')"
    if v: "roomy s (w_fs v)" "fs_ok (w_fs v)" "file_or_none s (w_fs v)" "shows_file (w_fs v) ?H cur m" for v
  proof -
    let ?sn = "\<lparr>snap_data = cur, snap_metadata = m, snap_exists = True\<rparr>"
    have "matches (w_fs v) ?H ?sn" using v(4) by (simp add: matches_def)
    from healthy_replace_next [OF h v(1-3) _ l(2) this] obtain v' where
      "replaceFileIfUnchanged ?ops c ?H new m ?sn v = ((True, None), v')"
      "roomy s (w_fs v')" "fs_ok (w_fs v')" "file_or_none s (w_fs v')" by blast
    with healthy_ensureBackup [OF h this(2-4) l(2), of bm] show ?thesis by (auto simp: commitTarget_def)
  qed
  obtain bk md ex w1 where rd: "readOptionalRegularFile ?ops ?B w = ((bk, md, ex, None), w1)"
    "w_fs w1 = w_fs w" "matches (w_fs w) ?B \<lparr>snap_data = bk, snap_metadata = md, snap_exists = ex\<rparr>"
    by (rule healthy_read_snapshot [OF h, of w ?B]) (use f in \<open>simp_all add: file_or_none_def\<close>)
  show ?thesis
  proof (cases "\<not> ex \<or> bk \<noteq> cur")
    case False
    with rd commit [of w1] r ok f sh show ?thesis by (simp add: applyReplacement_def Let_def)
  next
    case True
    let ?sn = "\<lparr>snap_data = bk, snap_metadata = md, snap_exists = ex\<rparr>"
    obtain w2 where w2: "replaceFileIfUnchanged ?ops c ?B cur (if \<not> ex then bm else md) ?sn w1 = ((True, None), w2)"
      "roomy s (w_fs w2)" "fs_ok (w_fs w2)" "file_or_none s (w_fs w2)" "view (w_fs w2) ?H = view (w_fs w1) ?H"
      using healthy_replace_next [OF h, of w1 ?B cur ?sn] r ok f l rd ne by metis
    have "shows_file (w_fs w2) ?H cur m" using sh w2(5) rd(2) by (simp add: shows_file_def)
    with commit [OF w2(2-4)] w2(1) rd(1) True show ?thesis by (auto simp: applyReplacement_def Let_def)
  qed
qed

lemma Apply_completes_marked:
  assumes h: "healthy (store_ops s) c" and r: "roomy s (w_fs w)" and ok: "fs_ok (w_fs w)"
    and f: "file_or_none s (w_fs w)" and ne: "hostsPath s \<noteq> backupPath s"
    and v: "view (w_fs w) (hostsPath s) = Some nd" and mk: "marked (beginMarker s) (endMarker s) (i_data nd)"
    and body: "renderEndpoints srt eps (defaultNetwork s) = Inr body"
    and mk': "marked (beginMarker s) (endMarker s) (put_body (beginMarker s) (endMarker s) body (i_data nd))"
    and l: "\<forall>n. length (i_data nd) + length body \<le> op_wlimit (store_ops s) n"
  shows "\<exists>w'. Apply srt s c eps w = (None, w')"
proof -
  let ?b = "beginMarker s" and ?e = "endMarker s" and ?d = "i_data nd"
  have reg: "IsRegular (i_mode nd)" using f v by (simp add: file_or_none_def not_symlink_def)
  define w1 where "w1 = look (look (look (look w)))"
  have rd: "readRegularFile (store_ops s) (hostsPath s) w = (Inr (?d, meta_of nd), w1)"
    using healthy_readOptional(2) [OF h v reg] by (simp add: readRegularFile_def w1_def)
  have fs1: "w_fs w1 = w_fs w" by (simp add: w1_def)
  obtain sec where sec: "locateMarkers ?d ?b ?e = Inr (ValidMarkers, sec)" and be: "?b \<noteq> ?e"
    using mk by (auto simp: marked_iff)
  have put: "replaceManagedSection ?d sec body = put_body ?b ?e body ?d"
    using sec by (simp add: put_body_def section_of_def)
  have req: "requireValidMarkers (put_body ?b ?e body ?d) ?b ?e = None" and req': "requireValidMarkers ?d ?b ?e = None"
    using requireValidMarkers_None_iff [OF be] mk mk' by simp_all
  have len: "length (put_body ?b ?e body ?d) \<le> length ?d + length body"
  proof -
    obtain pre bl mid el post where "layout ?b ?e ?d pre bl mid el post" by (rule marked_layout [OF mk])
    then show ?thesis
      using layout_parts(3) [OF be, of ?d pre bl mid el post body] layout_data [of ?b ?e ?d pre bl mid el post] by simp
  qed
  have l1: "\<forall>n. length ?d \<le> op_wlimit (store_ops s) n" and
    l2: "\<forall>n. length (put_body ?b ?e body ?d) \<le> op_wlimit (store_ops s) n"
    using l len by (meson add_leD1 le_trans)+
  have sh: "shows_file (w_fs w1) (hostsPath s) ?d (meta_of nd)" using v reg fs1 by (simp add: shows_file_def)
  have "\<exists>w'. (if ?d = put_body ?b ?e body ?d then ensureBackupMatches s c ?d (meta_of nd) w1
      else applyReplacement s c ?d (put_body ?b ?e body ?d) (meta_of nd) (meta_of nd) w1) = (None, w')"
    using healthy_ensureBackup [OF h, of w1 ?d "meta_of nd"]
      healthy_applyReplacement [OF h, of w1 ?d _ "meta_of nd"] r ok f ne fs1 l1 l2 sh by auto
  then show ?thesis
    by (cases "?d = put_body ?b ?e body ?d")
       (simp_all add: Apply_def healthy_ctx [OF h] rd sec body put req req' Let_def)
qed

lemma Apply_completes_lemma:
  assumes "healthy (store_ops s) c" and "roomy s (w_fs w)" and "fs_ok (w_fs w)"
    and "file_or_none s (w_fs w)" and "hostsPath s \<noteq> backupPath s"
    and "view (w_fs w) (hostsPath s) = Some nd" and "marked (beginMarker s) (endMarker s) (i_data nd)"
    and "renderEndpoints srt eps (defaultNetwork s) = Inr body"
    and "body_fits (beginMarker s) (endMarker s) body"
    and "\<forall>n. length (i_data nd) + length body \<le> op_wlimit (store_ops s) n"
  shows "\<exists>w'. Apply srt s c eps w = (None, w')"
  using Apply_completes_marked [OF assms(1-8) hosts_section.valid_put [OF assms(7,9)] assms(10)] .

end
