(* ===== verification/Store_Prepare.thy ===== *)
theory Store_Prepare
  imports Store_Apply
begin

text \<open>
  \<open>Prepare\<close> and \<open>Regenerate\<close>: the contents they lead to, the ways their runs go, what the
  hosts file may show meanwhile and what success means.
\<close>

section \<open>The initial section\<close>

lemma raw_lines_last_unterminated:
  assumes "d \<noteq> []" "last d \<noteq> NL"
  obtains ls l where "raw_lines d = ls @ [l]" "raw_lines (d @ [NL]) = ls @ [l @ [NL]]" "last l \<noteq> NL" "l \<noteq> []"
proof -
  have "\<exists>ls l. raw_lines d = ls @ [l] \<and> raw_lines (d @ [NL]) = ls @ [l @ [NL]] \<and> last l \<noteq> NL \<and> l \<noteq> []"
    using assms
  proof (induction d)
    case (Cons c d)
    show ?case
    proof (cases "d = []")
      case True
      with Cons.prems have "raw_lines (c # d) = [] @ [[c]]" "raw_lines ((c # d) @ [NL]) = [] @ [[c] @ [NL]]"
        "last [c] \<noteq> NL" by auto
      then show ?thesis by blast
    next
      case False
      with Cons obtain ls l where IH: "raw_lines d = ls @ [l]" "raw_lines (d @ [NL]) = ls @ [l @ [NL]]"
        "last l \<noteq> NL" "l \<noteq> []" by auto
      show ?thesis
      proof (cases "c = NL")
        case True
        with IH have "raw_lines (c # d) = ([c] # ls) @ [l]" "raw_lines ((c # d) @ [NL]) = ([c] # ls) @ [l @ [NL]]"
          by auto
        with IH show ?thesis by blast
      next
        case c: False
        show ?thesis
        proof (cases ls)
          case Nil
          with IH c have "raw_lines (c # d) = [] @ [c # l]" "raw_lines ((c # d) @ [NL]) = [] @ [(c # l) @ [NL]]"
            "last (c # l) \<noteq> NL" by auto
          then show ?thesis by blast
        next
          case (Cons k ks)
          with IH c have "raw_lines (c # d) = ((c # k) # ks) @ [l]"
            "raw_lines ((c # d) @ [NL]) = ((c # k) # ks) @ [l @ [NL]]" by auto
          with IH show ?thesis by blast
        qed
      qed
    qed
  qed simp
  with that show thesis by blast
qed

lemma unmarked_add_newline:
  assumes "unmarked b e (raw_lines d)" "d \<noteq> []" "last d \<noteq> NL"
  shows "unmarked b e (raw_lines (d @ [NL]))"
proof -
  obtain ls l where l: "raw_lines d = ls @ [l]" "raw_lines (d @ [NL]) = ls @ [l @ [NL]]" "last l \<noteq> NL" "l \<noteq> []"
    by (rule raw_lines_last_unterminated [OF assms(2,3)])
  have "logical (l @ [NL]) = logical l" using l(3,4) by (simp add: logical_def)
  with assms(1) l show ?thesis by simp
qed

text \<open>A marker that reads back as one line.\<close>

definition line_marker :: "string \<Rightarrow> bool" where
  "line_marker b \<longleftrightarrow> NL \<notin> set b \<and> (b = [] \<or> last b \<noteq> CR)"

lemma logical_line_marker: "line_marker b \<Longrightarrow> logical (b @ [NL]) = b"
  by (auto simp: line_marker_def logical_def chop_cr_def)

lemma raw_lines_marker_pair:
  assumes "line_marker b" "line_marker e"
  shows "raw_lines (b @ [NL] @ e @ [NL]) = [b @ [NL], e @ [NL]]"
  using assms raw_lines_line [of b "e @ [NL]"] raw_lines_line [of e "[]"] by (simp add: line_marker_def)

lemma marker_pair_layout:
  assumes "terminated d" "unmarked b e (raw_lines d)" "b \<noteq> e" "line_marker b" "line_marker e"
  shows "layout b e (d @ b @ [NL] @ e @ [NL]) (raw_lines d) (b @ [NL]) [] (e @ [NL]) []"
  using assms raw_lines_append [OF assms(1), of "b @ [NL] @ e @ [NL]"] raw_lines_marker_pair [OF assms(4,5)]
  by (simp add: layout_def logical_line_marker)

lemma appendEmptySection_marked:
  assumes "unmarked b e (raw_lines d)" "b \<noteq> e" "line_marker b" "line_marker e"
  shows "marked b e (appendEmptySection d b e)" and "managed_body b e (appendEmptySection d b e) = []"
    and "\<exists>r. appendEmptySection d b e = d @ r"
proof -
  define d' where "d' = (if 0 < length d \<and> d ! (length d - 1) \<noteq> NL then d @ [NL] else d)"
  have "d' = (if d \<noteq> [] \<and> last d \<noteq> NL then d @ [NL] else d)"
    by (cases "d = []") (simp_all add: d'_def last_conv_nth)
  then have "terminated d' \<and> unmarked b e (raw_lines d')"
    using assms(1) unmarked_add_newline [OF assms(1)] by (auto simp: terminated_def)
  then have l: "layout b e (d' @ b @ [NL] @ e @ [NL]) (raw_lines d') (b @ [NL]) [] (e @ [NL]) []"
    using marker_pair_layout assms by blast
  have a: "appendEmptySection d b e = d' @ b @ [NL] @ e @ [NL]"
    by (simp add: appendEmptySection_def d'_def)
  show "marked b e (appendEmptySection d b e)" using layout_marked(1) [OF assms(2) l] a by simp
  show "managed_body b e (appendEmptySection d b e) = []" using layout_parts(1) [OF assms(2) l] a by simp
  show "\<exists>r. appendEmptySection d b e = d @ r" by (simp add: appendEmptySection_def)
qed

section \<open>Prepare\<close>

text \<open>The contents \<open>Prepare\<close> may put in the hosts file, given those of hosts file and backup.\<close>

definition prepare_to :: "Store \<Rightarrow> string \<Rightarrow> inode option \<Rightarrow> string" where
  "prepare_to s d backup =
     (case locateMarkers d (beginMarker s) (endMarker s) of
        Inr (ValidMarkers, _) \<Rightarrow> d
      | Inr (NoMarkers, _) \<Rightarrow> appendEmptySection d (beginMarker s) (endMarker s)
      | Inl _ \<Rightarrow>
          (case backup of
             None \<Rightarrow> d
           | Some nd \<Rightarrow> if marked (beginMarker s) (endMarker s) (i_data nd) then i_data nd else d))"

lemma initialize_spec:
  assumes run: "initializeManagedSection s c cur new m w = (e, w')" and c: "calm (store_ops s) w"
    and ne: "hostsPath s \<noteq> backupPath s"
  shows "calm (store_ops s) w'"
    and "e = None \<Longrightarrow> view (w_fs w') (hostsPath s) = Some (new_inode (store_ops s) new m) \<and>
      disk (w_fs w') (hostsPath s) = Some (new_inode (store_ops s) new m) \<and>
      file_with (\<lambda>x. x = new) (view (w_fs w') (backupPath s))"
    and "allowed (files s H any_backup) (w_fs w) \<Longrightarrow> \<not> H None \<Longrightarrow>
      H (Some (new_inode (store_ops s) new m)) \<Longrightarrow> H (Some (new_inode (store_ops s) cur m)) \<Longrightarrow>
      during (allowed (files s H any_backup)) w w'"
proof -
  let ?ops = "store_ops s" and ?H = "hostsPath s" and ?B = "backupPath s"
  let ?sn = "\<lparr>snap_data = cur, snap_metadata = m, snap_exists = True\<rparr>"
  let ?sn' = "\<lparr>snap_data = new, snap_metadata = m, snap_exists = True\<rparr>"
  obtain e1 w1 where eb: "ensureBackupMatches s c new m w = (e1, w1)" by fastforce
  note es = ensureBackup_spec [OF eb c]
  obtain ren e2 w2 where rp: "replaceFileIfUnchanged ?ops c ?H new m ?sn w1 = ((ren, e2), w2)"
    by (metis prod.exhaust)
  note c2 = os_replacer.calm_stays [OF es(1) rp]
  obtain e3 w3 where rb: "rollbackTarget s ?H cur m ?sn' w2 = (e3, w3)" by fastforce
  note rs = rollback_spec [OF rb c2]
  consider (seed) "e1 \<noteq> None" "e \<noteq> None" "w' = w1" | (finished) "e1 = None" "e2 = None" "e = None" "w' = w2"
    | (refused) "e1 = None" "e \<noteq> None" "w' = w2" | (rolled) "e1 = None" "e \<noteq> None" "w' = w3"
    using run eb rp rb by (auto simp: initializeManagedSection_def Let_def errors_Join_def split: option.splits if_splits)
  note cases = this
  have bex: "view (w_fs w1) ?B \<noteq> None" if "e1 = None"
    using es(3) [OF that] by (auto simp: file_with_def split: option.splits)
  have bw: "view (w_fs w2) ?B = view (w_fs w1) ?B" if "e1 = None"
    using os_replacer.others [OF es(1) rp ne [symmetric] bex [OF that]] .
  show "calm ?ops w'" using cases es(1) c2 rs(1) by cases auto
  show "view (w_fs w') ?H = Some (new_inode ?ops new m) \<and> disk (w_fs w') ?H = Some (new_inode ?ops new m) \<and>
      file_with (\<lambda>x. x = new) (view (w_fs w') ?B)" if "e = None"
    using cases
  proof cases
    case finished
    with os_replacer.success(2,3) [OF es(1), of c ?H new m ?sn ren w2] rp es(3) bw show ?thesis by simp
  qed (use that in auto)
  show "during (allowed (files s H any_backup)) w w'"
    if A: "allowed (files s H any_backup) (w_fs w)" "\<not> H None" "H (Some (new_inode ?ops new m))"
      "H (Some (new_inode ?ops cur m))"
  proof -
    let ?A = "files s H any_backup"
    have "view (w_fs w) ?H \<noteq> None" using A(1,2) unfolding allowed_files by metis
    note tb = tracked_backup [OF this, of H any_backup]
    have d1: "during (allowed ?A) w w1"
      by (rule es(5) [OF A(1) tb]) (use ne in \<open>simp add: files_def any_backup_def\<close>)
    note a1 = during_end [OF d1]
    have d2: "during (allowed ?A) w w2" if "e1 = None"
    proof -
      have "during (allowed ?A) w1 w2"
        by (rule os_replacer.keeps_allowed [OF es(1) rp a1]) (use A bex [OF that] tracked_hosts in \<open>auto simp: files_def\<close>)
      with d1 show ?thesis by (rule during_trans)
    qed
    have d3: "during (allowed ?A) w w3" if "e1 = None"
    proof -
      have "during (allowed ?A) w2 w3"
        by (rule rs(3) [OF during_end [OF d2 [OF that]]])
           (use A bex [OF that] bw [OF that] tracked_hosts in \<open>auto simp: files_def\<close>)
      with d2 [OF that] show ?thesis by (rule during_trans)
    qed
    show ?thesis using cases d1 d2 d3 by cases auto
  qed
qed

lemma Prepare_cases:
  assumes run: "Prepare s c w = ((r, e), w')" and calm: "calm (store_ops s) w"
    and ne: "beginMarker s \<noteq> endMarker s"
  obtains (stopped) "e \<noteq> None" "looking w w'"
    | (valid) d m w1 where "looking w w1" "calm (store_ops s) w1" "shows_file (w_fs w) (hostsPath s) d m"
        "marked (beginMarker s) (endMarker s) d" "\<not> RecoveredFromBackup r"
        "ensureBackupMatches s c d m w1 = (e, w')"
    | (initial) d m w1 sec where "looking w w1" "calm (store_ops s) w1" "shows_file (w_fs w) (hostsPath s) d m"
        "locateMarkers d (beginMarker s) (endMarker s) = Inr (NoMarkers, sec)" "\<not> RecoveredFromBackup r"
        "marked (beginMarker s) (endMarker s) (appendEmptySection d (beginMarker s) (endMarker s))"
        "initializeManagedSection s c d (appendEmptySection d (beginMarker s) (endMarker s)) m w1 = (e, w')"
    | (corrupt) d m bk bm w1 x ren e1 where "looking w w1" "calm (store_ops s) w1"
        "shows_file (w_fs w) (hostsPath s) d m" "shows_file (w_fs w) (backupPath s) bk bm"
        "locateMarkers d (beginMarker s) (endMarker s) = Inl x" "marked (beginMarker s) (endMarker s) bk"
        "replaceFileIfUnchanged (store_ops s) c (hostsPath s) bk m
           \<lparr>snap_data = d, snap_metadata = m, snap_exists = True\<rparr> w1 = ((ren, e1), w')"
        "e = None \<longleftrightarrow> e1 = None" "RecoveredFromBackup r \<longleftrightarrow> e = None"
proof -
  let ?b = "beginMarker s" and ?e = "endMarker s" and ?ops = "store_ops s"
  obtain r1 w1 where rd: "readRegularFile ?ops (hostsPath s) w = (r1, w1)" by fastforce
  note rs = readRegular_spec [OF rd calm_quiet [OF calm]]
  have c1: "calm ?ops w1" using looking_calm [OF rs(1) calm] .
  note req = requireValidMarkers_None_iff [OF ne]
  show thesis
  proof (cases "c (w_clock w)")
    case (Some x)
    with run show thesis by (intro stopped) (auto simp: Prepare_def checkContext_def intro: during_refl)
  next
    case None
    note run' = run [unfolded Prepare_def checkContext_def None option.case rd prod.case Let_def]
    show thesis
    proof (cases r1)
      case (Inl x)
      with run' rs(1) show thesis by (intro stopped) auto
    next
      case (Inr q)
      obtain d m where q: "q = (d, m)" by fastforce
      note run2 = run' [unfolded Inr q sum.case prod.case]
      note sh = rs(2) [OF Inr [unfolded q]]
      show thesis
      proof (cases "locateMarkers d ?b ?e")
        case mk: (Inr z)
        obtain st sec where z: "z = (st, sec)" by fastforce
        show thesis
        proof (cases st)
          case ValidMarkers
          with mk z ne have "marked ?b ?e d" by (simp add: marked_iff)
          moreover have "ensureBackupMatches s c d m w1 = (e, w')" "r = \<lparr>RecoveredFromBackup = False\<rparr>"
            using run2 mk z ValidMarkers by (auto split: prod.splits)
          ultimately show thesis using rs(1) c1 sh by (intro valid [of w1 d m]) auto
        next
          case NoMarkers
          note run3 = run2 [unfolded mk z NoMarkers sum.case prod.case markerState.case]
          show thesis
          proof (cases "marked ?b ?e (appendEmptySection d ?b ?e)")
            case False
            with req have "requireValidMarkers (appendEmptySection d ?b ?e) ?b ?e \<noteq> None" by simp
            with run3 rs(1) show thesis by (intro stopped) auto
          next
            case True
            with req have "requireValidMarkers (appendEmptySection d ?b ?e) ?b ?e = None" by simp
            with run3 have "initializeManagedSection s c d (appendEmptySection d ?b ?e) m w1 = (e, w')"
              "r = \<lparr>RecoveredFromBackup = False\<rparr>" by (auto split: prod.splits)
            with rs(1) c1 sh mk z NoMarkers True show thesis by (intro initial [of w1 d m sec]) auto
          qed
        qed
      next
        case mk: (Inl x)
        note run3 = run2 [unfolded mk sum.case]
        obtain r2 w2 where rd2: "readRegularFile ?ops (backupPath s) w1 = (r2, w2)" by fastforce
        note rs2 = readRegular_spec [OF rd2 calm_quiet [OF c1]]
        note l2 = looking_trans [OF rs(1) rs2(1)]
        show thesis
        proof (cases r2)
          case (Inl y)
          with run3 rd2 l2 show thesis by (intro stopped) auto
        next
          case r2: (Inr p)
          obtain bk bm where p: "p = (bk, bm)" by fastforce
          have shb: "shows_file (w_fs w) (backupPath s) bk bm"
            using rs2(2) r2 p looking_fs [OF rs(1)] by simp
          show thesis
          proof (cases "marked ?b ?e bk")
            case False
            with req have "requireValidMarkers bk ?b ?e \<noteq> None" by simp
            with run3 rd2 r2 p l2 show thesis by (intro stopped) auto
          next
            case True
            with req have rq: "requireValidMarkers bk ?b ?e = None" by simp
            obtain ren e1 w3 where rp: "replaceFileIfUnchanged ?ops c (hostsPath s) bk m
               \<lparr>snap_data = d, snap_metadata = m, snap_exists = True\<rparr> w2 = ((ren, e1), w3)"
              by (metis prod.exhaust)
            have "w3 = w'" "e = None \<longleftrightarrow> e1 = None" "RecoveredFromBackup r \<longleftrightarrow> e = None"
              using run3 rd2 r2 p rq rp by (auto simp: restoreTargetIfUnchanged_def split: option.splits)
            with rp l2 looking_calm [OF l2 calm] sh shb mk True show thesis
              by (intro corrupt [of w2 d m bk bm x ren e1]) auto
          qed
        qed
      qed
    qed
  qed
qed

lemma prepare_to_shown:
  assumes "shows_file fs (backupPath s) bk bm" "marked (beginMarker s) (endMarker s) bk"
    and "locateMarkers d (beginMarker s) (endMarker s) = Inl x"
  shows "prepare_to s d (view fs (backupPath s)) = bk"
  using assms by (auto simp: prepare_to_def shows_file_def)

lemma Prepare_keeps:
  assumes run: "Prepare s c w = ((r, e), w')" and calm: "calm (store_ops s) w"
    and ne: "beginMarker s \<noteq> endMarker s" "hostsPath s \<noteq> backupPath s"
    and v: "one_of m ds (view (w_fs w) (hostsPath s))" "one_of m ds (disk (w_fs w) (hostsPath s))"
    and cl: "\<And>nd. view (w_fs w) (hostsPath s) = Some nd \<Longrightarrow>
      prepare_to s (i_data nd) (view (w_fs w) (backupPath s)) \<in> ds"
  shows "during (allowed (files s (one_of m ds) any_backup)) w w'" (is "during (allowed ?A) w w'")
    and "calm (store_ops s) w'"
proof -
  have a0: "allowed ?A (w_fs w)" using v by (simp add: allowed_files)
  have nn: "\<not> one_of m ds None" by (simp add: one_of_def)
  have "during (allowed ?A) w w' \<and> calm (store_ops s) w'"
    using run calm ne(1)
  proof (cases rule: Prepare_cases)
    case stopped
    then show ?thesis using looking_during [of w w' "allowed ?A"] a0 looking_calm [OF stopped(2) calm] by simp
  next
    case (valid d m' w1)
    have d1: "during (allowed ?A) w w1" using valid(1) a0 by (rule looking_during)
    have hx: "view (w_fs w1) (hostsPath s) \<noteq> None"
      using valid(3) looking_fs [OF valid(1)] by (auto simp: shows_file_def)
    note es = ensureBackup_spec [OF valid(6,2)]
    have "during (allowed ?A) w1 w'"
      by (rule es(5) [OF during_end [OF d1] tracked_backup [OF hx]]) (use ne(2) in \<open>simp add: files_def any_backup_def\<close>)
    with d1 es(1) show ?thesis by (blast intro: during_trans)
  next
    case (initial d m' w1 sec)
    note dm = one_of_shows [OF v(1) initial(3)]
    have new: "appendEmptySection d (beginMarker s) (endMarker s) \<in> ds"
      using cl initial(3,4) by (auto simp: shows_file_def prepare_to_def)
    have d1: "during (allowed ?A) w w1" using initial(1) a0 by (rule looking_during)
    note ini = initialize_spec [OF initial(7,2) ne(2)]
    have "during (allowed ?A) w1 w'"
      by (rule ini(3) [OF during_end [OF d1] nn]) (use dm new in auto)
    with d1 ini(1) show ?thesis by (blast intro: during_trans)
  next
    case (corrupt d m' bk bm w1 x ren e1)
    note dm = one_of_shows [OF v(1) corrupt(3)]
    have new: "bk \<in> ds"
      using cl corrupt(3) prepare_to_shown [OF corrupt(4,6,5)] by (auto simp: shows_file_def)
    have d1: "during (allowed ?A) w w1" using corrupt(1) a0 by (rule looking_during)
    have bx: "view (w_fs w1) (backupPath s) \<noteq> None"
      using corrupt(4) looking_fs [OF corrupt(1)] by (auto simp: shows_file_def)
    have "during (allowed ?A) w1 w'"
      by (rule os_replacer.keeps_allowed [OF corrupt(2,7) during_end [OF d1] _ tracked_hosts [OF bx]])
         (use dm new in \<open>auto simp: files_def\<close>)
    with d1 os_replacer.calm_stays [OF corrupt(2,7)] show ?thesis by (blast intro: during_trans)
  qed
  then show "during (allowed ?A) w w'" "calm (store_ops s) w'" by auto
qed

lemma file_with_Some: "file_with P v \<Longrightarrow> v \<noteq> None"
  by (cases v) (simp_all add: file_with_def)

lemma Prepare_success_lemma:
  assumes run: "Prepare s c w = ((r, None), w')" and calm: "calm (store_ops s) w"
    and ne: "beginMarker s \<noteq> endMarker s" "hostsPath s \<noteq> backupPath s"
    and st: "settled (w_fs w) (hostsPath s) nd"
  shows "\<exists>nd'. settled (w_fs w') (hostsPath s) nd' \<and> meta_of nd' = meta_of nd \<and>
      i_data nd' = prepare_to s (i_data nd) (view (w_fs w) (backupPath s)) \<and>
      marked (beginMarker s) (endMarker s) (i_data nd') \<and>
      file_with (\<lambda>x. x = i_data nd') (view (w_fs w') (backupPath s)) \<and>
      (RecoveredFromBackup r \<longleftrightarrow> (\<exists>x. locateMarkers (i_data nd) (beginMarker s) (endMarker s) = Inl x)) \<and>
      (RecoveredFromBackup r \<longrightarrow> file_with (\<lambda>x. x = i_data nd') (view (w_fs w) (backupPath s)))"
  using run calm ne(1)
proof (cases rule: Prepare_cases)
  case (valid d m w1)
  have dm: "d = i_data nd" "m = meta_of nd" using settled_shows [OF st] valid(3) by auto
  note es = ensureBackup_spec [OF valid(6,2)]
  obtain sec where mk: "locateMarkers d (beginMarker s) (endMarker s) = Inr (ValidMarkers, sec)"
    using valid(4) by (auto simp: marked_iff)
  have "settled (w_fs w') (hostsPath s) nd"
    using es(2,6) [OF ne(2)] st looking_fs [OF valid(1)] by (auto simp: settled_def)
  then show ?thesis using es(3) dm valid(4,5) mk by (intro exI [of _ nd]) (simp add: prepare_to_def)
next
  case (initial d m w1 sec)
  have dm: "d = i_data nd" "m = meta_of nd" using settled_shows [OF st] initial(3) by auto
  let ?new = "appendEmptySection d (beginMarker s) (endMarker s)"
  from initialize_spec(2) [OF initial(7,2) ne(2)]
  have "settled (w_fs w') (hostsPath s) (new_inode (store_ops s) ?new m)"
    "file_with (\<lambda>x. x = ?new) (view (w_fs w') (backupPath s))" by (auto simp: settled_def)
  then show ?thesis using dm initial(4,5,6)
    by (intro exI [of _ "new_inode (store_ops s) ?new m"]) (simp add: prepare_to_def)
next
  case (corrupt d m bk bm w1 x ren e1)
  have dm: "d = i_data nd" "m = meta_of nd" using settled_shows [OF st] corrupt(3) by auto
  have e1: "e1 = None" using corrupt(8) by simp
  note su = os_replacer.success [OF corrupt(2) corrupt(7) [unfolded e1]]
  have "view (w_fs w') (backupPath s) = view (w_fs w) (backupPath s)"
    using os_replacer.others [OF corrupt(2,7) ne(2) [symmetric]] corrupt(4) looking_fs [OF corrupt(1)]
    by (auto simp: shows_file_def)
  moreover have "file_with (\<lambda>x. x = bk) (view (w_fs w) (backupPath s))"
    using corrupt(4) by (auto simp: shows_file_def file_with_def)
  moreover have "settled (w_fs w') (hostsPath s) (new_inode (store_ops s) bk m)"
    using su by (auto simp: settled_def)
  ultimately show ?thesis
    using dm corrupt(5,6,9) prepare_to_shown [OF corrupt(4,6,5)]
    by (intro exI [of _ "new_inode (store_ops s) bk m"]) simp
qed simp

section \<open>Regenerate\<close>

definition fresh_for :: "Store \<Rightarrow> string" where
  "fresh_for s = (case hostname s of Inl _ \<Rightarrow> [] | Inr h \<Rightarrow> freshHostsFile h (beginMarker s) (endMarker s))"

lemma Regenerate_cases:
  assumes run: "Regenerate s c w = (e, w')" and calm: "calm (store_ops s) w"
    and ne: "beginMarker s \<noteq> endMarker s"
  obtains (stopped) "e \<noteq> None" "looking w w'"
    | (replace) d m w1 where "looking w w1" "calm (store_ops s) w1" "shows_file (w_fs w) (hostsPath s) d m"
        "marked (beginMarker s) (endMarker s) d" "marked (beginMarker s) (endMarker s) (fresh_for s)"
        "applyReplacement s c d (fresh_for s) m (defaultFileMetadata (store_ops s)) w1 = (e, w')"
    | (reset) d m ex w1 e1 w2 where "looking w w1" "calm (store_ops s) w1"
        "marked (beginMarker s) (endMarker s) (fresh_for s)"
        "ex \<Longrightarrow> shows_file (w_fs w) (hostsPath s) d m" "\<not> ex \<Longrightarrow> view (w_fs w) (hostsPath s) = None"
        "\<not> ex \<Longrightarrow> m = defaultFileMetadata (store_ops s)"
        "ensureBackupMatches s c (fresh_for s) (defaultFileMetadata (store_ops s)) w1 = (e1, w2)"
        "e1 \<noteq> None \<Longrightarrow> e \<noteq> None \<and> w' = w2"
        "e1 = None \<Longrightarrow> \<exists>ren e2. replaceFileIfUnchanged (store_ops s) c (hostsPath s) (fresh_for s) m
           \<lparr>snap_data = d, snap_metadata = m, snap_exists = ex\<rparr> w2 = ((ren, e2), w') \<and> (e = None \<longleftrightarrow> e2 = None)"
proof -
  let ?b = "beginMarker s" and ?e = "endMarker s" and ?ops = "store_ops s"
  note req = requireValidMarkers_None_iff [OF ne]
  show thesis
  proof (cases "c (w_clock w) = None \<and> (\<exists>h. hostname s = Inr h \<and> validateHostnamePart h = None) \<and>
      marked ?b ?e (fresh_for s)")
    case False
    then have "e \<noteq> None" "w' = w"
      using run req
      by (auto simp: Regenerate_def checkContext_def fresh_for_def Let_def split: option.splits sum.splits)
    then show thesis by (intro stopped) (auto intro: during_refl)
  next
    case True
    then obtain h where h: "hostname s = Inr h" "validateHostnamePart h = None" "c (w_clock w) = None"
      and f: "marked ?b ?e (fresh_for s)" by blast
    have fr: "freshHostsFile h ?b ?e = fresh_for s" using h by (simp add: fresh_for_def)
    have rq: "requireValidMarkers (fresh_for s) ?b ?e = None" using req f by simp
    obtain d m ex e1 w1 where rd: "readOptionalRegularFile ?ops (hostsPath s) w = ((d, m, ex, e1), w1)"
      by (metis prod.exhaust)
    note rs = readOptional_spec [OF rd calm_quiet [OF calm]]
    have l1: "looking w w1" using rs by blast
    have c1: "calm ?ops w1" by (rule looking_calm [OF l1 calm])
    note run' = run [unfolded Regenerate_def checkContext_def h option.case sum.case Let_def fr rq rd prod.case]
    show thesis
    proof (cases e1)
      case (Some x)
      with run' l1 show thesis by (intro stopped) auto
    next
      case None
      let ?m = "if \<not> ex then defaultFileMetadata ?ops else m"
      have no: "view (w_fs w) (hostsPath s) = None" if "\<not> ex"
        using rs None that calm by (simp add: calm_def)
      show thesis
      proof (cases "ex \<and> requireValidMarkers d ?b ?e = None")
        case True
        with run' None have "applyReplacement s c d (fresh_for s) m (defaultFileMetadata ?ops) w1 = (e, w')" by simp
        moreover have "marked ?b ?e d" using True req by simp
        ultimately show thesis using l1 c1 rs None True f by (intro replace [of w1 d m]) auto
      next
        case False
        obtain e2 w2 where eb: "ensureBackupMatches s c (fresh_for s) (defaultFileMetadata ?ops) w1 = (e2, w2)"
          by fastforce
        have "e2 \<noteq> None \<Longrightarrow> e \<noteq> None \<and> w' = w2" using run' None False eb by (auto split: option.splits)
        moreover have "e2 = None \<Longrightarrow> \<exists>ren e3. replaceFileIfUnchanged ?ops c (hostsPath s) (fresh_for s) ?m
             \<lparr>snap_data = d, snap_metadata = ?m, snap_exists = ex\<rparr> w2 = ((ren, e3), w') \<and> (e = None \<longleftrightarrow> e3 = None)"
          using run' None False eb by (auto split: prod.splits option.splits)
        ultimately show thesis using l1 c1 f rs None no eb by (intro reset [of w1 ex d ?m e2 w2]) auto
      qed
    qed
  qed
qed

lemma Regenerate_success_lemma:
  assumes run: "Regenerate s c w = (None, w')" and calm: "calm (store_ops s) w"
    and ne: "beginMarker s \<noteq> endMarker s" "hostsPath s \<noteq> backupPath s"
  shows "\<exists>nd. settled (w_fs w') (hostsPath s) nd \<and> i_data nd = fresh_for s \<and>
      marked (beginMarker s) (endMarker s) (fresh_for s) \<and>
      file_with (\<lambda>x. x = fresh_for s) (view (w_fs w') (backupPath s))"
  using run calm ne(1)
proof (cases rule: Regenerate_cases)
  case (replace d m w1)
  from applyReplacement_spec(2) [OF replace(6,2) ne(2)]
  show ?thesis using replace(5) by (intro exI [of _ "new_inode (store_ops s) (fresh_for s) m"]) (auto simp: settled_def)
next
  case (reset d m ex w1 e1 w2)
  have e1: "e1 = None" using reset(8) by blast
  then obtain ren where rp: "replaceFileIfUnchanged (store_ops s) c (hostsPath s) (fresh_for s) m
      \<lparr>snap_data = d, snap_metadata = m, snap_exists = ex\<rparr> w2 = ((ren, None), w')" using reset(9) by auto
  note es = ensureBackup_spec [OF reset(7,2)]
  note su = os_replacer.success [OF es(1) rp]
  have b: "file_with (\<lambda>x. x = fresh_for s) (view (w_fs w2) (backupPath s))" using es(3) e1 by simp
  then have "view (w_fs w2) (backupPath s) \<noteq> None" by (rule file_with_Some)
  from os_replacer.others [OF es(1) rp ne(2) [symmetric] this] b su reset(3)
  show ?thesis by (intro exI [of _ "new_inode (store_ops s) (fresh_for s) m"]) (simp add: settled_def)
qed simp

lemma Regenerate_keeps:
  assumes run: "Regenerate s c w = (e, w')" and calm: "calm (store_ops s) w"
    and ne: "beginMarker s \<noteq> endMarker s" "hostsPath s \<noteq> backupPath s"
    and v: "one_of m ds (view (w_fs w) (hostsPath s))" "one_of m ds (disk (w_fs w) (hostsPath s))"
    and cl: "fresh_for s \<in> ds"
  shows "during (allowed (files s (one_of m ds) any_backup)) w w'" (is "during (allowed ?A) w w'")
proof -
  have a0: "allowed ?A (w_fs w)" using v by (simp add: allowed_files)
  have nn: "\<not> one_of m ds None" by (simp add: one_of_def)
  show ?thesis
    using run calm ne(1)
  proof (cases rule: Regenerate_cases)
    case stopped
    then show ?thesis using looking_during [of w w' "allowed ?A"] a0 by simp
  next
    case (replace d m' w1)
    note dm = one_of_shows [OF v(1) replace(3)]
    have d1: "during (allowed ?A) w w1" using replace(1) a0 by (rule looking_during)
    have "during (allowed ?A) w1 w'"
      by (rule applyReplacement_spec(3) [OF replace(6,2) ne(2) during_end [OF d1] nn])
         (use dm cl in \<open>auto simp: any_backup_def\<close>)
    with d1 show ?thesis by (rule during_trans)
  next
    case (reset d m' ex w1 e1 w2)
    have ex: "ex" using reset(5) v(1) nn by (cases ex) auto
    note dm = one_of_shows [OF v(1) reset(4) [OF ex]]
    have d1: "during (allowed ?A) w w1" using reset(1) a0 by (rule looking_during)
    have hx: "view (w_fs w1) (hostsPath s) \<noteq> None"
      using during_end [OF d1] nn unfolding allowed_files by metis
    note es = ensureBackup_spec [OF reset(7,2)]
    have "during (allowed ?A) w1 w2"
      by (rule es(5) [OF during_end [OF d1] tracked_backup [OF hx]]) (use ne(2) in \<open>simp add: files_def any_backup_def\<close>)
    with d1 have d2: "during (allowed ?A) w w2" by (rule during_trans)
    show ?thesis
    proof (cases "e1 = None")
      case False
      with reset(8) d2 show ?thesis by simp
    next
      case True
      then obtain ren e2 where rp: "replaceFileIfUnchanged (store_ops s) c (hostsPath s) (fresh_for s) m'
          \<lparr>snap_data = d, snap_metadata = m', snap_exists = ex\<rparr> w2 = ((ren, e2), w')" using reset(9) by auto
      have bx: "view (w_fs w2) (backupPath s) \<noteq> None"
        using es(3) [OF True] by (rule file_with_Some)
      have "during (allowed ?A) w2 w'"
        by (rule os_replacer.keeps_allowed [OF es(1) rp during_end [OF d2] _ tracked_hosts [OF bx]])
           (use dm cl in \<open>auto simp: files_def\<close>)
      with d2 show ?thesis by (rule during_trans)
    qed
  qed
qed

end
