(* ===== verification/Store_Theorems.thy ===== *)
theory Store_Theorems
  imports Store_Prepare
begin

text \<open>
  The properties of the store: the contract of the daemon's \<open>HostStore\<close> as the locale
  \<open>host_store\<close>, interpreted on \<open>Prepare\<close> and \<open>Apply\<close>, a worked store on which the
  properties are exercised, and the properties themselves.
\<close>

section \<open>The interface of the daemon\<close>

datatype store_op = PrepareOp ctx | ApplyOp ctx "endpoint list"

fun run_store ::
  "(ctx \<Rightarrow> world \<Rightarrow> (PrepareResult \<times> err) \<times> world) \<Rightarrow> (ctx \<Rightarrow> endpoint list \<Rightarrow> world \<Rightarrow> err \<times> world) \<Rightarrow>
     store_op list \<Rightarrow> world \<Rightarrow> world" where
  "run_store prep app [] w = w"
| "run_store prep app (PrepareOp c # xs) w = run_store prep app xs (snd (prep c w))"
| "run_store prep app (ApplyOp c eps # xs) w = run_store prep app xs (snd (app c eps w))"

text \<open>
  \<open>daemon.HostStore\<close>: what the daemon may rely on, whatever the operations return. \<open>good\<close> is a
  property of the file system that holds at every instant, \<open>ready\<close> what has to hold between calls.
\<close>

locale host_store =
  fixes prepare :: "ctx \<Rightarrow> world \<Rightarrow> (PrepareResult \<times> err) \<times> world"
    and apply_snapshot :: "ctx \<Rightarrow> endpoint list \<Rightarrow> world \<Rightarrow> err \<times> world"
    and ready :: "world \<Rightarrow> bool"
    and good :: "fsys \<Rightarrow> bool"
  assumes ready_good: "ready w \<Longrightarrow> good (w_fs w)"
    and ready_later: "ready w \<Longrightarrow> w_clock w \<le> n \<Longrightarrow> ready (w\<lparr>w_clock := n\<rparr>)"
    and prepare_keeps: "ready w \<Longrightarrow> prepare c w = (r, w') \<Longrightarrow> ready w' \<and> during good w w'"
    and apply_keeps: "ready w \<Longrightarrow> apply_snapshot c eps w = (e, w') \<Longrightarrow> ready w' \<and> during good w w'"
begin

lemma run_keeps: "ready w \<Longrightarrow> ready (run_store prepare apply_snapshot xs w) \<and>
    during good w (run_store prepare apply_snapshot xs w)"
proof (induction xs arbitrary: w)
  case Nil
  then show ?case by (simp add: during_refl ready_good)
next
  case (Cons x xs)
  show ?case
  proof (cases x)
    case (PrepareOp c)
    obtain r w1 where "prepare c w = (r, w1)" by fastforce
    with Cons PrepareOp prepare_keeps [OF Cons.prems this] show ?thesis by (auto intro: during_trans)
  next
    case (ApplyOp c eps)
    obtain e w1 where "apply_snapshot c eps w = (e, w1)" by fastforce
    with Cons ApplyOp apply_keeps [OF Cons.prems this] show ?thesis by (auto intro: during_trans)
  qed
qed

end

text \<open>A hosts file with one valid section, given bytes around it and given metadata.\<close>

definition around :: "Store \<Rightarrow> string \<times> string \<Rightarrow> string set" where
  "around s out = {d. marked (beginMarker s) (endMarker s) d \<and> outside (beginMarker s) (endMarker s) d = out}"

definition hosts_kept :: "Store \<Rightarrow> fileMetadata \<Rightarrow> string \<times> string \<Rightarrow> fsys \<Rightarrow> bool" where
  "hosts_kept s m out fs \<longleftrightarrow>
     one_of m (around s out) (view fs (hostsPath s)) \<and> one_of m (around s out) (disk fs (hostsPath s))"

definition store_ready :: "Store \<Rightarrow> fileMetadata \<Rightarrow> string \<times> string \<Rightarrow> world \<Rightarrow> bool" where
  "store_ready s m out w \<longleftrightarrow> calm (store_ops s) w \<and> hosts_kept s m out (w_fs w) \<and>
     beginMarker s \<noteq> endMarker s \<and> hostsPath s \<noteq> backupPath s"

lemma hosts_kept_allowed: "hosts_kept s m out fs \<longleftrightarrow> allowed (files s (one_of m (around s out)) any_backup) fs"
  by (simp add: hosts_kept_def allowed_files)

lemma prepare_to_marked: "marked (beginMarker s) (endMarker s) d \<Longrightarrow> prepare_to s d b = d"
  by (auto simp: prepare_to_def marked_iff)

lemma one_of_data: "one_of m ds (Some nd) \<Longrightarrow> i_data nd \<in> ds"
  by (simp add: one_of_def)

interpretation hosts_store: host_store "Prepare s" "Apply srt s" "store_ready s m out" "hosts_kept s m out"
  for s srt m out
proof
  fix w c r w' eps e
  assume rd: "store_ready s m out w"
  then have calm: "calm (store_ops s) w" and ne: "beginMarker s \<noteq> endMarker s" "hostsPath s \<noteq> backupPath s"
    and v: "one_of m (around s out) (view (w_fs w) (hostsPath s))"
      "one_of m (around s out) (disk (w_fs w) (hostsPath s))"
    by (auto simp: store_ready_def hosts_kept_def)
  show "hosts_kept s m out (w_fs w)" using rd by (simp add: store_ready_def)
  show "store_ready s m out (w\<lparr>w_clock := n\<rparr>)" if "w_clock w \<le> n" for n
    using rd that quiet_mono [of "store_ops s"] by (auto simp: store_ready_def calm_def)
  have fin: "store_ready s m out w' \<and> during (hosts_kept s m out) w w'"
    if "during (allowed (files s (one_of m (around s out)) any_backup)) w w'" "calm (store_ops s) w'" for w'
  proof -
    from that(1) have "during (hosts_kept s m out) w w'" by (rule during_mono) (simp add: hosts_kept_allowed)
    with that(2) ne show ?thesis using during_end by (auto simp: store_ready_def)
  qed
  show "store_ready s m out w' \<and> during (hosts_kept s m out) w w'" if run: "Prepare s c w = (r, w')"
  proof -
    obtain r1 e1 where r: "r = (r1, e1)" by fastforce
    have "prepare_to s (i_data nd) b \<in> around s out" if "view (w_fs w) (hostsPath s) = Some nd" for nd b
      using v(1) one_of_data [of m "around s out" nd] that prepare_to_marked [of s "i_data nd" b]
      by (simp add: around_def)
    with fin Prepare_keeps [OF run [unfolded r] calm ne v] show ?thesis by blast
  qed
  show "store_ready s m out w' \<and> during (hosts_kept s m out) w w'" if run: "Apply srt s c eps w = (e, w')"
  proof -
    have "apply_to srt s eps (i_data nd) \<in> around s out" if "view (w_fs w) (hostsPath s) = Some nd" for nd
      using v(1) one_of_data [of m _ nd] that apply_to_outside [of s "i_data nd" srt eps]
      by (auto simp: around_def)
    with fin Apply_keeps [OF run calm ne v] show ?thesis by blast
  qed
qed

section \<open>A worked store\<close>

definition ex_hosts :: string where
  "ex_hosts = ''127.0.0.1 localhost'' @ [NL] @
     ''# BEGIN DOCKER CONTAINERS'' @ [NL] @ ''# END DOCKER CONTAINERS'' @ [NL]"

definition ex_node :: inode where
  "ex_node = \<lparr>i_data = ex_hosts, i_mode = 0x1A4, i_uid = 0, i_gid = 0, i_synced = True\<rparr>"

definition ex_dir :: inode where
  "ex_dir = \<lparr>i_data = [], i_mode = 0x800001ED, i_uid = 0, i_gid = 0, i_synced = True\<rparr>"

definition ex_names :: "string \<Rightarrow> nat option" where
  "ex_names p = (if p = ''/etc'' then Some 0 else if p = ''/etc/hosts'' then Some 1 else None)"

definition ex_world :: world where
  "ex_world = \<lparr>w_fs = \<lparr>names = ex_names, durable = ex_names,
      inodes = (\<lambda>i. if i = 0 then ex_dir else ex_node), next_ino = 2\<rparr>, w_clock = 0, w_trace = []\<rparr>"

text \<open>An environment without failures, and one in which a call fails.\<close>

definition ex_ops :: "(nat \<Rightarrow> go_error option) \<Rightarrow> fileOps" where
  "ex_ops faults = \<lparr>op_fault = faults, op_edit = (\<lambda>_. id), op_wlimit = (\<lambda>_. 4096), op_rand = (\<lambda>_. 7),
     op_time = (\<lambda>_. 0), op_uid = 0, op_gid = 0\<rparr>"

definition ex_store :: "(nat \<Rightarrow> go_error option) \<Rightarrow> Store" where
  "ex_store faults = NewStore (ex_ops faults) (Inr ''saltbox'') ''/etc/hosts'' ''/etc/hosts.backup''
     ''DOCKER CONTAINERS'' ''saltbox''"

definition disk_full :: "nat \<Rightarrow> go_error option" where
  "disk_full n = (if n = 12 then Some (Opaque ''no space left on device'') else None)"

lemma ex_store_sel [simp]:
  "store_ops (ex_store f) = ex_ops f" "hostsPath (ex_store f) = ''/etc/hosts''"
  "backupPath (ex_store f) = ''/etc/hosts.backup''" "beginMarker (ex_store f) = ''# BEGIN DOCKER CONTAINERS''"
  "endMarker (ex_store f) = ''# END DOCKER CONTAINERS''" "defaultNetwork (ex_store f) = ''saltbox''"
  "hostname (ex_store f) = Inr ''saltbox''"
  by (simp_all add: ex_store_def NewStore_def)

lemma ex_ok: "fs_ok (w_fs ex_world)"
  by (auto simp: fs_ok_def ex_world_def ex_names_def split: if_splits)

lemma ex_quiet: "quiet (ex_ops f) n"
  by (simp add: quiet_def ex_ops_def)

lemma disk_full_honest: "honest (ex_ops disk_full)"
  by (simp add: honest_def ex_ops_def disk_full_def)

lemma ex_calm_full: "calm (ex_ops disk_full) ex_world"
  by (simp add: calm_def ex_quiet disk_full_honest ex_ok)

lemma ex_healthy: "healthy (ex_ops (\<lambda>_. None)) (\<lambda>_. None)"
  by (simp add: healthy_def ex_ops_def)

lemma ex_settled: "settled (w_fs ex_world) ''/etc/hosts'' ex_node"
  by (simp add: settled_def view_def disk_def ex_world_def ex_names_def ex_node_def IsRegular_def ModeType_def)

lemma ex_marked: "marked ''# BEGIN DOCKER CONTAINERS'' ''# END DOCKER CONTAINERS'' ex_hosts"
proof -
  have "layout ''# BEGIN DOCKER CONTAINERS'' ''# END DOCKER CONTAINERS'' ex_hosts
      [''127.0.0.1 localhost'' @ [NL]] (''# BEGIN DOCKER CONTAINERS'' @ [NL]) [] (''# END DOCKER CONTAINERS'' @ [NL]) []"
    by (simp add: layout_def ex_hosts_def logical_def chop_cr_def)
  then show ?thesis by (rule layout_marked(1) [rotated]) simp
qed

lemma ex_temp:
  "temp_path (ex_ops f) ''/etc/hosts'' n = ''/etc/.hosts.tmp-7''"
  "temp_path (ex_ops f) ''/etc/hosts.backup'' n = ''/etc/.hosts.backup.tmp-7''"
  by (simp_all add: temp_path_def ex_ops_def temp_name_def Base_def strip_trailing_seps_def after_last_sep_def
      Dir_def up_to_last_sep_def Clean_def joinPath_def dec_nat.simps char_of_digits)

lemma ex_roomy: "roomy (ex_store f) (w_fs ex_world)"
proof -
  have "view (w_fs ex_world) ''/etc'' = Some ex_dir" by (simp add: view_def ex_world_def ex_names_def)
  moreover have "i_mode ex_dir AND ModeDir \<noteq> 0" by (simp add: ex_dir_def ModeDir_def)
  moreover have "Dir ''/etc/hosts'' = ''/etc''" "Dir ''/etc/hosts.backup'' = ''/etc''"
    by (simp_all add: Dir_def up_to_last_sep_def Clean_def)
  moreover have "SEP \<notin> set (Base ''/etc/hosts'')" "SEP \<notin> set (Base ''/etc/hosts.backup'')"
    by (simp_all add: Base_def strip_trailing_seps_def after_last_sep_def)
  moreover have "names (w_fs ex_world) p = ex_names p" for p by (simp add: ex_world_def)
  ultimately show ?thesis
    unfolding roomy_def by (auto simp: ex_temp) (simp_all add: ex_names_def)
qed

lemma ex_files: "file_or_none (ex_store f) (w_fs ex_world)"
  by (simp add: file_or_none_def not_symlink_def view_def ex_world_def ex_names_def ex_node_def
      IsRegular_def ModeType_def)

section \<open>Properties\<close>

text \<open>
  C9. Replacing a file is atomic, through any failure of any call, any cancellation and a power
  failure at any instant: the target always shows the old file or the complete new one, both to
  readers and on the disk, and every other file is left alone. The result says which: without a
  rename it is the old one and there is an error; with one it is the new one; and without an error
  the new one has reached the disk.
\<close>

theorem replaceFileIfUnchanged_atomic:
  assumes "calm ops w" and "replaceFileIfUnchanged ops c t d m ex w = ((renamed, e), w')"
  shows "during (touches_only t (new_inode ops d m) (w_fs w)) w w' \<and>
    (if renamed
     then view (w_fs w') t = Some (new_inode ops d m) \<and> matches (w_fs w) t ex
     else e \<noteq> None \<and> view (w_fs w') t = view (w_fs w) t \<and> disk (w_fs w') t = disk (w_fs w) t) \<and>
    (e = None \<longrightarrow> renamed \<and> disk (w_fs w') t = Some (new_inode ops d m))"
proof -
  have "renamed \<Longrightarrow> view (w_fs w') t = Some (new_inode ops d m) \<and> matches (w_fs w) t ex"
    using os_replacer.renamed [OF assms(1)] assms(2) by (cases renamed) auto
  moreover have "\<not> renamed \<Longrightarrow> e \<noteq> None \<and> view (w_fs w') t = view (w_fs w) t \<and> disk (w_fs w') t = disk (w_fs w) t"
    using os_replacer.refused [OF assms(1)] assms(2) by (cases renamed) auto
  moreover have "e = None \<Longrightarrow> renamed \<and> disk (w_fs w') t = Some (new_inode ops d m)"
    using os_replacer.success(1,3) [OF assms(1), of c t d m ex renamed w'] assms(2) by simp
  ultimately show ?thesis using os_replacer.old_or_new [OF assms] by simp
qed

theorem replaceFileIfUnchanged_atomic_witness:
  "\<exists>renamed e w'. replaceFileIfUnchanged (ex_ops disk_full) (\<lambda>_. None) ''/etc/hosts'' ''new'' (meta_of ex_node)
      \<lparr>snap_data = ex_hosts, snap_metadata = meta_of ex_node, snap_exists = True\<rparr> ex_world = ((renamed, e), w') \<and>
    during (touches_only ''/etc/hosts'' (new_inode (ex_ops disk_full) ''new'' (meta_of ex_node)) (w_fs ex_world)) ex_world w'"
proof -
  obtain renamed e w' where r: "replaceFileIfUnchanged (ex_ops disk_full) (\<lambda>_. None) ''/etc/hosts'' ''new'' (meta_of ex_node)
      \<lparr>snap_data = ex_hosts, snap_metadata = meta_of ex_node, snap_exists = True\<rparr> ex_world = ((renamed, e), w')"
    by (metis prod.exhaust)
  from replaceFileIfUnchanged_atomic [OF ex_calm_full r] r show ?thesis by blast
qed



text \<open>
  C7. An update of the hosts file is atomic, through any failure, cancellation or power failure: at
  every instant of \<open>Apply\<close>, to readers and on the disk, the hosts file is complete, has its old
  metadata, and holds the old contents or exactly the updated ones.
\<close>

theorem Apply_crash_atomic:
  assumes "Apply srt s c eps w = (e, w')" and "calm (store_ops s) w"
    and "beginMarker s \<noteq> endMarker s" and "hostsPath s \<noteq> backupPath s"
    and "settled (w_fs w) (hostsPath s) nd"
  shows "during (\<lambda>fs.
      one_of (meta_of nd) {i_data nd, apply_to srt s eps (i_data nd)} (view fs (hostsPath s)) \<and>
      one_of (meta_of nd) {i_data nd, apply_to srt s eps (i_data nd)} (disk fs (hostsPath s))) w w'"
proof -
  let ?ds = "{i_data nd, apply_to srt s eps (i_data nd)}"
  have v: "one_of (meta_of nd) ?ds (view (w_fs w) (hostsPath s))" "one_of (meta_of nd) ?ds (disk (w_fs w) (hostsPath s))"
    using assms(5) by (simp_all add: settled_def one_of_def)
  have "during (allowed (files s (one_of (meta_of nd) ?ds) any_backup)) w w'"
    by (rule Apply_keeps(1) [OF assms(1-4) v]) (use assms(5) in \<open>simp add: settled_def\<close>)
  then show ?thesis by (rule during_mono) (simp add: allowed_files)
qed

theorem Apply_crash_atomic_witness:
  "\<exists>e w'. Apply insertionSort (ex_store disk_full) (\<lambda>_. None) [ex_backend, ex_saltbox] ex_world = (e, w') \<and>
    during (\<lambda>fs. one_of (meta_of ex_node)
      {ex_hosts, apply_to insertionSort (ex_store disk_full) [ex_backend, ex_saltbox] ex_hosts} (view fs ''/etc/hosts'')) ex_world w'"
proof -
  obtain e w' where r: "Apply insertionSort (ex_store disk_full) (\<lambda>_. None) [ex_backend, ex_saltbox] ex_world = (e, w')"
    by fastforce
  have "i_data ex_node = ex_hosts" by (simp add: ex_node_def)
  with Apply_crash_atomic [OF r, of ex_node] ex_calm_full ex_settled r show ?thesis
    by (auto elim!: during_mono)
qed

text \<open>
  C8. When \<open>Apply\<close> succeeds, the hosts file is the old one with exactly its managed section replaced
  by the rendered endpoints: every byte outside the section and the metadata are as before, reading
  the section back gives the rendered body, the file has reached the disk, and the backup is a mirror
  of it.
\<close>

theorem Apply_success_spec:
  assumes "Apply srt s c eps w = (None, w')" and "calm (store_ops s) w"
    and "beginMarker s \<noteq> endMarker s" and "hostsPath s \<noteq> backupPath s"
    and "settled (w_fs w) (hostsPath s) nd"
  shows "\<exists>body nd'. renderEndpoints srt eps (defaultNetwork s) = Inr body \<and>
      settled (w_fs w') (hostsPath s) nd' \<and> meta_of nd' = meta_of nd \<and>
      i_data nd' = put_body (beginMarker s) (endMarker s) body (i_data nd) \<and>
      managed_body (beginMarker s) (endMarker s) (i_data nd') = body \<and>
      outside (beginMarker s) (endMarker s) (i_data nd') = outside (beginMarker s) (endMarker s) (i_data nd) \<and>
      file_with (\<lambda>x. x = i_data nd') (view (w_fs w') (backupPath s))"
  by (rule Apply_success [OF assms])



theorem Apply_success_spec_witness:
  "\<exists>w' nd'. Apply insertionSort (ex_store (\<lambda>_. None)) (\<lambda>_. None) [ex_backend, ex_saltbox] ex_world = (None, w') \<and>
     view (w_fs w') ''/etc/hosts'' = Some nd' \<and>
     managed_body ''# BEGIN DOCKER CONTAINERS'' ''# END DOCKER CONTAINERS'' (i_data nd') = ex_body"
proof -
  have h: "\<exists>w'. Apply insertionSort (ex_store (\<lambda>_. None)) (\<lambda>_. None) [ex_backend, ex_saltbox] ex_world = (None, w')"
  proof (rule Apply_completes_lemma)
    show "body_fits (beginMarker (ex_store (\<lambda>_. None))) (endMarker (ex_store (\<lambda>_. None))) ex_body"
      using rendered_body_fits [OF go_insertion.slices_sort_axioms ex_render ex_clean_zone,
          of "'' BEGIN DOCKER CONTAINERS''" "'' END DOCKER CONTAINERS''"] by simp
    show "\<forall>n. length (i_data ex_node) + length ex_body \<le> op_wlimit (store_ops (ex_store (\<lambda>_. None))) n"
      by (simp add: ex_node_def ex_hosts_def ex_body_def ex_ops_def)
  qed (use ex_healthy ex_ok ex_roomy ex_files ex_settled ex_marked ex_render in \<open>simp_all add: settled_def ex_node_def\<close>)
  then obtain w' where r: "Apply insertionSort (ex_store (\<lambda>_. None)) (\<lambda>_. None) [ex_backend, ex_saltbox] ex_world = (None, w')"
    by blast
  have calm: "calm (store_ops (ex_store (\<lambda>_. None))) ex_world" using healthy_calm [OF ex_healthy ex_ok] by simp
  have "\<exists>nd'. view (w_fs w') ''/etc/hosts'' = Some nd' \<and>
      managed_body ''# BEGIN DOCKER CONTAINERS'' ''# END DOCKER CONTAINERS'' (i_data nd') = ex_body"
    using Apply_success_spec [OF r calm, of ex_node] ex_settled ex_render by (auto simp: settled_def)
  with r show ?thesis by blast
qed

text \<open>
  C10. Whatever sequence of \<open>Prepare\<close> and \<open>Apply\<close> calls the daemon makes, with whatever
  contexts, failures and endpoints: at every instant the hosts file has one valid managed section, its
  old metadata, and the same bytes outside the section, to readers and on the disk.
\<close>

theorem store_never_touches_outside:
  assumes "store_ready s m out w"
  shows "during (hosts_kept s m out) w (run_store (Prepare s) (Apply srt s) calls w)"
  using hosts_store.run_keeps [OF assms] by blast

theorem store_never_touches_outside_witness:
  "during (hosts_kept (ex_store disk_full) (meta_of ex_node)
       (outside ''# BEGIN DOCKER CONTAINERS'' ''# END DOCKER CONTAINERS'' ex_hosts)) ex_world
     (run_store (Prepare (ex_store disk_full)) (Apply insertionSort (ex_store disk_full))
       [PrepareOp (\<lambda>_. None), ApplyOp (\<lambda>_. None) [ex_saltbox], ApplyOp (\<lambda>n. if n < 40 then None else Some (Sentinel Canceled)) []] ex_world)"
  by (rule store_never_touches_outside)
     (use ex_calm_full ex_settled ex_marked in
       \<open>simp add: store_ready_def hosts_kept_def around_def one_of_def settled_def ex_node_def\<close>)

text \<open>
  C12. \<open>Prepare\<close> is safe: at every instant, to readers and on the disk, the hosts file holds its old
  contents or those \<open>prepare_to\<close> gives: itself when its section is valid, itself with an empty
  section appended when it has none, and when it is corrupt the contents of the backup, but only if
  those have a valid section.
\<close>

theorem Prepare_crash_atomic:
  assumes "Prepare s c w = ((r, e), w')" and "calm (store_ops s) w"
    and "beginMarker s \<noteq> endMarker s" and "hostsPath s \<noteq> backupPath s"
    and "settled (w_fs w) (hostsPath s) nd"
  shows "during (\<lambda>fs.
      one_of (meta_of nd) {i_data nd, prepare_to s (i_data nd) (view (w_fs w) (backupPath s))} (view fs (hostsPath s)) \<and>
      one_of (meta_of nd) {i_data nd, prepare_to s (i_data nd) (view (w_fs w) (backupPath s))} (disk fs (hostsPath s))) w w'"
proof -
  let ?ds = "{i_data nd, prepare_to s (i_data nd) (view (w_fs w) (backupPath s))}"
  have v: "one_of (meta_of nd) ?ds (view (w_fs w) (hostsPath s))" "one_of (meta_of nd) ?ds (disk (w_fs w) (hostsPath s))"
    using assms(5) by (simp_all add: settled_def one_of_def)
  have "during (allowed (files s (one_of (meta_of nd) ?ds) any_backup)) w w'"
    by (rule Prepare_keeps(1) [OF assms(1-4) v]) (use assms(5) in \<open>simp add: settled_def\<close>)
  then show ?thesis by (rule during_mono) (simp add: allowed_files)
qed

theorem Prepare_crash_atomic_witness:
  "\<exists>r e w'. Prepare (ex_store disk_full) (\<lambda>_. None) ex_world = ((r, e), w') \<and>
    during (\<lambda>fs. one_of (meta_of ex_node) {ex_hosts} (view fs ''/etc/hosts'')) ex_world w'"
proof -
  obtain r e w' where r: "Prepare (ex_store disk_full) (\<lambda>_. None) ex_world = ((r, e), w')" by (metis prod.exhaust)
  have d: "i_data ex_node = ex_hosts" by (simp add: ex_node_def)
  have "prepare_to (ex_store disk_full) ex_hosts b = ex_hosts" for b
    using prepare_to_marked ex_marked by simp
  with d Prepare_crash_atomic [OF r, of ex_node] ex_calm_full ex_settled r show ?thesis
    by (auto elim!: during_mono)
qed

text \<open>
  C13. When \<open>Prepare\<close> succeeds, the hosts file has one valid section and the backup mirrors it. A file
  that had a valid section is unchanged; one without markers keeps every byte and gets an empty section
  at its end; a corrupt one has been replaced by the contents the backup had, and only that case is
  reported as a recovery.
\<close>

theorem Prepare_success_spec:
  assumes "Prepare s c w = ((r, None), w')" and "calm (store_ops s) w"
    and "beginMarker s \<noteq> endMarker s" and "hostsPath s \<noteq> backupPath s"
    and "line_marker (beginMarker s)" and "line_marker (endMarker s)"
    and "settled (w_fs w) (hostsPath s) nd"
  shows "\<exists>nd'. settled (w_fs w') (hostsPath s) nd' \<and> meta_of nd' = meta_of nd \<and>
      marked (beginMarker s) (endMarker s) (i_data nd') \<and>
      file_with (\<lambda>x. x = i_data nd') (view (w_fs w') (backupPath s)) \<and>
      (if marked (beginMarker s) (endMarker s) (i_data nd)
       then i_data nd' = i_data nd \<and> \<not> RecoveredFromBackup r
       else if unmarked (beginMarker s) (endMarker s) (raw_lines (i_data nd))
       then (\<exists>tail. i_data nd' = i_data nd @ tail) \<and> managed_body (beginMarker s) (endMarker s) (i_data nd') = [] \<and>
         \<not> RecoveredFromBackup r
       else file_with (\<lambda>x. x = i_data nd') (view (w_fs w) (backupPath s)) \<and> RecoveredFromBackup r)"
proof -
  let ?b = "beginMarker s" and ?e = "endMarker s" and ?d = "i_data nd"
  obtain nd' where nd': "settled (w_fs w') (hostsPath s) nd'" "meta_of nd' = meta_of nd"
    "i_data nd' = prepare_to s ?d (view (w_fs w) (backupPath s))" "marked ?b ?e (i_data nd')"
    "file_with (\<lambda>x. x = i_data nd') (view (w_fs w') (backupPath s))"
    "RecoveredFromBackup r \<longleftrightarrow> (\<exists>x. locateMarkers ?d ?b ?e = Inl x)"
    "RecoveredFromBackup r \<longrightarrow> file_with (\<lambda>x. x = i_data nd') (view (w_fs w) (backupPath s))"
    using Prepare_success_lemma [OF assms(1-4,7)] by blast
  have "if marked ?b ?e ?d then i_data nd' = ?d \<and> \<not> RecoveredFromBackup r
      else if unmarked ?b ?e (raw_lines ?d)
      then (\<exists>tail. i_data nd' = ?d @ tail) \<and> managed_body ?b ?e (i_data nd') = [] \<and> \<not> RecoveredFromBackup r
      else file_with (\<lambda>x. x = i_data nd') (view (w_fs w) (backupPath s)) \<and> RecoveredFromBackup r"
  proof (cases "locateMarkers ?d ?b ?e")
    case (Inr q)
    obtain st sec where q: "q = (st, sec)" by fastforce
    show ?thesis
    proof (cases st)
      case ValidMarkers
      with Inr q nd' assms(3) show ?thesis by (auto simp: marked_iff prepare_to_def)
    next
      case NoMarkers
      with Inr q assms(3) have "\<not> marked ?b ?e ?d" by (auto simp: marked_iff)
      moreover have u: "unmarked ?b ?e (raw_lines ?d)"
        using locateMarkers_NoMarkers_iff [OF assms(3), of ?d] Inr q NoMarkers by blast
      moreover have "i_data nd' = appendEmptySection ?d ?b ?e"
        using nd'(3) Inr q NoMarkers by (simp add: prepare_to_def)
      ultimately show ?thesis
        using appendEmptySection_marked(2,3) [OF u assms(3,5,6)] nd'(6) Inr by auto
    qed
  next
    case (Inl x)
    then have n: "\<not> marked ?b ?e ?d" by (auto simp: marked_iff)
    moreover have "\<not> unmarked ?b ?e (raw_lines ?d)"
      using locateMarkers_NoMarkers_iff [OF assms(3), of ?d] Inl by auto
    ultimately show ?thesis using nd'(6,7) Inl by simp
  qed
  with nd' show ?thesis by blast
qed

lemma healthy_Prepare_valid:
  assumes h: "healthy (store_ops s) c" and r: "roomy s (w_fs w)" and ok: "fs_ok (w_fs w)"
    and f: "file_or_none s (w_fs w)" and v: "view (w_fs w) (hostsPath s) = Some nd"
    and mk: "marked (beginMarker s) (endMarker s) (i_data nd)"
    and l: "\<forall>n. length (i_data nd) \<le> op_wlimit (store_ops s) n"
  shows "\<exists>r w'. Prepare s c w = ((r, None), w')"
proof -
  have reg: "IsRegular (i_mode nd)" using f v by (simp add: file_or_none_def not_symlink_def)
  define w1 where "w1 = look (look (look (look w)))"
  have rd: "readRegularFile (store_ops s) (hostsPath s) w = (Inr (i_data nd, meta_of nd), w1)"
    using healthy_readOptional(2) [OF h v reg] by (simp add: readRegularFile_def w1_def)
  have fs1: "w_fs w1 = w_fs w" by (simp add: w1_def)
  obtain sec where sec: "locateMarkers (i_data nd) (beginMarker s) (endMarker s) = Inr (ValidMarkers, sec)"
    using mk by (auto simp: marked_iff)
  obtain w' where "ensureBackupMatches s c (i_data nd) (meta_of nd) w1 = (None, w')"
    using healthy_ensureBackup [OF h, of w1 "i_data nd"] r ok f l fs1 by auto
  then show ?thesis by (simp add: Prepare_def healthy_ctx [OF h] rd sec Let_def)
qed

theorem Prepare_success_spec_witness:
  "\<exists>r w' nd'. Prepare (ex_store (\<lambda>_. None)) (\<lambda>_. None) ex_world = ((r, None), w') \<and>
     view (w_fs w') ''/etc/hosts'' = Some nd' \<and> i_data nd' = ex_hosts \<and> \<not> RecoveredFromBackup r \<and>
     file_with (\<lambda>x. x = ex_hosts) (view (w_fs w') ''/etc/hosts.backup'')"
proof -
  have d: "i_data ex_node = ex_hosts" by (simp add: ex_node_def)
  have "\<exists>r w'. Prepare (ex_store (\<lambda>_. None)) (\<lambda>_. None) ex_world = ((r, None), w')"
    by (rule healthy_Prepare_valid [where nd = ex_node])
       (use ex_healthy ex_ok ex_roomy ex_files ex_settled ex_marked d in \<open>simp_all add: settled_def, simp add: ex_hosts_def ex_ops_def\<close>)
  then obtain r w' where r: "Prepare (ex_store (\<lambda>_. None)) (\<lambda>_. None) ex_world = ((r, None), w')" by blast
  have calm: "calm (store_ops (ex_store (\<lambda>_. None))) ex_world" using healthy_calm [OF ex_healthy ex_ok] by simp
  have lm: "line_marker ''# BEGIN DOCKER CONTAINERS''" "line_marker ''# END DOCKER CONTAINERS''"
    by (simp_all add: line_marker_def)
  have "\<exists>nd'. view (w_fs w') ''/etc/hosts'' = Some nd' \<and> i_data nd' = ex_hosts \<and> \<not> RecoveredFromBackup r \<and>
     file_with (\<lambda>x. x = ex_hosts) (view (w_fs w') ''/etc/hosts.backup'')"
    using Prepare_success_spec [OF r calm, of ex_node] ex_settled ex_marked lm d by (auto simp: settled_def)
  with r show ?thesis by blast
qed

text \<open>
  \<open>Regenerate\<close>: while it runs, an existing hosts file holds its old contents or the whole fresh
  file, to readers and on the disk, with its old metadata; when it succeeds, hosts file and backup both
  hold the fresh file, which has one valid section.
\<close>

lemma Regenerate_spec:
  assumes "Regenerate s c w = (e, w')" and "calm (store_ops s) w"
    and "beginMarker s \<noteq> endMarker s" and "hostsPath s \<noteq> backupPath s"
  shows "(\<forall>nd. settled (w_fs w) (hostsPath s) nd \<longrightarrow>
      during (\<lambda>fs. one_of (meta_of nd) {i_data nd, fresh_for s} (view fs (hostsPath s)) \<and>
        one_of (meta_of nd) {i_data nd, fresh_for s} (disk fs (hostsPath s))) w w') \<and>
    (e = None \<longrightarrow> (\<exists>nd'. settled (w_fs w') (hostsPath s) nd' \<and> i_data nd' = fresh_for s \<and>
      marked (beginMarker s) (endMarker s) (fresh_for s) \<and>
      file_with (\<lambda>x. x = fresh_for s) (view (w_fs w') (backupPath s))))"
proof (intro conjI allI impI)
  fix nd
  assume st: "settled (w_fs w) (hostsPath s) nd"
  let ?ds = "{i_data nd, fresh_for s}"
  have v: "one_of (meta_of nd) ?ds (view (w_fs w) (hostsPath s))" "one_of (meta_of nd) ?ds (disk (w_fs w) (hostsPath s))"
    using st by (simp_all add: settled_def one_of_def)
  have "during (allowed (files s (one_of (meta_of nd) ?ds) any_backup)) w w'"
    by (rule Regenerate_keeps [OF assms v]) simp
  then show "during (\<lambda>fs. one_of (meta_of nd) ?ds (view fs (hostsPath s)) \<and>
        one_of (meta_of nd) ?ds (disk fs (hostsPath s))) w w'"
    by (rule during_mono) (simp add: allowed_files)
next
  assume "e = None"
  with Regenerate_success_lemma [of s c w w'] assms
  show "\<exists>nd'. settled (w_fs w') (hostsPath s) nd' \<and> i_data nd' = fresh_for s \<and>
      marked (beginMarker s) (endMarker s) (fresh_for s) \<and>
      file_with (\<lambda>x. x = fresh_for s) (view (w_fs w') (backupPath s))" by blast
qed

section \<open>The fresh hosts file\<close>

lemma freshHostsFile_marked:
  assumes h: "validateHostnamePart h = None"
    and b: "b = ''# BEGIN '' @ sec" "e = ''# END '' @ sec" and l: "line_marker b" "line_marker e"
  shows "marked b e (freshHostsFile h b e) \<and> managed_body b e (freshHostsFile h b e) = []"
proof -
  have "clean_name h" by (rule validateHostnamePart_bytes [OF h])
  then have nl: "NL \<notin> set h" by (auto simp: clean_name_def name_byte_def)
  define ls where "ls = [''127.0.0.1'' @ [CHR 0x09] @ ''localhost'', ''127.0.1.1'' @ [CHR 0x09] @ h, [],
     ''# The following lines are desirable for IPv6 capable hosts'', ''::1'' @ [CHR 0x09] @ ''ip6-localhost ip6-loopback'',
     ''fe00::0'' @ [CHR 0x09] @ ''ip6-localnet'', ''ff00::0'' @ [CHR 0x09] @ ''ip6-mcastprefix'',
     ''ff02::1'' @ [CHR 0x09] @ ''ip6-allnodes'', ''ff02::2'' @ [CHR 0x09] @ ''ip6-allrouters'',
     ''ff02::3'' @ [CHR 0x09] @ ''ip6-allhosts'', []]"
  have raw: "raw_lines (concat (map (\<lambda>x. x @ [NL]) xs)) = map (\<lambda>x. x @ [NL]) xs" if "\<forall>x\<in>set xs. NL \<notin> set x" for xs
    using that by (induction xs) (simp_all add: raw_lines_line)
  have pre: "raw_lines (concat (map (\<lambda>x. x @ [NL]) ls)) = map (\<lambda>x. x @ [NL]) ls"
    by (rule raw) (use nl in \<open>simp add: ls_def\<close>)
  have "unmarked b e (map (\<lambda>x. x @ [NL]) ls)"
    by (auto simp: ls_def unmarked_def b logical_def chop_cr_def butlast_append)
  moreover have "terminated (concat (map (\<lambda>x. x @ [NL]) ls))" by (simp add: ls_def terminated_def)
  ultimately have lay: "layout b e (concat (map (\<lambda>x. x @ [NL]) ls) @ b @ [NL] @ e @ [NL])
      (map (\<lambda>x. x @ [NL]) ls) (b @ [NL]) [] (e @ [NL]) []"
    using marker_pair_layout [of "concat (map (\<lambda>x. x @ [NL]) ls)" b e] l b unfolding pre by simp
  have "freshHostsFile h b e = concat (map (\<lambda>x. x @ [NL]) ls) @ b @ [NL] @ e @ [NL]"
    by (simp add: freshHostsFile_def ls_def)
  moreover have "b \<noteq> e" using b by simp
  ultimately show ?thesis using layout_marked(1) [OF _ lay] layout_parts(1) [OF _ lay] by simp
qed

text \<open>
  The fresh hosts file is valid: with a host name that passes validation and a section name of a
  single line, it has exactly one pair of markers and an empty managed section.
\<close>

lemma fresh_hosts_valid:
  assumes "s = NewStore ops (Inr h) hostsFile backupFile sectionName network"
    and "validateHostnamePart h = None" and "NL \<notin> set sectionName" and "CR \<notin> set sectionName"
  shows "marked (beginMarker s) (endMarker s) (fresh_for s) \<and>
    managed_body (beginMarker s) (endMarker s) (fresh_for s) = []"
proof -
  have m: "beginMarker s = ''# BEGIN '' @ sectionName" "endMarker s = ''# END '' @ sectionName"
    "fresh_for s = freshHostsFile h (beginMarker s) (endMarker s)"
    by (simp_all add: assms(1) NewStore_def fresh_for_def)
  have "line_marker (beginMarker s)" "line_marker (endMarker s)"
  proof -
    have "sectionName \<noteq> [] \<Longrightarrow> last sectionName \<noteq> CR" using assms(4) by (metis last_in_set)
    then show "line_marker (beginMarker s)" "line_marker (endMarker s)"
      using assms(3) by (auto simp: m line_marker_def)
  qed
  from freshHostsFile_marked [OF assms(2) m(1,2) this] show ?thesis by (simp add: m(3))
qed

text \<open>
  C15. The rollback does not depend on the caller's context: even after a cancellation, if the calls
  work and five seconds have not passed, the retained bytes and metadata are put back, on the disk too.
\<close>

theorem rollbackTarget_restores:
  assumes "\<forall>n. op_fault (store_ops s) n = None \<and> op_edit (store_ops s) n = id \<and>
      op_time (store_ops s) n < op_time (store_ops s) (w_clock w) + rollbackTimeout"
    and "fs_ok (w_fs w)" and "roomy s (w_fs w)" and "file_or_none s (w_fs w)"
    and "\<forall>n. length d \<le> op_wlimit (store_ops s) n" and "matches (w_fs w) (hostsPath s) committed"
  shows "\<exists>w'. rollbackTarget s (hostsPath s) d m committed w = (None, w') \<and>
    view (w_fs w') (hostsPath s) = Some (new_inode (store_ops s) d m) \<and>
    disk (w_fs w') (hostsPath s) = Some (new_inode (store_ops s) d m)"
proof -
  let ?c = "WithTimeout_WithoutCancel (store_ops s) rollbackTimeout (w_clock w)"
  have h: "healthy (store_ops s) ?c"
    using assms(1) by (simp add: healthy_def WithTimeout_WithoutCancel_def not_le)
  obtain w' where rp: "replaceFileIfUnchanged (store_ops s) ?c (hostsPath s) d m committed w = ((True, None), w')"
    using healthy_replace_next [OF h assms(3,2,4) _ assms(5,6)] by blast
  have "rollbackTarget s (hostsPath s) d m committed w = (None, w')"
    by (simp add: rollbackTarget_def restoreTargetIfUnchanged_def rp)
  with os_replacer.success(2,3) [OF healthy_calm [OF h assms(2)] rp] show ?thesis by blast
qed

theorem rollbackTarget_restores_witness:
  "\<exists>w'. rollbackTarget (ex_store (\<lambda>_. None)) ''/etc/hosts'' ''retained'' (meta_of ex_node)
      \<lparr>snap_data = ex_hosts, snap_metadata = meta_of ex_node, snap_exists = True\<rparr> ex_world = (None, w') \<and>
    view (w_fs w') ''/etc/hosts'' = Some (new_inode (ex_ops (\<lambda>_. None)) ''retained'' (meta_of ex_node))"
proof -
  let ?s = "ex_store (\<lambda>_. None)"
  have "matches (w_fs ex_world) (hostsPath ?s) \<lparr>snap_data = ex_hosts, snap_metadata = meta_of ex_node, snap_exists = True\<rparr>"
    using ex_settled by (simp add: matches_def shows_file_def settled_def ex_node_def)
  moreover have "\<forall>n. op_fault (store_ops ?s) n = None \<and> op_edit (store_ops ?s) n = id \<and>
      op_time (store_ops ?s) n < op_time (store_ops ?s) (w_clock ex_world) + rollbackTimeout"
    by (simp add: ex_ops_def rollbackTimeout_def)
  moreover have "\<forall>n. length ''retained'' \<le> op_wlimit (store_ops ?s) n" by (simp add: ex_ops_def)
  ultimately have "\<exists>w'. rollbackTarget ?s (hostsPath ?s) ''retained'' (meta_of ex_node)
      \<lparr>snap_data = ex_hosts, snap_metadata = meta_of ex_node, snap_exists = True\<rparr> ex_world = (None, w') \<and>
    view (w_fs w') (hostsPath ?s) = Some (new_inode (store_ops ?s) ''retained'' (meta_of ex_node)) \<and>
    disk (w_fs w') (hostsPath ?s) = Some (new_inode (store_ops ?s) ''retained'' (meta_of ex_node))"
    by (intro rollbackTarget_restores [OF _ ex_ok ex_roomy ex_files]) simp_all
  then show ?thesis by auto
qed

end
