(* ===== verification/Tracker.thy ===== *)
theory Tracker
  imports Go_Text "HOL-Library.AList"
begin

text \<open>
  The health tracker (\<open>health/tracker.go\<close>): the active concerns and a bounded history of
  failures. The locale \<open>concern_tracker\<close> states what the daemon relies on; the tracker's model
  is shown to keep it, through an invariant on identifiers, the active map and the history.
\<close>

section \<open>Concerns and records\<close>

type_synonym concern = string

definition ConcernDockerSnapshot :: concern where "ConcernDockerSnapshot = ''docker_snapshot''"
definition ConcernDockerEvents :: concern where "ConcernDockerEvents = ''docker_events''"
definition ConcernHostsApply :: concern where "ConcernHostsApply = ''hosts_apply''"
definition ConcernRecovery :: concern where "ConcernRecovery = ''recovery''"

lemmas concern_defs =
  ConcernDockerSnapshot_def ConcernDockerEvents_def ConcernHostsApply_def ConcernRecovery_def

record concernDetails =
  errorType :: string
  severity :: string

text \<open>The lookup in \<open>concernDetailsByConcern\<close>: the zero value for any other concern.\<close>

definition concernDetailsByConcern :: "concern \<Rightarrow> concernDetails" where
  "concernDetailsByConcern c =
     (if c = ConcernDockerSnapshot then \<lparr>errorType = ''docker'', severity = ''major''\<rparr>
      else if c = ConcernDockerEvents then \<lparr>errorType = ''docker_events'', severity = ''minor''\<rparr>
      else if c = ConcernHostsApply then \<lparr>errorType = ''update'', severity = ''major''\<rparr>
      else if c = ConcernRecovery then \<lparr>errorType = ''validation'', severity = ''critical''\<rparr>
      else \<lparr>errorType = [], severity = []\<rparr>)"

record health_record =
  Timestamp :: int
  Message :: string
  ErrorType :: string
  Severity :: string
  rec_id :: "64 word"
  rec_concern :: concern

section \<open>The tracker\<close>

text \<open>
  \<open>active\<close> is a Go map, here an association list with distinct keys; a nil map is \<open>None\<close>.
  The mutex makes every method atomic, so the methods are functions on the state. The clock
  \<open>now\<close> is an argument of the method that reads it.
\<close>

record tracker =
  ready :: bool
  active :: "(concern \<times> 64 word) list option"
  history :: "health_record list"
  nextID :: "64 word"
  max_records :: int

definition maxHistoryRecords :: int where
  "maxHistoryRecords = 10"

definition newTracker :: "int \<Rightarrow> tracker" where
  "newTracker mx = \<lparr>ready = True, active = Some [], history = [], nextID = 0, max_records = mx\<rparr>"

definition NewTracker :: tracker where
  "NewTracker = newTracker maxHistoryRecords"

text \<open>The zero value of the Go struct.\<close>

definition zeroTracker :: tracker where
  "zeroTracker = \<lparr>ready = False, active = None, history = [], nextID = 0, max_records = 0\<rparr>"

definition BeginInitialization :: "tracker \<Rightarrow> tracker" where
  "BeginInitialization t = t\<lparr>ready := False\<rparr>"

definition CompleteInitialization :: "tracker \<Rightarrow> tracker" where
  "CompleteInitialization t = t\<lparr>ready := True\<rparr>"

definition ensureDefaults :: "tracker \<Rightarrow> tracker" where
  "ensureDefaults t =
     t\<lparr>active := Some (case active t of None \<Rightarrow> [] | Some a \<Rightarrow> a),
       max_records := (if max_records t \<le> 0 then maxHistoryRecords else max_records t)\<rparr>"

definition isActive :: "(concern \<times> 64 word) list \<Rightarrow> 64 word \<Rightarrow> bool" where
  "isActive a i \<longleftrightarrow> list_ex (\<lambda>(c, activeID). activeID = i) a"

fun first_inactive :: "(concern \<times> 64 word) list \<Rightarrow> health_record list \<Rightarrow> nat option" where
  "first_inactive a [] = None"
| "first_inactive a (r # rs) =
     (if \<not> isActive a (rec_id r) then Some 0 else map_option Suc (first_inactive a rs))"

lemma first_inactive_Some: "first_inactive a h = Some i \<Longrightarrow> i < length h \<and> \<not> isActive a (rec_id (h ! i))"
  by (induction h arbitrary: i) (auto split: if_splits)

lemma first_inactive_None: "first_inactive a h = None \<longleftrightarrow> (\<forall>r\<in>set h. isActive a (rec_id r))"
  by (induction h) auto

text \<open>The loop of \<open>evictHistory\<close>: it drops the oldest inactive record while the history is too long.\<close>

function evictHistory :: "(concern \<times> 64 word) list \<Rightarrow> int \<Rightarrow> health_record list \<Rightarrow> health_record list" where
  "evictHistory a mx h =
     (if mx < int (length h) then
        (case first_inactive a h of
           None \<Rightarrow> h
         | Some index \<Rightarrow> evictHistory a mx (take index h @ drop (index + 1) h))
      else h)"
  by pat_completeness auto
termination
  by (relation "measure (\<lambda>(a, mx, h). length h)") (auto dest: first_inactive_Some)

declare evictHistory.simps [simp del]

definition Fail :: "int \<Rightarrow> concern \<Rightarrow> string \<Rightarrow> tracker \<Rightarrow> tracker" where
  "Fail now c message t0 =
     (let t = ensureDefaults t0;
          details = concernDetailsByConcern c;
          newID = nextID t + 1;
          record = \<lparr>Timestamp = now, Message = message, ErrorType = errorType details,
                    Severity = severity details, rec_id = newID, rec_concern = c\<rparr>;
          a = AList.update c newID (case active t of None \<Rightarrow> [] | Some a \<Rightarrow> a)
      in t\<lparr>nextID := newID, active := Some a,
           history := evictHistory a (max_records t) (history t @ [record])\<rparr>)"

definition Recover :: "concern \<Rightarrow> tracker \<Rightarrow> tracker" where
  "Recover c t = t\<lparr>active := map_option (AList.delete c) (active t)\<rparr>"

record snapshot =
  Ready :: bool
  Active :: "(concern \<times> 64 word) list option"
  History :: "health_record list"

definition tracker_Snapshot :: "tracker \<Rightarrow> snapshot" where
  "tracker_Snapshot t = \<lparr>Ready = ready t, Active = active t, History = history t\<rparr>"

section \<open>Eviction\<close>

text \<open>
  Eviction keeps the order and every active record, and stops when the history is short enough or
  when only active records are left.
\<close>

lemma evictHistory_step:
  assumes "mx < int (length h)" "first_inactive a h = Some i"
  obtains xs r ys where "h = xs @ r # ys" "\<not> isActive a (rec_id r)"
    "evictHistory a mx h = evictHistory a mx (xs @ ys)"
proof -
  from first_inactive_Some [OF assms(2)] have i: "i < length h" "\<not> isActive a (rec_id (h ! i))" by auto
  show ?thesis
  proof (rule that)
    show "h = take i h @ h ! i # drop (i + 1) h" using i(1) id_take_nth_drop by fastforce
    show "\<not> isActive a (rec_id (h ! i))" by fact
    show "evictHistory a mx h = evictHistory a mx (take i h @ drop (i + 1) h)"
      using assms by (simp add: evictHistory.simps [of a mx h])
  qed
qed

lemma evictHistory_facts:
  "subseq (evictHistory a mx h) h \<and>
   filter (\<lambda>r. isActive a (rec_id r)) (evictHistory a mx h) = filter (\<lambda>r. isActive a (rec_id r)) h \<and>
   (int (length (evictHistory a mx h)) \<le> mx \<or> (\<forall>r\<in>set (evictHistory a mx h). isActive a (rec_id r)))"
proof (induction "length h" arbitrary: h rule: less_induct)
  case less
  consider "\<not> mx < int (length h)" | "mx < int (length h)" "first_inactive a h = None"
    | i where "mx < int (length h)" "first_inactive a h = Some i" by (cases "first_inactive a h") auto
  then show ?case
  proof cases
    case 1
    then show ?thesis by (simp add: evictHistory.simps [of a mx h])
  next
    case 2
    then have "evictHistory a mx h = h" by (simp add: evictHistory.simps [of a mx h])
    with 2 show ?thesis by (simp add: first_inactive_None)
  next
    case 3
    then obtain xs r ys where h: "h = xs @ r # ys" and r: "\<not> isActive a (rec_id r)"
      and eq: "evictHistory a mx h = evictHistory a mx (xs @ ys)" by (rule evictHistory_step)
    have "length (xs @ ys) < length h" by (simp add: h)
    from less.hyps [OF this] have IH: "subseq (evictHistory a mx h) (xs @ ys)"
      "filter (\<lambda>r. isActive a (rec_id r)) (evictHistory a mx h) = filter (\<lambda>r. isActive a (rec_id r)) (xs @ ys)"
      "int (length (evictHistory a mx h)) \<le> mx \<or> (\<forall>r\<in>set (evictHistory a mx h). isActive a (rec_id r))"
      unfolding eq by auto
    have "subseq (xs @ ys) h" unfolding h by (rule list_emb_append_mono) auto
    with IH(1) have "subseq (evictHistory a mx h) h" by (rule subseq_order.trans)
    moreover have "filter (\<lambda>r. isActive a (rec_id r)) (xs @ ys) = filter (\<lambda>r. isActive a (rec_id r)) h"
      using r by (simp add: h)
    ultimately show ?thesis using IH by simp
  qed
qed

lemma evictHistory_keeps_active: "r \<in> set h \<Longrightarrow> isActive a (rec_id r) \<Longrightarrow> r \<in> set (evictHistory a mx h)"
proof -
  assume "r \<in> set h" "isActive a (rec_id r)"
  then have "r \<in> set (filter (\<lambda>r. isActive a (rec_id r)) h)" by simp
  then have "r \<in> set (filter (\<lambda>r. isActive a (rec_id r)) (evictHistory a mx h))"
    using evictHistory_facts [of a mx h] by simp
  then show ?thesis by simp
qed

lemma evictHistory_subset: "r \<in> set (evictHistory a mx h) \<Longrightarrow> r \<in> set h"
  using evictHistory_facts [of a mx h] subseq_subset by blast

section \<open>The invariant\<close>

definition all_concerns :: "concern list" where
  "all_concerns = [ConcernDockerSnapshot, ConcernDockerEvents, ConcernHostsApply, ConcernRecovery]"

definition active_list :: "tracker \<Rightarrow> (concern \<times> 64 word) list" where
  "active_list t = (case active t of None \<Rightarrow> [] | Some a \<Rightarrow> a)"

definition history_limit :: "tracker \<Rightarrow> int" where
  "history_limit t = (if max_records t \<le> 0 then maxHistoryRecords else max_records t)"

text \<open>
  Identifiers are handed out in increasing order and have not wrapped around (\<open>n\<close> more failures
  still fit in 64 bits); every active concern points to its record, which is still in the history;
  the history is never longer than its limit or the number of concerns, whichever is more.
\<close>

definition ids_ok :: "64 word \<Rightarrow> health_record list \<Rightarrow> bool" where
  "ids_ok hi h \<longleftrightarrow> sorted_wrt (<) (map rec_id h) \<and> (\<forall>r\<in>set h. rec_id r \<le> hi)"

definition active_ok :: "(concern \<times> 64 word) list \<Rightarrow> health_record list \<Rightarrow> bool" where
  "active_ok a h \<longleftrightarrow>
     distinct (map fst a) \<and> set (map fst a) \<subseteq> set all_concerns \<and>
     (\<forall>(c, i)\<in>set a. \<exists>r\<in>set h. rec_id r = i \<and> rec_concern r = c)"

definition tracker_inv :: "nat \<Rightarrow> tracker \<Rightarrow> bool" where
  "tracker_inv n t \<longleftrightarrow>
     unat (nextID t) + n < 2 ^ 64 \<and> ids_ok (nextID t) (history t) \<and>
     active_ok (active_list t) (history t) \<and>
     int (length (history t)) \<le> max (history_limit t) (int (length all_concerns))"

lemma active_ok_short:
  assumes "active_ok a h" "sorted_wrt (<) (map rec_id h)" "\<forall>r\<in>set h. isActive a (rec_id r)"
  shows "length h \<le> length all_concerns"
proof -
  have "distinct (map rec_id h)" using assms(2) by (metis strict_sorted_iff)
  then have "length h = card (rec_id ` set h)" by (metis distinct_card length_map list.set_map)
  also have "\<dots> \<le> card (snd ` set a)"
  proof (rule card_mono)
    show "rec_id ` set h \<subseteq> snd ` set a"
    proof
      fix i
      assume "i \<in> rec_id ` set h"
      then have "isActive a i" using assms(3) by auto
      then obtain c where "(c, i) \<in> set a" by (auto simp: isActive_def list_ex_iff)
      then show "i \<in> snd ` set a" by force
    qed
  qed simp
  also have "\<dots> \<le> length a" by (metis card_length length_map list.set_map)
  also have "\<dots> = card (set (map fst a))" using assms(1) by (metis active_ok_def distinct_card length_map)
  also have "\<dots> \<le> card (set all_concerns)" using assms(1) by (intro card_mono) (auto simp: active_ok_def)
  also have "\<dots> \<le> length all_concerns" by (rule card_length)
  finally show ?thesis .
qed

lemma ids_ok_snoc:
  assumes "ids_ok hi h" "unat hi + 1 < 2 ^ 64" "rec_id r = hi + 1"
  shows "ids_ok (hi + 1) (h @ [r])"
proof -
  have "unat (hi + 1) = unat hi + 1"
    using assms(2) by (simp add: unat_word_ariths)
  then have lt: "hi < hi + 1" by (simp add: word_less_nat_alt)
  with assms show ?thesis
    by (auto simp: ids_ok_def sorted_wrt_append intro: order.strict_trans1 less_imp_le)
qed

lemma ids_ok_subseq: "ids_ok hi h \<Longrightarrow> subseq g h \<Longrightarrow> ids_ok hi g"
  using subseq_subset sorted_wrt_subseq [OF subseq_map] unfolding ids_ok_def by blast


subsection \<open>Every operation keeps it\<close>

lemma active_list_update [simp]: "active_list (t\<lparr>active := Some a\<rparr>) = a"
  by (simp add: active_list_def)

lemma tracker_inv_mono: "tracker_inv n t \<Longrightarrow> m \<le> n \<Longrightarrow> tracker_inv m t"
  by (simp add: tracker_inv_def)

lemma tracker_inv_ready [simp]: "tracker_inv n (t\<lparr>ready := b\<rparr>) = tracker_inv n t"
  by (simp add: tracker_inv_def active_list_def history_limit_def)

lemma NewTracker_inv: "tracker_inv (2 ^ 64 - 1) NewTracker"
  by (simp add: tracker_inv_def NewTracker_def newTracker_def ids_ok_def active_ok_def active_list_def)

lemma zeroTracker_inv: "tracker_inv (2 ^ 64 - 1) zeroTracker"
  by (simp add: tracker_inv_def zeroTracker_def ids_ok_def active_ok_def active_list_def)

lemma active_ok_delete:
  assumes "active_ok a h"
  shows "active_ok (AList.delete c a) h"
proof -
  have "set (AList.delete c a) \<subseteq> set a" by (auto simp: AList.delete_eq)
  moreover have "distinct (map fst (AList.delete c a))" using assms by (simp add: active_ok_def distinct_delete)
  ultimately show ?thesis using assms by (fastforce simp: active_ok_def)
qed

lemma Recover_inv: "tracker_inv n t \<Longrightarrow> tracker_inv n (Recover c t)"
  by (cases "active t")
     (auto simp: tracker_inv_def Recover_def active_list_def history_limit_def active_ok_delete)

text \<open>The pieces of a failure.\<close>

definition new_record :: "int \<Rightarrow> concern \<Rightarrow> string \<Rightarrow> tracker \<Rightarrow> health_record" where
  "new_record now c message t =
     \<lparr>Timestamp = now, Message = message, ErrorType = errorType (concernDetailsByConcern c),
      Severity = severity (concernDetailsByConcern c), rec_id = nextID t + 1, rec_concern = c\<rparr>"

lemma Fail_fields:
  shows "nextID (Fail now c message t) = nextID t + 1"
    and "active_list (Fail now c message t) = AList.update c (nextID t + 1) (active_list t)"
    and "history (Fail now c message t) =
      evictHistory (AList.update c (nextID t + 1) (active_list t)) (history_limit t)
        (history t @ [new_record now c message t])"
    and "history_limit (Fail now c message t) = history_limit t"
    and "ready (Fail now c message t) = ready t"
  by (auto simp: Fail_def ensureDefaults_def Let_def active_list_def history_limit_def new_record_def
      maxHistoryRecords_def split: option.splits)

lemma isActive_update_self: "isActive (AList.update c i a) i"
  by (induction a) (auto simp: isActive_def)

lemma isActive_iff: "isActive a i \<longleftrightarrow> (\<exists>c. (c, i) \<in> set a)"
  by (auto simp: isActive_def list_ex_iff)

lemma set_update_alist:
  assumes "(c', i) \<in> set (AList.update c j a)" "distinct (map fst a)"
  shows "(c' = c \<and> i = j) \<or> (c' \<noteq> c \<and> (c', i) \<in> set a)"
  using assms by (induction a) (auto split: if_splits simp: image_iff)

lemma active_ok_Fail:
  assumes "active_ok a h" "c \<in> set all_concerns" "rec_id r = i" "rec_concern r = c"
  shows "active_ok (AList.update c i a) (evictHistory (AList.update c i a) mx (h @ [r]))"
proof -
  let ?a = "AList.update c i a"
  have "distinct (map fst ?a)" using assms(1) by (simp add: active_ok_def distinct_update)
  moreover have "set (map fst ?a) \<subseteq> set all_concerns"
    using assms(1,2) by (simp add: active_ok_def dom_update)
  moreover have "\<exists>x\<in>set (evictHistory ?a mx (h @ [r])). rec_id x = k \<and> rec_concern x = c'"
    if "(c', k) \<in> set ?a" for c' k
  proof -
    have "(c' = c \<and> k = i) \<or> (c', k) \<in> set a"
      using set_update_alist [OF that] assms(1) by (auto simp: active_ok_def)
    then obtain x where "x \<in> set (h @ [r])" "rec_id x = k" "rec_concern x = c'"
      using assms by (fastforce simp: active_ok_def)
    moreover from this that have "isActive ?a (rec_id x)" by (auto simp: isActive_iff)
    ultimately show ?thesis using evictHistory_keeps_active by blast
  qed
  ultimately show ?thesis by (auto simp: active_ok_def)
qed

lemma Fail_inv:
  assumes "tracker_inv (Suc n) t" "c \<in> set all_concerns"
  shows "tracker_inv n (Fail now c message t)"
proof -
  let ?a = "AList.update c (nextID t + 1) (active_list t)"
  let ?h = "history t @ [new_record now c message t]"
  let ?e = "evictHistory ?a (history_limit t) ?h"
  from assms(1) have room: "unat (nextID t) + 1 < 2 ^ 64" by (simp add: tracker_inv_def)
  then have id: "unat (nextID t + 1) = unat (nextID t) + 1" by (simp add: unat_word_ariths)
  have "ids_ok (nextID t + 1) ?h"
    using ids_ok_snoc [OF _ room] assms(1) by (simp add: tracker_inv_def new_record_def)
  then have ids: "ids_ok (nextID t + 1) ?e"
    using ids_ok_subseq evictHistory_facts by blast
  have act: "active_ok ?a ?e"
    by (rule active_ok_Fail) (use assms in \<open>simp_all add: tracker_inv_def new_record_def\<close>)
  have "int (length ?e) \<le> history_limit t \<or> length ?e \<le> length all_concerns"
    using evictHistory_facts active_ok_short [OF act] ids by (metis ids_ok_def)
  then have "int (length ?e) \<le> max (history_limit t) (int (length all_concerns))" by linarith
  with assms(1) id ids act show ?thesis by (simp add: tracker_inv_def Fail_fields)
qed

section \<open>What the daemon relies on\<close>

text \<open>
  The contract of the tracker: for every concern, whether it is failing now and with which message.
  Failing and recovering one concern never touches another, and time plays no part.
  \<open>inv n\<close> is the state with room for \<open>n\<close> more failures.
\<close>

datatype health_op = OpBegin | OpComplete | OpFail int concern string | OpRecover concern

fun known_op :: "health_op \<Rightarrow> bool" where
  "known_op (OpFail now c msg) = (c \<in> set all_concerns)"
| "known_op _ = True"

text \<open>What the last operation on a concern says about it.\<close>

fun verdict :: "concern \<Rightarrow> health_op list \<Rightarrow> string option \<Rightarrow> string option" where
  "verdict c [] v = v"
| "verdict c (OpFail now d msg # ops) v = verdict c ops (if d = c then Some msg else v)"
| "verdict c (OpRecover d # ops) v = verdict c ops (if d = c then None else v)"
| "verdict c (op # ops) v = verdict c ops v"

locale concern_tracker =
  fixes inv :: "nat \<Rightarrow> 't \<Rightarrow> bool"
    and is_ready :: "'t \<Rightarrow> bool"
    and failing :: "'t \<Rightarrow> concern \<rightharpoonup> string"
    and begin_init :: "'t \<Rightarrow> 't"
    and complete_init :: "'t \<Rightarrow> 't"
    and fail :: "int \<Rightarrow> concern \<Rightarrow> string \<Rightarrow> 't \<Rightarrow> 't"
    and recover :: "concern \<Rightarrow> 't \<Rightarrow> 't"
  assumes inv_mono: "inv n t \<Longrightarrow> m \<le> n \<Longrightarrow> inv m t"
    and inv_begin: "inv n t \<Longrightarrow> inv n (begin_init t)"
    and inv_complete: "inv n t \<Longrightarrow> inv n (complete_init t)"
    and inv_fail: "inv (Suc n) t \<Longrightarrow> c \<in> set all_concerns \<Longrightarrow> inv n (fail now c msg t)"
    and inv_recover: "inv n t \<Longrightarrow> inv n (recover c t)"
    and ready_begin: "\<not> is_ready (begin_init t)"
    and ready_complete: "is_ready (complete_init t)"
    and ready_fail: "is_ready (fail now c msg t) = is_ready t"
    and ready_recover: "is_ready (recover c t) = is_ready t"
    and failing_begin: "failing (begin_init t) = failing t"
    and failing_complete: "failing (complete_init t) = failing t"
    and failing_fail: "inv (Suc n) t \<Longrightarrow> c \<in> set all_concerns \<Longrightarrow>
      failing (fail now c msg t) = (failing t)(c \<mapsto> msg)"
    and failing_recover: "inv n t \<Longrightarrow> failing (recover c t) = (failing t)(c := None)"
begin

fun apply_op :: "health_op \<Rightarrow> 't \<Rightarrow> 't" where
  "apply_op OpBegin t = begin_init t"
| "apply_op OpComplete t = complete_init t"
| "apply_op (OpFail now c msg) t = fail now c msg t"
| "apply_op (OpRecover c) t = recover c t"

lemma apply_op_inv: "inv (Suc n) t \<Longrightarrow> known_op x \<Longrightarrow> inv n (apply_op x t)"
  by (cases x) (auto intro: inv_fail inv_begin inv_complete inv_recover inv_mono)

lemma run_inv: "inv (n + length ops) t \<Longrightarrow> \<forall>x\<in>set ops. known_op x \<Longrightarrow> inv n (fold apply_op ops t)"
  by (induction ops arbitrary: t) (auto intro: apply_op_inv)

lemma run_failing:
  "inv (length ops) t \<Longrightarrow> \<forall>x\<in>set ops. known_op x \<Longrightarrow>
     failing (fold apply_op ops t) c = verdict c ops (failing t c)"
proof (induction ops arbitrary: t)
  case (Cons x ops)
  from Cons.prems have v: "inv (length ops) (apply_op x t)" by (auto intro: apply_op_inv)
  have i: "inv (Suc (length ops)) t" using Cons.prems by simp
  show ?case
    using Cons.IH [OF v] Cons.prems(2)
    by (cases x) (auto simp: failing_begin failing_complete failing_recover [OF i] failing_fail [OF i])
qed simp

end

section \<open>The tracker keeps its contract\<close>

text \<open>The message of a concern's active record.\<close>

definition failing :: "tracker \<Rightarrow> concern \<rightharpoonup> string" where
  "failing t c =
     (case map_of (active_list t) c of
        None \<Rightarrow> None
      | Some i \<Rightarrow> map_option Message (find (\<lambda>r. rec_id r = i) (history t)))"

lemma find_by_id:
  assumes "distinct (map rec_id h)" "r \<in> set h"
  shows "find (\<lambda>x. rec_id x = rec_id r) h = Some r"
proof -
  have "\<exists>x. find (\<lambda>x. rec_id x = rec_id r) h = Some x"
    using assms(2) by (metis (mono_tags, lifting) find_None_iff not_None_eq)
  then obtain x where x: "find (\<lambda>x. rec_id x = rec_id r) h = Some x" by blast
  then have "x \<in> set h" "rec_id x = rec_id r" by (auto simp: find_Some_iff)
  with assms x show ?thesis using distinct_map_inj_list by metis
qed

lemma ids_ok_distinct: "ids_ok hi h \<Longrightarrow> distinct (map rec_id h)"
  unfolding ids_ok_def by (metis strict_sorted_iff)

lemma failing_None_iff: "tracker_inv n t \<Longrightarrow> failing t c = None \<longleftrightarrow> c \<notin> fst ` set (active_list t)"
proof -
  assume inv: "tracker_inv n t"
  show ?thesis
  proof (cases "map_of (active_list t) c")
    case None
    moreover from None have "c \<notin> fst ` set (active_list t)" by (simp add: map_of_eq_None_iff)
    ultimately show ?thesis by (simp add: failing_def)
  next
    case (Some i)
    then have m: "(c, i) \<in> set (active_list t)" by (rule map_of_SomeD)
    with inv obtain r where "r \<in> set (history t)" "rec_id r = i" by (auto simp: tracker_inv_def active_ok_def)
    then have "find (\<lambda>r. rec_id r = i) (history t) = Some r"
      using inv find_by_id ids_ok_distinct by (metis tracker_inv_def)
    with Some m show ?thesis by (force simp: failing_def)
  qed
qed

lemma failing_ready [simp]: "failing (t\<lparr>ready := b\<rparr>) = failing t"
  by (auto simp: failing_def active_list_def fun_eq_iff split: option.splits)

lemma Recover_ready [simp]: "ready (Recover c t) = ready t"
  by (simp add: Recover_def)

lemma Recover_failing: "failing (Recover c t) = (failing t)(c := None)"
  by (cases "active t")
     (auto simp: failing_def Recover_def active_list_def delete_conv' fun_eq_iff split: option.splits)

lemma Fail_failing:
  assumes "tracker_inv (Suc n) t" "c \<in> set all_concerns"
  shows "failing (Fail now c message t) = (failing t)(c \<mapsto> message)"
proof
  fix d
  let ?t = "Fail now c message t"
  note inv = Fail_inv [OF assms, of now message]
  from inv have dist: "distinct (map rec_id (history ?t))" using ids_ok_distinct by (auto simp: tracker_inv_def)
  have look: "map_of (active_list ?t) = (map_of (active_list t))(c \<mapsto> nextID t + 1)"
    by (simp add: Fail_fields update_conv')
  have keep: "find (\<lambda>x. rec_id x = rec_id r) (history ?t) = Some r"
    if "r \<in> set (history t @ [new_record now c message t])" "isActive (active_list ?t) (rec_id r)" for r
    using find_by_id [OF dist] evictHistory_keeps_active that by (simp add: Fail_fields)
  show "failing ?t d = ((failing t)(c \<mapsto> message)) d"
  proof (cases "d = c")
    case True
    have "isActive (active_list ?t) (rec_id (new_record now c message t))"
      by (simp add: Fail_fields new_record_def isActive_update_self)
    from keep [OF _ this] show ?thesis using True by (simp add: failing_def look new_record_def)
  next
    case False
    show ?thesis
    proof (cases "map_of (active_list t) d")
      case None
      with False show ?thesis by (simp add: failing_def look)
    next
      case (Some i)
      then have "(d, i) \<in> set (active_list t)" by (rule map_of_SomeD)
      with assms(1) obtain r where r: "r \<in> set (history t)" "rec_id r = i"
        by (auto simp: tracker_inv_def active_ok_def)
      have "map_of (active_list ?t) d = Some i" using Some False look by simp
      then have "(d, i) \<in> set (active_list ?t)" by (rule map_of_SomeD)
      then have "find (\<lambda>x. rec_id x = i) (history ?t) = Some r"
        using keep [of r] r by (auto simp: isActive_iff)
      moreover have "find (\<lambda>x. rec_id x = i) (history t) = Some r"
        using find_by_id [of "history t" r] r assms(1) ids_ok_distinct by (auto simp: tracker_inv_def)
      ultimately show ?thesis using Some False by (simp add: failing_def look)
    qed
  qed
qed

interpretation health: concern_tracker tracker_inv ready failing BeginInitialization
    CompleteInitialization Fail Recover
  by unfold_locales
     (auto simp: BeginInitialization_def CompleteInitialization_def Fail_fields Recover_failing
       intro: tracker_inv_mono Fail_inv Recover_inv Fail_failing)

text \<open>The operations the daemon performs on its tracker, in any order.\<close>

fun health_step :: "health_op \<Rightarrow> tracker \<Rightarrow> tracker" where
  "health_step OpBegin t = BeginInitialization t"
| "health_step OpComplete t = CompleteInitialization t"
| "health_step (OpFail now c msg) t = Fail now c msg t"
| "health_step (OpRecover c) t = Recover c t"

lemma health_step_eq: "health_step = health.apply_op"
proof (intro ext)
  fix x t
  show "health_step x t = health.apply_op x t" by (cases x) auto
qed

section \<open>Properties\<close>

text \<open>
  C27. Whatever the daemon reports, in whatever order (up to 2^64 - 1 reports): every active concern
  still has its record in the history, identifiers stay in order, and no more than ten records are
  kept.
\<close>

theorem tracker_history_bounded:
  assumes "length ops < 2 ^ 64" and "\<forall>x\<in>set ops. known_op x"
  shows "tracker_inv 0 (fold health_step ops NewTracker) \<and>
    length (history (fold health_step ops NewTracker)) \<le> 10"
proof -
  let ?t = "fold health_step ops NewTracker"
  have "tracker_inv (0 + length ops) NewTracker"
    using NewTracker_inv tracker_inv_mono assms(1) by fastforce
  then have inv: "tracker_inv 0 ?t"
    using assms(2) health.run_inv [of 0 ops NewTracker] by (simp add: health_step_eq)
  have lim: "history_limit (health_step x t) = history_limit t" for x t
    by (cases x) (simp_all add: Fail_fields, simp_all add: history_limit_def BeginInitialization_def
        CompleteInitialization_def Recover_def)
  have "history_limit (fold health_step ops t) = history_limit t" for t
    by (induction ops arbitrary: t) (simp_all add: lim)
  then have "history_limit ?t = 10"
    by (simp add: history_limit_def NewTracker_def newTracker_def maxHistoryRecords_def)
  with inv have "length (history ?t) \<le> 10" by (simp add: tracker_inv_def all_concerns_def)
  with inv show ?thesis by blast
qed

theorem tracker_history_bounded_witness:
  "length (history (fold health_step (replicate 30 (OpFail 7 ConcernHostsApply ''disk full'')) NewTracker)) \<le> 10"
  by (rule tracker_history_bounded [THEN conjunct2]) (simp_all add: all_concerns_def)

text \<open>
  C28. A concern is failing exactly when the last report about it was a failure, and then with that
  failure's message: reports about other concerns and initialization do not change it, and only a
  recovery of the same concern clears it.
\<close>

theorem failing_is_last_report:
  assumes "length ops < 2 ^ 64" and "\<forall>x\<in>set ops. known_op x"
  shows "failing (fold health_step ops NewTracker) c = verdict c ops None"
proof -
  have "tracker_inv (length ops) NewTracker"
    using NewTracker_inv tracker_inv_mono assms(1) by fastforce
  moreover have "failing NewTracker c = None"
    by (simp add: failing_def active_list_def NewTracker_def newTracker_def)
  ultimately show ?thesis
    using health.run_failing [of ops NewTracker c] assms(2) by (simp add: health_step_eq)
qed

theorem failing_is_last_report_witness:
  "failing (fold health_step [OpFail 1 ConcernHostsApply ''a'', OpFail 2 ConcernDockerEvents ''b'',
      OpRecover ConcernDockerEvents, OpFail 3 ConcernHostsApply ''c'', OpComplete] NewTracker)
     ConcernHostsApply = Some ''c''"
  by (subst failing_is_last_report) (simp_all add: all_concerns_def concern_defs)

end
