(* ===== verification/Health_Handler.thy ===== *)
theory Health_Handler
  imports Tracker
begin

text \<open>
  The health endpoint (\<open>health/handler.go\<close>): the response rendered from a tracker snapshot.
  \<open>newestActive\<close> is a pointer that the degraded branch dereferences; a nil dereference is the
  result \<open>None\<close>, and the tracker's invariant is what rules it out.
\<close>

section \<open>The response\<close>

record responseRecord =
  rr_Timestamp :: int
  rr_Message :: string
  rr_ErrorType :: string
  rr_Severity :: string
  rr_RecoveryPeriod :: string
  rr_TimeUntilRecovered :: string

record healthResponse =
  Healthy :: bool
  Status :: string
  resp_Message :: string
  ErrorCount :: int
  Errors :: "responseRecord list"
  Reason :: string
  TimeUntilHealthy :: string

definition unknownRecovery :: string where
  "unknownRecovery = ''unknown''"

text \<open>The set of active identifiers; its size is what the message counts.\<close>

definition active_ids :: "snapshot \<Rightarrow> 64 word list" where
  "active_ids s = remdups (map snd (case Active s of None \<Rightarrow> [] | Some a \<Rightarrow> a))"

definition response_record :: "64 word list \<Rightarrow> health_record \<Rightarrow> responseRecord" where
  "response_record ids r =
     (let recovery = (if rec_id r \<in> set ids then unknownRecovery else ''0s'')
      in \<lparr>rr_Timestamp = Timestamp r, rr_Message = Message r, rr_ErrorType = ErrorType r,
          rr_Severity = Severity r, rr_RecoveryPeriod = recovery, rr_TimeUntilRecovered = recovery\<rparr>)"

definition newest_active :: "64 word list \<Rightarrow> health_record list \<Rightarrow> health_record option" where
  "newest_active ids h =
     foldl (\<lambda>newest r.
        if rec_id r \<in> set ids \<and> (case newest of None \<Rightarrow> True | Some n \<Rightarrow> rec_id n < rec_id r)
        then Some r else newest) None h"

definition renderSnapshot :: "snapshot \<Rightarrow> healthResponse option" where
  "renderSnapshot s =
     (let ids = active_ids s;
          response = \<lparr>Healthy = Ready s \<and> length ids = 0, Status = [], resp_Message = [],
                      ErrorCount = int (length (History s)),
                      Errors = map (response_record ids) (History s), Reason = [], TimeUntilHealthy = []\<rparr>;
          newestActive = newest_active ids (History s)
      in if \<not> Ready s then
           Some (response\<lparr>Status := ''degraded'', resp_Message := ''System initializing'',
                          Reason := ''initialization has not completed'',
                          TimeUntilHealthy := unknownRecovery\<rparr>)
         else if Healthy response then
           Some (response\<lparr>Status := ''ok'',
                          resp_Message := (if ErrorCount response > 0 then ''All active conditions recovered''
                                           else ''No errors recorded'')\<rparr>)
         else (case newestActive of
                 None \<Rightarrow> None
               | Some r \<Rightarrow>
                   Some (response\<lparr>Status := ''degraded'',
                           resp_Message := ''System degraded: '' @ Itoa (int (length ids)) @ '' active condition(s)'',
                           Reason := Message r, TimeUntilHealthy := unknownRecovery\<rparr>)))"

text \<open>\<open>NewHandler\<close>: the status code and the body of a request.\<close>

definition handle_health :: "tracker \<Rightarrow> (nat \<times> healthResponse) option" where
  "handle_health t =
     map_option (\<lambda>response. (if Healthy response then 200 else 503, response))
       (renderSnapshot (tracker_Snapshot t))"

section \<open>The newest active record\<close>

lemma newest_active_facts:
  assumes "\<exists>r\<in>set h. rec_id r \<in> set ids"
  obtains r where "newest_active ids h = Some r" "r \<in> set h" "rec_id r \<in> set ids"
    "\<forall>x\<in>set h. rec_id x \<in> set ids \<longrightarrow> rec_id x \<le> rec_id r"
proof -
  let ?f = "\<lambda>newest r. if rec_id r \<in> set ids \<and> (case newest of None \<Rightarrow> True | Some n \<Rightarrow> rec_id n < rec_id r)
      then Some r else newest"
  let ?ok = "\<lambda>xs res. (case res of
      None \<Rightarrow> \<forall>x\<in>set xs. rec_id x \<notin> set ids
    | Some r \<Rightarrow> r \<in> set xs \<and> rec_id r \<in> set ids \<and> (\<forall>x\<in>set xs. rec_id x \<in> set ids \<longrightarrow> rec_id x \<le> rec_id r))"
  have "?ok h (newest_active ids h)"
    unfolding newest_active_def
  proof (induction h rule: rev_induct)
    case (snoc x xs)
    show ?case
    proof (cases "foldl ?f None xs")
      case None
      with snoc show ?thesis by auto
    next
      case (Some r)
      with snoc show ?thesis by auto
    qed
  qed simp
  with assms that show ?thesis by (auto split: option.splits)
qed

lemma active_ids_Snapshot: "active_ids (tracker_Snapshot t) = remdups (map snd (active_list t))"
  by (simp add: active_ids_def tracker_Snapshot_def active_list_def)

lemma no_active_iff: "tracker_inv n t \<Longrightarrow> active_list t = [] \<longleftrightarrow> failing t = Map.empty"
  using failing_None_iff [of n t] by (auto simp: fun_eq_iff)

text \<open>Distinct concerns have distinct active identifiers.\<close>

lemma active_ids_distinct:
  assumes "tracker_inv n t"
  shows "distinct (map snd (active_list t))"
proof -
  let ?a = "active_list t"
  have "inj_on snd (set ?a)"
  proof (rule inj_onI)
    fix x y
    assume xy: "x \<in> set ?a" "y \<in> set ?a" "snd x = snd y"
    obtain r where r: "r \<in> set (history t)" "rec_id r = snd x" "rec_concern r = fst x"
      using assms xy(1) by (fastforce simp: tracker_inv_def active_ok_def)
    obtain q where q: "q \<in> set (history t)" "rec_id q = snd y" "rec_concern q = fst y"
      using assms xy(2) by (fastforce simp: tracker_inv_def active_ok_def)
    have "distinct (map rec_id (history t))" using assms ids_ok_distinct by (auto simp: tracker_inv_def)
    with r q xy(3) have "r = q" using distinct_map_inj_list by metis
    with r q xy(3) show "x = y" by (simp add: prod_eq_iff)
  qed
  moreover have "distinct ?a" using assms by (auto simp: tracker_inv_def active_ok_def distinct_map)
  ultimately show ?thesis by (simp add: distinct_map)
qed

lemma card_failing:
  assumes "tracker_inv n t"
  shows "length (active_ids (tracker_Snapshot t)) = card (dom (failing t))"
proof -
  have "dom (failing t) = fst ` set (active_list t)"
    using failing_None_iff [OF assms] by (auto simp: dom_def)
  moreover have "card (set (map fst (active_list t))) = length (map fst (active_list t))"
    using assms by (intro distinct_card) (simp add: tracker_inv_def active_ok_def)
  moreover have "length (remdups (map snd (active_list t))) = length (active_list t)"
    using active_ids_distinct [OF assms] by (metis distinct_remdups_id length_map)
  ultimately show ?thesis by (simp add: active_ids_Snapshot)
qed

lemma active_record:
  assumes "tracker_inv n t" "r \<in> set (history t)" "rec_id r \<in> snd ` set (active_list t)"
  shows "failing t (rec_concern r) = Some (Message r)"
proof -
  obtain c where c: "(c, rec_id r) \<in> set (active_list t)" using assms(3) by force
  then obtain q where q: "q \<in> set (history t)" "rec_id q = rec_id r" "rec_concern q = c"
    using assms(1) by (fastforce simp: tracker_inv_def active_ok_def)
  have dist: "distinct (map rec_id (history t))" using assms(1) ids_ok_distinct by (auto simp: tracker_inv_def)
  then have "q = r" using q assms(2) distinct_map_inj_list by metis
  moreover have "map_of (active_list t) c = Some (rec_id r)"
    using c assms(1) by (simp add: tracker_inv_def active_ok_def)
  ultimately show ?thesis using q find_by_id [OF dist assms(2)] by (simp add: failing_def)
qed

text \<open>What the handler answers, in its three cases.\<close>

definition answers :: "tracker \<Rightarrow> healthResponse \<Rightarrow> bool" where
  "answers t resp \<longleftrightarrow>
     Errors resp = map (response_record (active_ids (tracker_Snapshot t))) (history t) \<and>
     ErrorCount resp = int (length (history t)) \<and> Healthy resp = (ready t \<and> failing t = Map.empty) \<and>
     (if \<not> ready t
      then Status resp = ''degraded'' \<and> resp_Message resp = ''System initializing'' \<and>
        Reason resp = ''initialization has not completed''
      else if failing t = Map.empty
      then Status resp = ''ok'' \<and> Reason resp = [] \<and>
        resp_Message resp = (if history t = [] then ''No errors recorded'' else ''All active conditions recovered'')
      else Status resp = ''degraded'' \<and>
        resp_Message resp = ''System degraded: '' @ Itoa (int (card (dom (failing t)))) @ '' active condition(s)'' \<and>
        (\<exists>r. newest_active (active_ids (tracker_Snapshot t)) (history t) = Some r \<and> Reason resp = Message r))"

lemma handle_health_answers:
  assumes "tracker_inv n t"
  shows "\<exists>resp. handle_health t = Some (if ready t \<and> failing t = Map.empty then 200 else 503, resp) \<and> answers t resp"
proof (cases "ready t \<and> active_list t \<noteq> []")
  case True
  let ?ids = "active_ids (tracker_Snapshot t)"
  obtain c i where "(c, i) \<in> set (active_list t)" using True by (cases "active_list t") auto
  then obtain q where "q \<in> set (history t)" "rec_id q \<in> set ?ids"
    using assms by (force simp: tracker_inv_def active_ok_def active_ids_Snapshot)
  then obtain r where r: "newest_active ?ids (history t) = Some r"
    using newest_active_facts by blast
  have "?ids \<noteq> []" using True by (simp add: active_ids_Snapshot)
  with True r no_active_iff [OF assms] card_failing [OF assms] show ?thesis
    by (simp add: answers_def handle_health_def renderSnapshot_def Let_def tracker_Snapshot_def [of t])
next
  case False
  then have "\<not> ready t \<or> active_ids (tracker_Snapshot t) = []" by (auto simp: active_ids_Snapshot)
  with False no_active_iff [OF assms] show ?thesis
    by (auto simp: answers_def handle_health_def renderSnapshot_def Let_def tracker_Snapshot_def [of t])
qed

section \<open>Properties\<close>

text \<open>
  C29. The health endpoint always answers (the nil dereference cannot happen), with 200 exactly when
  initialization is complete and no concern is failing, and with 503 otherwise. It lists the whole retained
  history, record by record and in order, with the recovery of a record unknown exactly while it is the active record
  of a concern; its status and message say whether the system is initializing, in order, or how many concerns are failing.
\<close>

theorem handle_health_status:
  assumes "tracker_inv n t"
  shows "\<exists>code resp. handle_health t = Some (code, resp) \<and>
    code = (if ready t \<and> failing t = Map.empty then 200 else 503) \<and>
    Healthy resp = (ready t \<and> failing t = Map.empty) \<and> ErrorCount resp = int (length (history t)) \<and>
    Errors resp = map (\<lambda>r. let recovery = (if rec_id r \<in> snd ` set (active_list t) then ''unknown'' else ''0s'')
      in \<lparr>rr_Timestamp = Timestamp r, rr_Message = Message r, rr_ErrorType = ErrorType r, rr_Severity = Severity r,
          rr_RecoveryPeriod = recovery, rr_TimeUntilRecovered = recovery\<rparr>) (history t) \<and>
    Status resp = (if ready t \<and> failing t = Map.empty then ''ok'' else ''degraded'') \<and>
    resp_Message resp =
      (if \<not> ready t then ''System initializing''
       else if failing t \<noteq> Map.empty
       then ''System degraded: '' @ Itoa (int (card (dom (failing t)))) @ '' active condition(s)''
       else if history t = [] then ''No errors recorded'' else ''All active conditions recovered'')"
proof -
  obtain resp where resp: "handle_health t = Some (if ready t \<and> failing t = Map.empty then 200 else 503, resp)" "answers t resp"
    using handle_health_answers [OF assms] by blast
  have "Errors resp = map (\<lambda>r. let recovery = (if rec_id r \<in> snd ` set (active_list t) then ''unknown'' else ''0s'')
      in \<lparr>rr_Timestamp = Timestamp r, rr_Message = Message r, rr_ErrorType = ErrorType r, rr_Severity = Severity r,
          rr_RecoveryPeriod = recovery, rr_TimeUntilRecovered = recovery\<rparr>) (history t)"
    using resp(2) by (simp add: answers_def response_record_def [abs_def] unknownRecovery_def Let_def active_ids_Snapshot)
  with resp show ?thesis by (simp add: answers_def)
qed

theorem handle_health_status_witness:
  "\<exists>resp. handle_health (Fail 3 ConcernHostsApply ''disk full'' NewTracker) = Some (503, resp) \<and>
     resp_Message resp = ''System degraded: 1 active condition(s)''"
proof -
  let ?t = "Fail 3 ConcernHostsApply ''disk full'' NewTracker"
  have start: "tracker_inv (Suc 0) NewTracker" using NewTracker_inv tracker_inv_mono by fastforce
  have c: "ConcernHostsApply \<in> set all_concerns" by (simp add: all_concerns_def)
  have inv: "tracker_inv 0 ?t" using Fail_inv [OF start c] .
  have "failing ?t = [ConcernHostsApply \<mapsto> ''disk full'']"
    unfolding Fail_failing [OF start c]
    by (simp add: failing_def NewTracker_def newTracker_def active_list_def fun_eq_iff)
  moreover have "ready ?t" by (simp add: Fail_fields NewTracker_def newTracker_def)
  ultimately show ?thesis
    using handle_health_status [OF inv] by (auto simp: Itoa_def dec_nat.simps char_of_digits)
qed



end
