(* ===== verification/Go_Parse.thy ===== *)
theory Go_Parse
  imports Net_Addr
begin

text \<open>
  The parsers of the standard library the command line goes through: \<open>netip.ParseAddr\<close>,
  \<open>time.ParseDuration\<close> (with the rounding of its \<open>float64\<close> fraction) and
  \<open>strconv.ParseUint\<close> in base ten.
\<close>

definition is_digit :: "char \<Rightarrow> bool" where
  "is_digit c \<longleftrightarrow> 48 \<le> byte c \<and> byte c \<le> 57"

definition digit_val :: "char \<Rightarrow> nat" where
  "digit_val c = byte c - 48"

section \<open>Addresses\<close>

text \<open>
  \<open>parseIPv4Fields\<close>, byte by byte: the previous byte (none at the start), the value and number of
  digits of the current field, and the fields before it.
\<close>

fun parseIPv4Fields :: "char option \<Rightarrow> nat \<Rightarrow> nat \<Rightarrow> nat list \<Rightarrow> string \<Rightarrow> string + nat list" where
  "parseIPv4Fields prev val digLen fields [] =
     (if length fields < 3 then Inl ''IPv4 address too short'' else Inr (fields @ [val]))"
| "parseIPv4Fields prev val digLen fields (c # cs) =
     (if is_digit c then
        (if digLen = 1 \<and> val = 0 then Inl ''IPv4 field has octet with leading zero''
         else if 255 < val * 10 + digit_val c then Inl ''IPv4 field has value >255''
         else parseIPv4Fields (Some c) (val * 10 + digit_val c) (Suc digLen) fields cs)
      else if c = CHR ''.'' then
        (if prev = None \<or> cs = [] \<or> prev = Some (CHR ''.'')
         then Inl ''IPv4 field must have at least one digit''
         else if length fields = 3 then Inl ''IPv4 address too long''
         else parseIPv4Fields (Some c) 0 0 (fields @ [val]) cs)
      else Inl ''unexpected character'')"

definition bytes_val :: "nat list \<Rightarrow> nat" where
  "bytes_val bs = foldl (\<lambda>a b. a * 256 + b) 0 bs"

definition parseIPv4 :: "string \<Rightarrow> string + addr" where
  "parseIPv4 s =
     (case parseIPv4Fields None 0 0 [] s of
        Inl e \<Rightarrow> Inl e
      | Inr fields \<Rightarrow> Inr (V4 (of_nat (bytes_val fields))))"

definition hex_val :: "char \<Rightarrow> nat option" where
  "hex_val c =
     (if is_digit c then Some (digit_val c)
      else if 97 \<le> byte c \<and> byte c \<le> 102 then Some (byte c - 87)
      else if 65 \<le> byte c \<and> byte c \<le> 70 then Some (byte c - 55)
      else None)"

text \<open>One hexadecimal group: its value and what follows it.\<close>

fun hex_group :: "nat \<Rightarrow> nat \<Rightarrow> string \<Rightarrow> string + (nat \<times> nat \<times> string)" where
  "hex_group off acc [] = Inr (off, acc, [])"
| "hex_group off acc (c # cs) =
     (case hex_val c of
        None \<Rightarrow> Inr (off, acc, c # cs)
      | Some d \<Rightarrow>
          if 3 < off then Inl ''each group must have 4 or less digits''
          else hex_group (Suc off) (acc * 16 + d) cs)"

text \<open>
  The loop over the groups. \<open>ip\<close> are the bytes so far, \<open>ellipsis\<close> the position of \<open>::\<close>;
  the result is the bytes, the ellipsis and the text that was not read. Every turn reads at least one
  digit.
\<close>

lemma hex_group_shorter:
  "hex_group off acc s = Inr (off', acc', s') \<Longrightarrow> off \<le> off' \<and> length s' + (off' - off) = length s"
proof (induction off acc s rule: hex_group.induct)
  case (2 off acc c cs)
  then show ?case
    by (cases "hex_val c") (auto split: if_splits dest: "2.IH")
qed simp

function ipv6_groups :: "nat list \<Rightarrow> nat option \<Rightarrow> string \<Rightarrow> string + (nat list \<times> nat option \<times> string)" where
  "ipv6_groups ip ellipsis s =
     (if 16 \<le> length ip then Inr (ip, ellipsis, s)
      else case hex_group 0 0 s of
        Inl e \<Rightarrow> Inl e
      | Inr (off, acc, rest) \<Rightarrow>
          if off = 0 then Inl ''each colon-separated field must have at least one digit''
          else if rest \<noteq> [] \<and> hd rest = CHR ''.'' then
            (if ellipsis = None \<and> length ip \<noteq> 12
             then Inl ''embedded IPv4 address must replace the final 2 fields of the address''
             else if 16 < length ip + 4
             then Inl ''too many hex fields to fit an embedded IPv4 at the end of the address''
             else case parseIPv4Fields None 0 0 [] s of
               Inl e \<Rightarrow> Inl e
             | Inr fields \<Rightarrow> Inr (ip @ fields, ellipsis, []))
          else if rest = [] then Inr (ip @ [acc div 256, acc mod 256], ellipsis, [])
          else if hd rest \<noteq> CHR '':'' then Inl ''unexpected character, want colon''
          else if tl rest = [] then Inl ''colon must be followed by more characters''
          else if hd (tl rest) = CHR '':'' then
            (if ellipsis \<noteq> None then Inl ''multiple :: in address''
             else if tl (tl rest) = []
             then Inr (ip @ [acc div 256, acc mod 256], Some (length ip + 2), [])
             else ipv6_groups (ip @ [acc div 256, acc mod 256]) (Some (length ip + 2)) (tl (tl rest)))
          else ipv6_groups (ip @ [acc div 256, acc mod 256]) ellipsis (tl rest))"
  by pat_completeness auto
termination
  by (relation "measure (\<lambda>(ip, _, _). 16 - length ip)") auto

declare ipv6_groups.simps [simp del]

definition parseIPv6 :: "string \<Rightarrow> string + addr" where
  "parseIPv6 text =
     (let s = takeWhile (\<lambda>c. c \<noteq> CHR ''%'') text;
          zone = (if CHR ''%'' \<in> set text then Some (tl (dropWhile (\<lambda>c. c \<noteq> CHR ''%'') text)) else None)
      in if zone = Some [] then Inl ''zone must be a non-empty string''
         else
           let z = (case zone of None \<Rightarrow> [] | Some z \<Rightarrow> z);
               leading = (take 2 s = ''::'');
               body = (if leading then drop 2 s else s)
           in if leading \<and> body = [] then Inr (V6 0 z)
              else case ipv6_groups [] (if leading then Some 0 else None) body of
                Inl e \<Rightarrow> Inl e
              | Inr (ip, ellipsis, rest) \<Rightarrow>
                  if rest \<noteq> [] then Inl ''trailing garbage after address''
                  else case ellipsis of
                    None \<Rightarrow>
                      if length ip < 16 then Inl ''address string too short''
                      else Inr (V6 (of_nat (bytes_val ip)) z)
                  | Some k \<Rightarrow>
                      if length ip < 16
                      then Inr (V6 (of_nat (bytes_val (take k ip @ replicate (16 - length ip) 0 @ drop k ip))) z)
                      else Inl ''the :: must expand to at least one field of zeros'')"

text \<open>The first of dot, colon and percent decides.\<close>

fun ParseAddr_from :: "string \<Rightarrow> string \<Rightarrow> string + addr" where
  "ParseAddr_from s [] = Inl ''unable to parse IP''"
| "ParseAddr_from s (c # cs) =
     (if c = CHR ''.'' then parseIPv4 s
      else if c = CHR '':'' then parseIPv6 s
      else if c = CHR ''%'' then Inl ''missing IPv6 address''
      else ParseAddr_from s cs)"

definition ParseAddr :: "string \<Rightarrow> go_error + addr" where
  "ParseAddr s =
     (case ParseAddr_from s s of
        Inl msg \<Rightarrow> Inl (Errorf [Lit ''ParseAddr('', Quoted s, Lit ''): '', Lit msg])
      | Inr a \<Rightarrow> Inr a)"

lemma parseIPv4_IsValid: "parseIPv4 s = Inr a \<Longrightarrow> IsValid a"
  by (auto simp: parseIPv4_def IsValid_def split: sum.splits)

lemma parseIPv6_IsValid: "parseIPv6 s = Inr a \<Longrightarrow> IsValid a"
  unfolding parseIPv6_def Let_def IsValid_def by (auto split: sum.splits if_splits option.splits)

lemma ParseAddr_IsValid: "ParseAddr s = Inr a \<Longrightarrow> IsValid a"
proof -
  have "IsValid a" if "ParseAddr_from s r = Inr a" for r
    using that
    by (induction s r rule: ParseAddr_from.induct)
       (auto simp: parseIPv4_IsValid parseIPv6_IsValid split: if_splits)
  then show "ParseAddr s = Inr a \<Longrightarrow> IsValid a" by (auto simp: ParseAddr_def split: sum.splits)
qed

section \<open>Rounding to double precision\<close>

text \<open>
  A non-negative rational \<open>p / q\<close> rounded to 53 bits, ties to even; results are again rationals.
  The exponents in use are far from the limits of \<open>float64\<close>.
\<close>

function scale_up :: "nat \<Rightarrow> nat \<Rightarrow> nat \<times> nat" where
  "scale_up p q = (if 0 < p \<and> p < 2 ^ 52 * q then case scale_up (2 * p) q of (k, r) \<Rightarrow> (Suc k, r) else (0, p))"
  by pat_completeness auto
termination
proof (relation "measure (\<lambda>(p, q). 2 ^ 52 * q - p)")
  show "wf (measure (\<lambda>(p, q). 2 ^ 52 * q - (p::nat)))" by simp
  fix p q :: nat
  assume "0 < p \<and> p < 2 ^ 52 * q"
  then show "((2 * p, q), p, q) \<in> measure (\<lambda>(p, q). 2 ^ 52 * q - p)" by (simp add: diff_less_mono2)
qed

function scale_down :: "nat \<Rightarrow> nat \<Rightarrow> nat \<times> nat" where
  "scale_down p q = (if 0 < q \<and> 2 ^ 53 * q \<le> p then case scale_down p (2 * q) of (k, r) \<Rightarrow> (Suc k, r) else (0, q))"
  by pat_completeness auto
termination
proof (relation "measure (\<lambda>(p, q). Suc p - q)")
  show "wf (measure (\<lambda>(p, q). Suc p - (q::nat)))" by simp
  fix p q :: nat
  assume a: "0 < q \<and> 2 ^ 53 * q \<le> p"
  then have "q \<le> p" by simp
  with a show "((p, 2 * q), p, q) \<in> measure (\<lambda>(p, q). Suc p - q)" by (simp add: diff_less_mono2)
qed

declare scale_up.simps [simp del] scale_down.simps [simp del]

definition round_half_even :: "nat \<Rightarrow> nat \<Rightarrow> nat" where
  "round_half_even p q =
     (let d = p div q; r = p mod q
      in if 2 * r < q then d else if q < 2 * r then Suc d else if even d then d else Suc d)"

definition float64 :: "nat \<Rightarrow> nat \<Rightarrow> nat \<times> nat" where
  "float64 p q =
     (let (up, p') = scale_up p q; (down, q') = scale_down p' q
      in (round_half_even p' q' * 2 ^ down, 2 ^ up))"

text \<open>\<open>uint64(float64(f) * (float64(unit) / scale))\<close>\<close>

definition frac_units :: "nat \<Rightarrow> nat \<Rightarrow> nat \<Rightarrow> nat" where
  "frac_units f unit scale =
     (let (fp, fq) = float64 f 1; (up, uq) = float64 unit scale; (p, q) = float64 (fp * up) (fq * uq)
      in p div q)"

section \<open>Durations\<close>

abbreviation MaxInt64 :: int where "MaxInt64 \<equiv> 2 ^ 63 - 1"

text \<open>Digits at the front; \<open>None\<close> when they overflow.\<close>

fun leadingInt :: "nat \<Rightarrow> string \<Rightarrow> (nat \<times> string) option" where
  "leadingInt x [] = Some (x, [])"
| "leadingInt x (c # cs) =
     (if \<not> is_digit c then Some (x, c # cs)
      else if 2 ^ 63 div 10 < x then None
      else if 2 ^ 63 < x * 10 + digit_val c then None
      else leadingInt (x * 10 + digit_val c) cs)"

text \<open>Digits of a fraction, ignoring those that overflow.\<close>

fun leadingFraction :: "nat \<Rightarrow> nat \<Rightarrow> bool \<Rightarrow> string \<Rightarrow> nat \<times> nat \<times> string" where
  "leadingFraction x scale overflow [] = (x, scale, [])"
| "leadingFraction x scale overflow (c # cs) =
     (if \<not> is_digit c then (x, scale, c # cs)
      else if overflow then leadingFraction x scale overflow cs
      else if (2 ^ 63 - 1) div 10 < x then leadingFraction x scale True cs
      else if 2 ^ 63 < x * 10 + digit_val c then leadingFraction x scale True cs
      else leadingFraction (x * 10 + digit_val c) (scale * 10) False cs)"

definition unitMap :: "string \<Rightarrow> nat option" where
  "unitMap u =
     (if u = ''ns'' then Some 1
      else if u = ''us'' \<or> u = [CHR 0xC2, CHR 0xB5, CHR ''s''] \<or> u = [CHR 0xCE, CHR 0xBC, CHR ''s''] then Some 1000
      else if u = ''ms'' then Some 1000000
      else if u = ''s'' then Some 1000000000
      else if u = ''m'' then Some (60 * 1000000000)
      else if u = ''h'' then Some (3600 * 1000000000)
      else None)"

definition dur_error :: "string \<Rightarrow> string \<Rightarrow> go_error" where
  "dur_error msg orig = Errorf [Lit ''time: '', Lit msg, Lit '' duration '', Quoted orig]"

lemma leadingInt_length: "leadingInt x s = Some (v, r) \<Longrightarrow> length r \<le> length s"
  by (induction x s rule: leadingInt.induct) (auto split: if_splits)

lemma leadingFraction_length: "leadingFraction x sc ov s = (f, sc', r) \<Longrightarrow> length r \<le> length s"
  by (induction x sc ov s rule: leadingFraction.induct) (auto split: if_splits)

text \<open>One number with its unit: what it adds, and what follows it.\<close>

definition duration_item :: "string \<Rightarrow> string \<Rightarrow> go_error + (nat \<times> string)" where
  "duration_item orig s =
     (if \<not> (hd s = CHR ''.'' \<or> is_digit (hd s)) then Inl (dur_error ''invalid'' orig)
      else case leadingInt 0 s of
        None \<Rightarrow> Inl (dur_error ''invalid'' orig)
      | Some (v, s1) \<Rightarrow>
          let pre = (length s1 \<noteq> length s);
              dot = (s1 \<noteq> [] \<and> hd s1 = CHR ''.'');
              (f, scale, s2) = (if dot then leadingFraction 0 1 False (tl s1) else (0, 1, s1));
              post = (dot \<and> length s2 \<noteq> length (tl s1))
          in if \<not> pre \<and> \<not> post then Inl (dur_error ''invalid'' orig)
             else
               let u = takeWhile (\<lambda>c. \<not> (c = CHR ''.'' \<or> is_digit c)) s2;
                   s3 = dropWhile (\<lambda>c. \<not> (c = CHR ''.'' \<or> is_digit c)) s2
               in if u = [] then Inl (dur_error ''missing unit in'' orig)
                  else case unitMap u of
                    None \<Rightarrow>
                      Inl (Errorf [Lit ''time: unknown unit '', Quoted u, Lit '' in duration '', Quoted orig])
                  | Some unit \<Rightarrow>
                      if 2 ^ 63 div unit < v then Inl (dur_error ''invalid'' orig)
                      else
                        let v' = (if 0 < f then v * unit + frac_units f unit scale else v * unit)
                        in if 0 < f \<and> 2 ^ 63 < v' then Inl (dur_error ''invalid'' orig)
                           else Inr (v', s3))"

lemma duration_item_shorter:
  assumes "duration_item orig s = Inr (v, s')" "s \<noteq> []"
  shows "length s' < length s"
proof -
  from assms obtain v1 s1 where li: "leadingInt 0 s = Some (v1, s1)"
    by (auto simp: duration_item_def split: if_splits option.splits)
  define dot where "dot = (s1 \<noteq> [] \<and> hd s1 = CHR ''.'')"
  obtain f sc s2 where fr: "(if dot then leadingFraction 0 1 False (tl s1) else (0, 1, s1)) = (f, sc, s2)"
    by (metis prod.exhaust)
  have le: "length s2 \<le> length s1"
    using fr leadingFraction_length [of 0 1 False "tl s1"] by (fastforce split: if_splits)
  note le1 = leadingInt_length [OF li]
  let ?P = "\<lambda>c. \<not> (c = CHR ''.'' \<or> is_digit c)"
  from assms li fr have "takeWhile ?P s2 \<noteq> []" "s' = dropWhile ?P s2"
    unfolding duration_item_def dot_def
    by (auto simp: Let_def split: if_splits option.splits)
  then have "length s' < length s2"
    by (metis length_append length_greater_0_conv less_add_same_cancel2 takeWhile_dropWhile_id)
  with le le1 show ?thesis by simp
qed

text \<open>The sum is a \<open>uint64\<close> and is checked after every item.\<close>

function duration_loop :: "string \<Rightarrow> nat \<Rightarrow> string \<Rightarrow> go_error + nat" where
  "duration_loop orig d s =
     (if s = [] then Inr d
      else case duration_item orig s of
        Inl e \<Rightarrow> Inl e
      | Inr (v, s') \<Rightarrow>
          let d' = (d + v) mod 2 ^ 64
          in if 2 ^ 63 < d' then Inl (dur_error ''invalid'' orig) else duration_loop orig d' s')"
  by pat_completeness auto
termination
  by (relation "measure (\<lambda>(_, _, s). length s)") (auto dest: duration_item_shorter)

declare duration_loop.simps [simp del]

definition time_ParseDuration :: "string \<Rightarrow> go_error + int" where
  "time_ParseDuration orig =
     (let signed = (orig \<noteq> [] \<and> (hd orig = CHR ''-'' \<or> hd orig = CHR ''+''));
          neg = (orig \<noteq> [] \<and> hd orig = CHR ''-'');
          s = (if signed then tl orig else orig)
      in if s = ''0'' then Inr 0
         else if s = [] then Inl (dur_error ''invalid'' orig)
         else case duration_loop orig 0 s of
           Inl e \<Rightarrow> Inl e
         | Inr d \<Rightarrow>
             if neg then Inr (- int d)
             else if MaxInt64 < int d then Inl (dur_error ''invalid'' orig)
             else Inr (int d))"

lemma duration_loop_bound: "duration_loop orig d s = Inr n \<Longrightarrow> d \<le> 2 ^ 63 \<Longrightarrow> n \<le> 2 ^ 63"
proof (induction orig d s rule: duration_loop.induct)
  case (1 orig d s)
  show ?case
  proof (cases "s = []")
    case True
    with 1 show ?thesis by (simp add: duration_loop.simps)
  next
    case False
    with 1(2) obtain v s' where it: "duration_item orig s = Inr (v, s')"
      by (subst (asm) duration_loop.simps) (auto split: sum.splits)
    with 1(2) False have nxt: "\<not> 2 ^ 63 < (d + v) mod 2 ^ 64" "duration_loop orig ((d + v) mod 2 ^ 64) s' = Inr n"
      by (subst (asm) duration_loop.simps, auto simp: Let_def split: if_splits)+
    from "1.IH" [OF False it refl refl nxt] nxt(1) show ?thesis by simp
  qed
qed

lemma time_ParseDuration_bounds:
  "time_ParseDuration s = Inr d \<Longrightarrow> - (2 ^ 63) \<le> d \<and> d \<le> MaxInt64"
  using duration_loop_bound [of s 0]
  by (fastforce simp: time_ParseDuration_def Let_def split: if_splits sum.splits)

text \<open>\<open>strconv.ParseUint(s, 10, 64)\<close>.\<close>

definition dec_val :: "string \<Rightarrow> nat" where
  "dec_val s = foldl (\<lambda>a c. a * 10 + digit_val c) 0 s"

definition ParseUint :: "string \<Rightarrow> go_error + nat" where
  "ParseUint s =
     (if s = [] \<or> \<not> list_all is_digit s
      then Inl (Errorf [Lit ''strconv.ParseUint: parsing '', Quoted s, Lit '': invalid syntax''])
      else if 2 ^ 64 \<le> dec_val s
      then Inl (Errorf [Lit ''strconv.ParseUint: parsing '', Quoted s, Lit '': value out of range''])
      else Inr (dec_val s))"

lemma digit_char:
  assumes "n < 10"
  shows "is_digit (char_of (48 + n))" and "digit_val (char_of (48 + n)) = n"
  using assms by (simp_all add: is_digit_def digit_val_def)

lemma dec_nat_all_digits: "list_all is_digit (dec_nat n)"
  using dec_nat_digits by (auto simp: list_all_iff is_digit_def)

lemma dec_val_snoc: "dec_val (s @ [c]) = dec_val s * 10 + digit_val c"
  by (simp add: dec_val_def)

lemma dec_val_dec_nat [simp]: "dec_val (dec_nat n) = n"
proof (induction n rule: dec_nat.induct)
  case (1 n)
  show ?case
  proof (cases "n < 10")
    case True
    then show ?thesis using digit_char(2) [of n] by (simp add: dec_nat.simps [of n] dec_val_def)
  next
    case False
    with 1 show ?thesis
      using digit_char(2) [of "n mod 10"] by (subst dec_nat.simps) (simp add: dec_val_snoc)
  qed
qed

lemma ParseUint_dec_nat: "n < 2 ^ 64 \<Longrightarrow> ParseUint (dec_nat n) = Inr n"
  using dec_nat_all_digits [of n] by (simp add: ParseUint_def)

end
