(* ===== verification/Config.thy ===== *)
theory Config
  imports Go_Parse Go_Path
begin

text \<open>
  The command line (\<open>command/config.go\<close>, \<open>command/duration.go\<close>, \<open>command/root.go\<close>): the
  options with their defaults, the parsers of networks and durations, the validation of the
  configuration and the functions the two commands run. Parsing the flags themselves is cobra's.
\<close>

section \<open>Durations\<close>

definition day :: int where
  "day = 24 * (3600 * 1000000000)"

definition ParseDuration :: "string \<Rightarrow> go_error + int" where
  "ParseDuration raw =
     (case time_ParseDuration raw of
        Inr parsed \<Rightarrow>
          if parsed \<le> 0 then Inl (errors_New ''duration must be positive'') else Inr parsed
      | Inl parseErr \<Rightarrow>
          let isDays = (raw \<noteq> [] \<and> last raw = CHR ''d'');
              daysRaw = butlast raw;
              bad = (\<lambda>e. Inl (Wrapf [Lit ''parse duration '', Quoted raw, Lit '': ''] e []))
          in if \<not> isDays \<or> daysRaw = [] then bad parseErr
             else if list_ex (\<lambda>digit. digit < 48 \<or> 57 < digit) (runes daysRaw) then bad parseErr
             else (case ParseUint daysRaw of
                     Inl e \<Rightarrow> bad e
                   | Inr days \<Rightarrow>
                       if days = 0 then Inl (errors_New ''duration must be positive'')
                       else if MaxInt64 div day < int days
                       then Inl (Errorf [Lit ''duration '', Quoted raw, Lit '' overflows time.Duration''])
                       else Inr (int days * day)))"

section \<open>Networks\<close>

definition invalidNetworkRune :: "nat \<Rightarrow> bool" where
  "invalidNetworkRune r \<longleftrightarrow> r = 35 \<or> IsSpace r \<or> IsControl r"

text \<open>The loop of \<open>ParseNetworks\<close>; the networks seen are those collected.\<close>

fun parseNetworksLoop :: "string list \<Rightarrow> string list \<Rightarrow> go_error + string list" where
  "parseNetworksLoop networks [] = Inr networks"
| "parseNetworksLoop networks (raw # rest) =
     (let network = TrimSpace raw
      in if network = [] then parseNetworksLoop networks rest
         else if AnyRune invalidNetworkRune network
         then Inl (Errorf [Lit ''network '', Quoted network, Lit '' contains whitespace, control characters, or #''])
         else if network \<in> set networks then parseNetworksLoop networks rest
         else parseNetworksLoop (networks @ [network]) rest)"

definition ParseNetworks :: "string \<Rightarrow> string \<Rightarrow> go_error + (string list \<times> string)" where
  "ParseNetworks raw requestedDefault =
     (case parseNetworksLoop [] (Split raw (CHR '','')) of
        Inl e \<Rightarrow> Inl e
      | Inr networks \<Rightarrow>
          if networks = [] then Inl (errors_New ''at least one network must be specified'')
          else
            let requested = TrimSpace requestedDefault
            in if requested \<noteq> [] then
                 (if requested \<notin> set networks
                  then Inl (Errorf [Lit ''default network '', Quoted requested, Lit '' is not monitored''])
                  else Inr (networks, requested))
               else if ''saltbox'' \<in> set networks then Inr (networks, ''saltbox'')
               else Inr (networks, networks ! 0))"

section \<open>Validation\<close>

record command_Config =
  Networks :: "string list"
  DefaultNetwork :: string
  HostsFile :: string
  BackupFile :: string
  SectionName :: string
  PeriodicInterval :: int
  DebounceDelay :: int
  MaxDebounceDelay :: int
  HealthAddr :: string
  HealthPort :: int

record RegenerateConfig =
  rc_HostsFile :: string
  rc_BackupFile :: string
  rc_SectionName :: string

fun validateNetworksLoop :: "string set \<Rightarrow> string list \<Rightarrow> err" where
  "validateNetworksLoop seen [] = None"
| "validateNetworksLoop seen (network # rest) =
     (if network = [] \<or> TrimSpace network \<noteq> network \<or> AnyRune invalidNetworkRune network
      then Some (Errorf [Lit ''network '', Quoted network, Lit '' is not normalized''])
      else if network \<in> seen
      then Some (Errorf [Lit ''network '', Quoted network, Lit '' is duplicated''])
      else validateNetworksLoop (insert network seen) rest)"

definition validateNetworks :: "string list \<Rightarrow> string \<Rightarrow> err" where
  "validateNetworks networks defaultNetwork =
     (if networks = [] then Some (errors_New ''at least one network must be specified'')
      else case validateNetworksLoop {} networks of
        Some e \<Rightarrow> Some e
      | None \<Rightarrow>
          if defaultNetwork \<notin> set networks
          then Some (Errorf [Lit ''default network '', Quoted defaultNetwork, Lit '' is not monitored''])
          else None)"

definition validateCleanPath :: "string \<Rightarrow> string \<Rightarrow> err" where
  "validateCleanPath name path =
     (if TrimSpace path = [] then Some (Errorf [Lit name, Lit '' must be non-empty''])
      else if Clean path \<noteq> path then Some (Errorf [Lit name, Lit '' '', Quoted path, Lit '' is not cleaned''])
      else None)"

definition validateFileConfig :: "string \<Rightarrow> string \<Rightarrow> string \<Rightarrow> err" where
  "validateFileConfig hostsFile backupFile sectionName =
     (case validateCleanPath ''hosts file'' hostsFile of
        Some e \<Rightarrow> Some e
      | None \<Rightarrow>
        (case validateCleanPath ''backup file'' backupFile of
           Some e \<Rightarrow> Some e
         | None \<Rightarrow>
             if hostsFile = backupFile
             then Some (errors_New ''hosts file and backup file must be different paths'')
             else if TrimSpace sectionName = [] then Some (errors_New ''section name must be non-empty'')
             else if CHR 0x0D \<in> set sectionName \<or> CHR 0x0A \<in> set sectionName
             then Some (errors_New ''section name must be a single line'')
             else None))"

definition Validate :: "command_Config \<Rightarrow> err" where
  "Validate c =
     (case validateNetworks (Networks c) (DefaultNetwork c) of
        Some e \<Rightarrow> Some e
      | None \<Rightarrow>
        (case validateFileConfig (HostsFile c) (BackupFile c) (SectionName c) of
           Some e \<Rightarrow> Some e
         | None \<Rightarrow>
             if PeriodicInterval c \<le> 0 then Some (errors_New ''periodic interval must be positive'')
             else if DebounceDelay c \<le> 0 then Some (errors_New ''debounce delay must be positive'')
             else if MaxDebounceDelay c \<le> 0 then Some (errors_New ''maximum debounce delay must be positive'')
             else if MaxDebounceDelay c < DebounceDelay c
             then Some (errors_New ''maximum debounce delay must not be less than debounce delay'')
             else if HealthAddr c = [] \<or> TrimSpace (HealthAddr c) \<noteq> HealthAddr c
             then Some (errors_New ''health address must be non-empty and normalized'')
             else case ParseAddr (HealthAddr c) of
               Inl e \<Rightarrow>
                 Some (Wrapf [Lit ''health address '', Quoted (HealthAddr c),
                   Lit '' must be a literal IPv4 or IPv6 address: ''] e [])
             | Inr _ \<Rightarrow>
                 if HealthPort c < 1 \<or> 65535 < HealthPort c
                 then Some (Errorf [Lit ''health port '', Dec (HealthPort c), Lit '' is outside 1..65535''])
                 else None))"

section \<open>The commands\<close>

record rootOptions =
  opt_interval :: string
  opt_healthPort :: int
  opt_healthAddr :: string
  opt_hostsFile :: string
  opt_backupFile :: string
  opt_networks :: string
  opt_defaultNetwork :: string
  opt_sectionName :: string
  opt_debounceDelay :: string
  opt_maxDebounceDelay :: string

record regenerateOptions =
  ropt_hostsFile :: string
  ropt_backupFile :: string
  ropt_sectionName :: string

definition cleanPath :: "string \<Rightarrow> string" where
  "cleanPath path = (if TrimSpace path = [] then [] else Clean path)"

definition rootOptions_config :: "rootOptions \<Rightarrow> bool \<Rightarrow> go_error + command_Config" where
  "rootOptions_config opts defaultNetworkSet =
     (if defaultNetworkSet \<and> TrimSpace (opt_defaultNetwork opts) = []
      then Inl (errors_New ''default network must be non-empty when explicitly set'')
      else case ParseNetworks (opt_networks opts) (opt_defaultNetwork opts) of
        Inl e \<Rightarrow> Inl e
      | Inr (networks, defaultNetwork) \<Rightarrow>
        (case ParseDuration (opt_interval opts) of
           Inl e \<Rightarrow> Inl (Wrapf [Lit ''invalid interval '', Quoted (opt_interval opts), Lit '': ''] e [])
         | Inr interval \<Rightarrow>
           (case ParseDuration (opt_debounceDelay opts) of
              Inl e \<Rightarrow> Inl (Wrapf [Lit ''invalid debounce-delay '', Quoted (opt_debounceDelay opts), Lit '': ''] e [])
            | Inr debounceDelay \<Rightarrow>
              (case ParseDuration (opt_maxDebounceDelay opts) of
                 Inl e \<Rightarrow>
                   Inl (Wrapf [Lit ''invalid debounce-max-delay '', Quoted (opt_maxDebounceDelay opts), Lit '': ''] e [])
               | Inr maxDebounceDelay \<Rightarrow>
                   let cfg = \<lparr>Networks = networks, DefaultNetwork = defaultNetwork,
                              HostsFile = cleanPath (opt_hostsFile opts), BackupFile = cleanPath (opt_backupFile opts),
                              SectionName = opt_sectionName opts, PeriodicInterval = interval,
                              DebounceDelay = debounceDelay, MaxDebounceDelay = maxDebounceDelay,
                              HealthAddr = TrimSpace (opt_healthAddr opts), HealthPort = opt_healthPort opts\<rparr>
                   in (case Validate cfg of Some e \<Rightarrow> Inl e | None \<Rightarrow> Inr cfg)))))"

definition regenerateOptions_config :: "regenerateOptions \<Rightarrow> go_error + RegenerateConfig" where
  "regenerateOptions_config opts =
     (let cfg = \<lparr>rc_HostsFile = cleanPath (ropt_hostsFile opts), rc_BackupFile = cleanPath (ropt_backupFile opts),
                 rc_SectionName = ropt_sectionName opts\<rparr>
      in case validateFileConfig (rc_HostsFile cfg) (rc_BackupFile cfg) (rc_SectionName cfg) of
           Some e \<Rightarrow> Inl e
         | None \<Rightarrow> Inr cfg)"

text \<open>The defaults of the flags, and what the two commands run; a nil function is \<open>None\<close>.\<close>

definition root_flags :: rootOptions where
  "root_flags =
     \<lparr>opt_interval = ''5m'', opt_healthPort = 8080, opt_healthAddr = ''127.0.0.1'',
      opt_hostsFile = ''/etc/hosts'', opt_backupFile = ''/etc/hosts.backup'', opt_networks = ''saltbox'',
      opt_defaultNetwork = [], opt_sectionName = ''DOCKER CONTAINERS'', opt_debounceDelay = ''1s'',
      opt_maxDebounceDelay = ''5s''\<rparr>"

definition regenerate_flags :: regenerateOptions where
  "regenerate_flags =
     \<lparr>ropt_hostsFile = ''/etc/hosts'', ropt_backupFile = ''/etc/hosts.backup'',
      ropt_sectionName = ''DOCKER CONTAINERS''\<rparr>"

definition NewRoot_RunE ::
  "(command_Config \<Rightarrow> 'w \<Rightarrow> err \<times> 'w) option \<Rightarrow> rootOptions \<Rightarrow> bool \<Rightarrow> 'w \<Rightarrow> err \<times> 'w" where
  "NewRoot_RunE run options defaultNetworkChanged w =
     (case rootOptions_config options defaultNetworkChanged of
        Inl e \<Rightarrow> (Some e, w)
      | Inr cfg \<Rightarrow>
          (case run of
             None \<Rightarrow> (Some (errors_New ''run function is required''), w)
           | Some f \<Rightarrow> f cfg w))"

definition newRegenerateCommand_RunE ::
  "(RegenerateConfig \<Rightarrow> 'w \<Rightarrow> err \<times> 'w) option \<Rightarrow> regenerateOptions \<Rightarrow> 'w \<Rightarrow> err \<times> 'w" where
  "newRegenerateCommand_RunE regenerate options w =
     (case regenerateOptions_config options of
        Inl e \<Rightarrow> (Some e, w)
      | Inr cfg \<Rightarrow>
          (case regenerate of
             None \<Rightarrow> (Some (errors_New ''regenerate function is required''), w)
           | Some f \<Rightarrow> f cfg w))"

section \<open>What the parsers accept\<close>

lemma leadingInt_digits:
  "list_all is_digit ds \<Longrightarrow> \<not> is_digit c \<Longrightarrow>
     leadingInt x (ds @ c # r) = None \<or> (\<exists>v. leadingInt x (ds @ c # r) = Some (v, c # r))"
  by (induction ds arbitrary: x) auto

lemma time_ParseDuration_days:
  assumes "list_all is_digit ds" "ds \<noteq> []"
  shows "\<exists>e. time_ParseDuration (ds @ ''d'') = Inl e"
proof -
  let ?s = "ds @ ''d''"
  have hd: "is_digit (hd ?s)" using assms by (cases ds) auto
  then have nosign: "hd ?s \<noteq> CHR ''-''" "hd ?s \<noteq> CHR ''+''" by (auto simp: is_digit_def)
  have nd: "\<not> is_digit (CHR ''d'')" by (simp add: is_digit_def)
  have "\<exists>e. duration_item ?s ?s = Inl e"
  proof (cases "leadingInt 0 ?s")
    case None
    with hd show ?thesis by (simp add: duration_item_def)
  next
    case (Some q)
    with leadingInt_digits [OF assms(1) nd, of 0 "[]"] obtain v where
      "leadingInt 0 ?s = Some (v, ''d'')" by auto
    with hd nd assms(2) show ?thesis by (simp add: duration_item_def unitMap_def Let_def)
  qed
  then obtain e where "duration_item ?s ?s = Inl e" by blast
  then have "duration_loop ?s 0 ?s = Inl e" by (subst duration_loop.simps) simp
  moreover have "?s \<noteq> ''0''" by (cases ds) auto
  ultimately show ?thesis using nosign assms(2) by (simp add: time_ParseDuration_def Let_def)
qed

lemma runes_digits: "list_all is_digit ds \<Longrightarrow> runes ds = map byte ds"
  by (rule runes_all_ascii) (auto simp: list_all_iff is_digit_def)

text \<open>The networks of a list of options, each once, in the order they first appear.\<close>

definition network_tokens :: "string \<Rightarrow> string list" where
  "network_tokens raw = filter (\<lambda>t. t \<noteq> []) (map TrimSpace (Split raw (CHR '','')))"

definition first_uses :: "'a list \<Rightarrow> 'a list" where
  "first_uses xs = rev (remdups (rev xs))"

lemma first_uses_snoc: "first_uses (xs @ [x]) = (if x \<in> set xs then first_uses xs else first_uses xs @ [x])"
  by (simp add: first_uses_def)

lemma first_uses_simps [simp]:
  "set (first_uses xs) = set xs" "distinct (first_uses xs)" "first_uses xs = [] \<longleftrightarrow> xs = []" "first_uses [] = []"
  by (simp_all add: first_uses_def)

lemma first_uses_hd: "xs \<noteq> [] \<Longrightarrow> first_uses xs ! 0 = hd xs"
proof (induction xs rule: rev_induct)
  case (snoc x xs)
  then show ?case by (cases "xs = []") (auto simp: first_uses_snoc first_uses_def [of "[x]"] nth_append)
qed simp

lemma parseNetworksLoop_spec:
  "parseNetworksLoop (first_uses seen) raws =
     (case find (AnyRune invalidNetworkRune) (filter (\<lambda>t. t \<noteq> []) (map TrimSpace raws)) of
        Some t \<Rightarrow> Inl (Errorf [Lit ''network '', Quoted t, Lit '' contains whitespace, control characters, or #''])
      | None \<Rightarrow> Inr (first_uses (seen @ filter (\<lambda>t. t \<noteq> []) (map TrimSpace raws))))"
proof (induction raws arbitrary: seen)
  case (Cons r rs)
  show ?case
  proof (cases "TrimSpace r = []")
    case True
    with Cons [of seen] show ?thesis by (simp add: Let_def split: option.splits)
  next
    case ne: False
    show ?thesis
    proof (cases "AnyRune invalidNetworkRune (TrimSpace r)")
      case True
      with ne show ?thesis by (simp add: Let_def)
    next
      case False
      note False = ne False
      have "parseNetworksLoop (first_uses seen) (r # rs) = parseNetworksLoop (first_uses (seen @ [TrimSpace r])) rs"
        using False by (simp add: Let_def first_uses_snoc)
      with Cons.IH [of "seen @ [TrimSpace r]"] False show ?thesis by (simp split: option.splits)
    qed
  qed
qed simp

lemma ParseNetworks_iff:
  "ParseNetworks raw req = Inr (ns, d) \<longleftrightarrow>
     list_all (\<lambda>t. \<not> AnyRune invalidNetworkRune t) (network_tokens raw) \<and> network_tokens raw \<noteq> [] \<and>
     ns = first_uses (network_tokens raw) \<and> d \<in> set (network_tokens raw) \<and>
     d = (if TrimSpace req \<noteq> [] then TrimSpace req
          else if ''saltbox'' \<in> set (network_tokens raw) then ''saltbox'' else hd (network_tokens raw))"
proof -
  have loop: "parseNetworksLoop [] (Split raw (CHR '','')) =
      (case find (AnyRune invalidNetworkRune) (network_tokens raw) of
         Some t \<Rightarrow> Inl (Errorf [Lit ''network '', Quoted t, Lit '' contains whitespace, control characters, or #''])
       | None \<Rightarrow> Inr (first_uses (network_tokens raw)))"
    using parseNetworksLoop_spec [of "[]" "Split raw (CHR '','')"]
    by (simp add: network_tokens_def split: option.splits)
  show ?thesis
  proof (cases "find (AnyRune invalidNetworkRune) (network_tokens raw)")
    case (Some t)
    then have "\<not> list_all (\<lambda>t. \<not> AnyRune invalidNetworkRune t) (network_tokens raw)"
      by (auto simp: find_Some_iff list_all_iff)
    with Some loop show ?thesis by (simp add: ParseNetworks_def)
  next
    case None
    then have "list_all (\<lambda>t. \<not> AnyRune invalidNetworkRune t) (network_tokens raw)"
      by (auto simp: find_None_iff list_all_iff)
    with None loop show ?thesis
      by (auto simp: ParseNetworks_def Let_def first_uses_hd split: if_splits)
  qed
qed

lemma network_token: "t \<in> set (network_tokens raw) \<Longrightarrow> t \<noteq> [] \<and> TrimSpace t = t"
  by (auto simp: network_tokens_def)

definition normal_network :: "string \<Rightarrow> bool" where
  "normal_network n \<longleftrightarrow> n \<noteq> [] \<and> TrimSpace n = n \<and> \<not> AnyRune invalidNetworkRune n"

lemma validateNetworksLoop_iff:
  "validateNetworksLoop seen ns = None \<longleftrightarrow>
     list_all normal_network ns \<and> distinct ns \<and> set ns \<inter> seen = {}"
  by (induction seen ns rule: validateNetworksLoop.induct) (auto simp: normal_network_def)

lemma validateNetworks_iff:
  "validateNetworks ns d = None \<longleftrightarrow> ns \<noteq> [] \<and> list_all normal_network ns \<and> distinct ns \<and> d \<in> set ns"
  using validateNetworksLoop_iff [of "{}" ns] by (auto simp: validateNetworks_def split: option.splits)

lemma ParseNetworks_valid: "ParseNetworks raw req = Inr (ns, d) \<Longrightarrow> validateNetworks ns d = None"
  using network_token [of _ raw]
  by (auto simp: ParseNetworks_iff validateNetworks_iff normal_network_def list_all_iff)

lemma validateCleanPath_iff:
  "validateCleanPath name p = None \<longleftrightarrow> TrimSpace p \<noteq> [] \<and> Clean p = p"
  by (simp add: validateCleanPath_def)

definition single_line :: "string \<Rightarrow> bool" where
  "single_line s \<longleftrightarrow> CHR 0x0D \<notin> set s \<and> CHR 0x0A \<notin> set s"

lemma validateFileConfig_iff:
  "validateFileConfig h b s = None \<longleftrightarrow>
     TrimSpace h \<noteq> [] \<and> Clean h = h \<and> TrimSpace b \<noteq> [] \<and> Clean b = b \<and> h \<noteq> b \<and>
     TrimSpace s \<noteq> [] \<and> single_line s"
  using validateCleanPath_iff [of "''hosts file''" h] validateCleanPath_iff [of "''backup file''" b]
  by (auto simp: validateFileConfig_def single_line_def split: option.splits)

lemma Validate_iff:
  "Validate c = None \<longleftrightarrow>
     validateNetworks (Networks c) (DefaultNetwork c) = None \<and>
     validateFileConfig (HostsFile c) (BackupFile c) (SectionName c) = None \<and>
     0 < PeriodicInterval c \<and> 0 < DebounceDelay c \<and> DebounceDelay c \<le> MaxDebounceDelay c \<and>
     TrimSpace (HealthAddr c) = HealthAddr c \<and> (\<exists>a. ParseAddr (HealthAddr c) = Inr a) \<and>
     1 \<le> HealthPort c \<and> HealthPort c \<le> 65535"
proof -
  have ne: "ParseAddr [] \<noteq> Inr a" for a by (simp add: ParseAddr_def)
  show ?thesis using ne by (auto simp: Validate_def split: option.splits sum.splits)
qed

lemma ParseDuration_positive_lemma: "ParseDuration raw = Inr d \<Longrightarrow> 0 < d \<and> d \<le> MaxInt64"
proof -
  assume p: "ParseDuration raw = Inr d"
  show ?thesis
  proof (cases "time_ParseDuration raw")
    case (Inr x)
    with p time_ParseDuration_bounds [OF Inr] show ?thesis by (auto simp: ParseDuration_def split: if_splits)
  next
    case (Inl e)
    with p obtain n where n: "n \<noteq> 0" "int n \<le> MaxInt64 div day" "d = int n * day"
      by (auto simp: ParseDuration_def Let_def split: if_splits sum.splits)
    have pos: "0 < day" by (simp add: day_def)
    have "int n * day \<le> MaxInt64 div day * day" using n(2) pos by (intro mult_right_mono) auto
    also have "\<dots> \<le> MaxInt64" using pos by (simp add: day_def)
    finally show ?thesis using n pos by simp
  qed
qed

lemma ParseUint_Inr_iff:
  "ParseUint s = Inr n \<longleftrightarrow> s \<noteq> [] \<and> list_all is_digit s \<and> dec_val s < 2 ^ 64 \<and> n = dec_val s"
  by (auto simp: ParseUint_def)

text \<open>
  C39. Durations: what \<open>time.ParseDuration\<close> accepts is returned as it is if it is positive; otherwise exactly the
  texts of decimal digits and a \<open>d\<close> are accepted, as that number of days, if it is positive and fits. Nothing else is
  accepted, and every accepted duration is positive and fits \<open>time.Duration\<close>, so nothing wraps around.
\<close>

theorem ParseDuration_spec:
  "(ParseDuration raw = Inr x \<longleftrightarrow>
      0 < x \<and> time_ParseDuration raw = Inr x \<or>
      (\<exists>ds. raw = ds @ ''d'' \<and> ds \<noteq> [] \<and> list_all is_digit ds \<and> 0 < dec_val ds \<and>
         x = int (dec_val ds) * day \<and> x \<le> MaxInt64)) \<and>
   (case ParseDuration raw of Inl _ \<Rightarrow> True | Inr d \<Rightarrow> 0 < d \<and> d \<le> MaxInt64)"
proof -
  have "ParseDuration raw = Inr x \<longleftrightarrow> 0 < x \<and> time_ParseDuration raw = Inr x \<or>
      (\<exists>ds. raw = ds @ ''d'' \<and> ds \<noteq> [] \<and> list_all is_digit ds \<and> 0 < dec_val ds \<and>
         x = int (dec_val ds) * day \<and> x \<le> MaxInt64)" (is "?l \<longleftrightarrow> ?go \<or> (\<exists>ds. ?days ds)")
  proof (cases "time_ParseDuration raw")
    case (Inr v)
    then have "\<not> (\<exists>ds. ?days ds)" using time_ParseDuration_days by (metis sum.distinct(1))
    with Inr show ?thesis by (auto simp: ParseDuration_def)
  next
    case (Inl e)
    have "?l \<longleftrightarrow> (\<exists>ds. ?days ds)"
    proof
      assume l: "?l"
      with Inl have "raw \<noteq> []" "last raw = CHR ''d''"
        by (auto simp: ParseDuration_def Let_def split: if_splits)
      then obtain ds where raw: "raw = ds @ ''d''" by (metis append_butlast_last_id)
      have "?days ds"
        using l Inl by (auto simp: raw ParseDuration_def ParseUint_Inr_iff not_less Let_def split: if_splits sum.splits)
          (simp add: day_def)
      then show "\<exists>ds. ?days ds" ..
    next
      assume "\<exists>ds. ?days ds"
      then obtain ds where ds: "?days ds" by blast
      have "\<not> list_ex (\<lambda>digit. digit < 48 \<or> 57 < digit) (runes ds)"
        using ds by (auto simp: runes_digits list_ex_iff list_all_iff is_digit_def)
      moreover have "dec_val ds < 2 ^ 64" using ds by (auto simp: day_def)
      moreover have "ParseUint ds = Inr (dec_val ds)" using ds calculation(2) by (simp add: ParseUint_Inr_iff)
      ultimately show ?l using Inl ds by (simp add: ParseDuration_def day_def Let_def not_less)
    qed
    with Inl show ?thesis by simp
  qed
  then show ?thesis using ParseDuration_positive_lemma by (auto split: sum.splits)
qed

text \<open>
  The network option: it is accepted exactly when at least one name is given and no name holds a
  space, a control character or a number sign; the result lists the trimmed names once each in the
  order of their first use, and the default is the requested network if it is monitored, else
  \<open>saltbox\<close> if it is monitored, else the first.
\<close>

lemma ParseNetworks_spec:
  "ParseNetworks raw req = Inr (ns, d) \<longleftrightarrow>
     list_all (\<lambda>t. \<not> AnyRune invalidNetworkRune t) (network_tokens raw) \<and> network_tokens raw \<noteq> [] \<and>
     ns = first_uses (network_tokens raw) \<and> d \<in> set (network_tokens raw) \<and>
     d = (if TrimSpace req \<noteq> [] then TrimSpace req
          else if ''saltbox'' \<in> set (network_tokens raw) then ''saltbox'' else hd (network_tokens raw))"
  by (rule ParseNetworks_iff)

text \<open>
  C38. The command line is accepted exactly when its options make sense: the networks and the three
  durations parse, the debounce delay is at most its maximum, the cleaned paths are not blank and
  differ, the section name is one non-blank line, the health address is a literal address and the port
  is between 1 and 65535. The configuration is then the normalized one, field by field; normalization never
  produces a configuration that validation then refuses for not being normalized.
\<close>

theorem rootOptions_config_accepts_iff:
  "rootOptions_config opts changed = Inr cfg \<longleftrightarrow>
     \<not> (changed \<and> TrimSpace (opt_defaultNetwork opts) = []) \<and>
     (\<exists>ns d i lo hi.
        ParseNetworks (opt_networks opts) (opt_defaultNetwork opts) = Inr (ns, d) \<and>
        ParseDuration (opt_interval opts) = Inr i \<and> ParseDuration (opt_debounceDelay opts) = Inr lo \<and>
        ParseDuration (opt_maxDebounceDelay opts) = Inr hi \<and> lo \<le> hi \<and>
        cfg = \<lparr>Networks = ns, DefaultNetwork = d, HostsFile = cleanPath (opt_hostsFile opts),
          BackupFile = cleanPath (opt_backupFile opts), SectionName = opt_sectionName opts, PeriodicInterval = i,
          DebounceDelay = lo, MaxDebounceDelay = hi, HealthAddr = TrimSpace (opt_healthAddr opts),
          HealthPort = opt_healthPort opts\<rparr>) \<and>
     TrimSpace (cleanPath (opt_hostsFile opts)) \<noteq> [] \<and> TrimSpace (cleanPath (opt_backupFile opts)) \<noteq> [] \<and>
     cleanPath (opt_hostsFile opts) \<noteq> cleanPath (opt_backupFile opts) \<and>
     TrimSpace (opt_sectionName opts) \<noteq> [] \<and> single_line (opt_sectionName opts) \<and>
     (\<exists>a. ParseAddr (TrimSpace (opt_healthAddr opts)) = Inr a) \<and>
     1 \<le> opt_healthPort opts \<and> opt_healthPort opts \<le> 65535"
proof -
  have trim: "TrimSpace [] = []" by (simp add: TrimSpace_def trim_segs_def)
  have clean: "Clean (cleanPath p) = cleanPath p" if "TrimSpace (cleanPath p) \<noteq> []" for p
    using that trim by (auto simp: cleanPath_def split: if_splits)
  show ?thesis
  proof (cases "(\<exists>ns d. ParseNetworks (opt_networks opts) (opt_defaultNetwork opts) = Inr (ns, d)) \<and>
      (\<exists>i. ParseDuration (opt_interval opts) = Inr i) \<and> (\<exists>lo. ParseDuration (opt_debounceDelay opts) = Inr lo) \<and>
      (\<exists>hi. ParseDuration (opt_maxDebounceDelay opts) = Inr hi)")
    case False
    then show ?thesis by (auto simp: rootOptions_config_def split: sum.splits)
  next
    case True
    then obtain ns d i lo hi where p: "ParseNetworks (opt_networks opts) (opt_defaultNetwork opts) = Inr (ns, d)"
      "ParseDuration (opt_interval opts) = Inr i" "ParseDuration (opt_debounceDelay opts) = Inr lo"
      "ParseDuration (opt_maxDebounceDelay opts) = Inr hi" by blast
    let ?cfg = "\<lparr>Networks = ns, DefaultNetwork = d, HostsFile = cleanPath (opt_hostsFile opts),
        BackupFile = cleanPath (opt_backupFile opts), SectionName = opt_sectionName opts, PeriodicInterval = i,
        DebounceDelay = lo, MaxDebounceDelay = hi, HealthAddr = TrimSpace (opt_healthAddr opts),
        HealthPort = opt_healthPort opts\<rparr>"
    have "rootOptions_config opts changed = Inr cfg \<longleftrightarrow>
        \<not> (changed \<and> TrimSpace (opt_defaultNetwork opts) = []) \<and> Validate ?cfg = None \<and> cfg = ?cfg"
      by (auto simp: rootOptions_config_def p Let_def split: option.splits)
    then show ?thesis
      using p ParseNetworks_valid [OF p(1)] ParseDuration_positive_lemma [OF p(2)]
        ParseDuration_positive_lemma [OF p(3)] clean
      by (auto simp: Validate_iff validateFileConfig_iff)
  qed
qed

text \<open>Without options the daemon gets the documented defaults.\<close>

lemma default_options_config:
  "rootOptions_config root_flags False =
     Inr \<lparr>Networks = [''saltbox''], DefaultNetwork = ''saltbox'', HostsFile = ''/etc/hosts'',
       BackupFile = ''/etc/hosts.backup'', SectionName = ''DOCKER CONTAINERS'',
       PeriodicInterval = 300 * 1000000000, DebounceDelay = 1000000000, MaxDebounceDelay = 5 * 1000000000,
       HealthAddr = ''127.0.0.1'', HealthPort = 8080\<rparr> \<and>
   regenerateOptions_config regenerate_flags =
     Inr \<lparr>rc_HostsFile = ''/etc/hosts'', rc_BackupFile = ''/etc/hosts.backup'',
       rc_SectionName = ''DOCKER CONTAINERS''\<rparr>"
proof -
  have dur: "ParseDuration ''5m'' = Inr (300 * 1000000000)" "ParseDuration ''1s'' = Inr 1000000000"
    "ParseDuration ''5s'' = Inr (5 * 1000000000)"
    by (simp_all add: ParseDuration_def time_ParseDuration_def duration_loop.simps duration_item_def is_digit_def
        digit_val_def unitMap_def)
  have ascii: "TrimSpace s = s" if "list_all (\<lambda>c. 32 < byte c \<and> byte c < 127) s" for s
  proof (rule TrimSpace_no_space)
    have "\<forall>c\<in>set s. byte c < 128" using that by (auto simp: list_all_iff)
    then show "\<not> AnyRune IsSpace s"
      using that by (auto simp: AnyRune_def runes_all_ascii list_ex_iff list_all_iff IsSpace_def)
  qed
  have net: "ParseNetworks ''saltbox'' [] = Inr ([''saltbox''], ''saltbox'')"
    by (simp add: ParseNetworks_def ascii AnyRune_def runes_all_ascii invalidNetworkRune_def IsSpace_def IsControl_def
        TrimSpace_def [of "[]"] trim_segs_def)
  have paths: "cleanPath ''/etc/hosts'' = ''/etc/hosts''" "cleanPath ''/etc/hosts.backup'' = ''/etc/hosts.backup''"
    by (simp_all add: cleanPath_def ascii Clean_def)
  have sec: "TrimSpace ''DOCKER CONTAINERS'' = ''DOCKER CONTAINERS''"
    by (simp add: TrimSpace_def trim_segs_def rune_segs_all_ascii IsSpace_def)
  have addr: "\<exists>a. ParseAddr ''127.0.0.1'' = Inr a"
    by (simp add: ParseAddr_def parseIPv4_def is_digit_def digit_val_def)
  have files: "validateFileConfig ''/etc/hosts'' ''/etc/hosts.backup'' ''DOCKER CONTAINERS'' = None"
    by (simp add: validateFileConfig_iff ascii sec single_line_def Clean_def)
  have "Validate \<lparr>Networks = [''saltbox''], DefaultNetwork = ''saltbox'', HostsFile = ''/etc/hosts'',
       BackupFile = ''/etc/hosts.backup'', SectionName = ''DOCKER CONTAINERS'',
       PeriodicInterval = 300 * 1000000000, DebounceDelay = 1000000000, MaxDebounceDelay = 5 * 1000000000,
       HealthAddr = ''127.0.0.1'', HealthPort = 8080\<rparr> = None"
    using addr files ParseNetworks_valid [OF net] by (simp add: Validate_iff ascii)
  then show ?thesis
    using files
    by (simp add: rootOptions_config_def root_flags_def net dur paths ascii Let_def
        regenerateOptions_config_def regenerate_flags_def)
qed

end
