(* ===== verification/Daemon.thy ===== *)
theory Daemon
  imports Store_Theorems Health_Handler Config
begin

text \<open>
  The daemon (\<open>daemon/types.go\<close>, \<open>daemon.go\<close>, \<open>loop.go\<close>, \<open>loop_state.go\<close>): startup, the
  reconciliation loop with its timers, retries and event stream, and shutdown.

  Everything concurrent is a function of an instant of the process clock: the clock is the one that
  counts the system calls of the store, and it moves on with every look at a context, at a channel or
  at the server and with every call, so two looks may see different answers. What the code does
  between two looks is one step of a sequential function on the state of the process.
\<close>

section \<open>Timers of the Go runtime\<close>

text \<open>
  A channel is what a receive from it finds at each instant; a nil channel is \<open>None\<close>.
\<close>

datatype 'a recv = NotReady | Closed | Received 'a

type_synonym 'a chan = "nat \<Rightarrow> 'a recv"

definition chan_ready :: "'a chan option \<Rightarrow> nat \<Rightarrow> bool" where
  "chan_ready ch n = (case ch of None \<Rightarrow> False | Some f \<Rightarrow> f n \<noteq> NotReady)"

text \<open>
  A timer holds the time at which its channel gets its value. It is unarmed once it is stopped in
  time or its channel has been drained.
\<close>

datatype timer = Timer (fires_at: "int option")

text \<open>The time a timer fires, saturated like the runtime's \<open>when\<close>.\<close>

definition fire_time :: "int \<Rightarrow> int \<Rightarrow> int" where
  "fire_time now d = (if d \<le> 0 then now else min (now + d) MaxInt64)"

definition NewTimer :: "int \<Rightarrow> int \<Rightarrow> timer" where
  "NewTimer now d = Timer (Some (fire_time now d))"

text \<open>\<open>Stop\<close> tells whether it stopped the timer; a value already sent stays in the channel.\<close>

definition timer_Stop :: "int \<Rightarrow> timer \<Rightarrow> bool \<times> timer" where
  "timer_Stop now t =
     (case fires_at t of
        None \<Rightarrow> (False, t)
      | Some dl \<Rightarrow> if now < dl then (True, Timer None) else (False, t))"

definition timer_Reset :: "int \<Rightarrow> int \<Rightarrow> timer \<Rightarrow> timer" where
  "timer_Reset now d t = Timer (Some (fire_time now d))"

section \<open>Timers of the loop\<close>

text \<open>The receive with a default takes the value out of the channel when there is one.\<close>

definition stopAndDrainLoopTimer :: "int \<Rightarrow> timer \<Rightarrow> timer" where
  "stopAndDrainLoopTimer now t =
     (case timer_Stop now t of
        (True, t) \<Rightarrow> t
      | (False, t) \<Rightarrow>
          (case fires_at t of
             None \<Rightarrow> t
           | Some dl \<Rightarrow> if dl \<le> now then Timer None else t))"

definition stopLoopTimer :: "int \<Rightarrow> timer option \<Rightarrow> timer option" where
  "stopLoopTimer now t =
     (case t of
        None \<Rightarrow> None
      | Some t \<Rightarrow> (let stopped = stopAndDrainLoopTimer now t in None))"

definition resetLoopTimer :: "int \<Rightarrow> timer option \<Rightarrow> int \<Rightarrow> timer option" where
  "resetLoopTimer now t delay =
     (case t of
        None \<Rightarrow> Some (NewTimer now delay)
      | Some t \<Rightarrow> Some (timer_Reset now delay (stopAndDrainLoopTimer now t)))"

text \<open>Whether a receive from the timer's channel would succeed.\<close>

definition loopTimerChannel :: "int \<Rightarrow> timer option \<Rightarrow> bool" where
  "loopTimerChannel now t =
     (case t of
        None \<Rightarrow> False
      | Some t \<Rightarrow> (case fires_at t of None \<Rightarrow> False | Some dl \<Rightarrow> dl \<le> now))"

definition nextLoopBackoff :: "int \<Rightarrow> int \<Rightarrow> int" where
  "nextLoopBackoff current maximum =
     (if maximum \<le> current \<or> maximum - current < current then maximum else current * 2)"

lemma stopLoopTimer_None [simp]: "stopLoopTimer now t = None"
  by (simp add: stopLoopTimer_def split: option.splits)

lemma resetLoopTimer_Some [simp]: "resetLoopTimer now t d = Some (Timer (Some (fire_time now d)))"
  by (simp add: resetLoopTimer_def NewTimer_def timer_Reset_def split: option.splits)

lemma nextLoopBackoff_min: "nextLoopBackoff cur mx = min (2 * cur) mx" if "0 < cur" "cur \<le> mx"
  using that by (auto simp: nextLoopBackoff_def)

section \<open>Interfaces and configuration\<close>

record Event =
  ev_Action :: string
  ev_ContainerID :: string
  ev_Network :: string

text \<open>
  A call gets the instant it starts at and returns with the instant it ends at. The answers of the
  server also depend on the instant \<open>Shutdown\<close> was called at, if it was. The contexts that the
  daemon cancels itself, those of the streams, are tracked in \<open>p_live\<close> below; the source gets the
  context they derive from.
\<close>

record NetworkSource =
  src_Ping :: "ctx \<Rightarrow> nat \<Rightarrow> err \<times> nat"
  src_Snapshot :: "ctx \<Rightarrow> string list \<Rightarrow> nat \<Rightarrow> (go_error + endpoint list) \<times> nat"
  src_Events :: "ctx \<Rightarrow> string list \<Rightarrow> nat \<Rightarrow> (Event chan option \<times> err chan option) \<times> nat"
  src_Close :: "nat \<Rightarrow> err \<times> nat"

record HostStore =
  st_Prepare :: "ctx \<Rightarrow> world \<Rightarrow> (PrepareResult \<times> err) \<times> world"
  st_Apply :: "ctx \<Rightarrow> endpoint list \<Rightarrow> world \<Rightarrow> err \<times> world"

record HealthServer =
  srv_Start :: "nat \<Rightarrow> err \<times> nat"
  srv_Done :: "nat option \<Rightarrow> nat \<Rightarrow> bool"     \<comment> \<open>the channel \<open>Done()\<close> is closed\<close>
  srv_Err :: "nat option \<Rightarrow> nat \<Rightarrow> err"
  srv_Shutdown :: "ctx \<Rightarrow> nat \<Rightarrow> err \<times> nat"

record daemon_Config =
  dc_Networks :: "string list"
  dc_DefaultNetwork :: string
  dc_PeriodicInterval :: int
  dc_DebounceDelay :: int
  dc_MaxDebounceDelay :: int

definition second :: int where "second = 1000000000"

record timingConfig =
  dockerOperationTimeout :: int
  retryInitialDelay :: int
  retryMaxDelay :: int
  streamStabilityDelay :: int
  shutdownTimeout :: int

definition defaultTiming :: timingConfig where
  "defaultTiming =
     \<lparr>dockerOperationTimeout = 10 * second, retryInitialDelay = 1 * second, retryMaxDelay = 30 * second,
      streamStabilityDelay = 30 * second, shutdownTimeout = 5 * second\<rparr>"

text \<open>
  The Go runtime around the daemon: the clock of the machine in nanoseconds, which ready case a
  \<open>select\<close> takes, whether the watcher goroutine has cancelled the context, and \<open>strconv.Quote\<close>.
\<close>

record runtime =
  rt_time :: "nat \<Rightarrow> int"
  rt_pick :: "nat \<Rightarrow> nat"
  rt_watch :: "nat \<Rightarrow> bool"
  rt_quote :: "string \<Rightarrow> string"

record Daemon =
  d_config :: daemon_Config
  d_source :: NetworkSource
  d_store :: HostStore
  d_server :: HealthServer
  d_timing :: timingConfig
  d_runtime :: runtime

section \<open>Construction\<close>

fun validateConfigLoop :: "string \<Rightarrow> string set \<Rightarrow> bool \<Rightarrow> string list \<Rightarrow> go_error + bool" where
  "validateConfigLoop def seen found [] = Inr found"
| "validateConfigLoop def seen found (network # rest) =
     (if network = [] \<or> TrimSpace network \<noteq> network \<or> AnyRune invalidNetworkRune network
      then Inl (Errorf [Lit ''network '', Quoted network, Lit '' is not normalized''])
      else if network \<in> seen then Inl (Errorf [Lit ''network '', Quoted network, Lit '' is duplicated''])
      else validateConfigLoop def (insert network seen) (if network = def then True else found) rest)"

definition validateConfig :: "daemon_Config \<Rightarrow> err" where
  "validateConfig cfg =
     (if dc_Networks cfg = [] then Some (errors_New ''at least one network is required'')
      else case validateConfigLoop (dc_DefaultNetwork cfg) {} False (dc_Networks cfg) of
        Inl e \<Rightarrow> Some e
      | Inr defaultFound \<Rightarrow>
          if \<not> defaultFound
          then Some (Errorf [Lit ''default network '', Quoted (dc_DefaultNetwork cfg), Lit '' is not configured''])
          else if dc_PeriodicInterval cfg \<le> 0 then Some (errors_New ''periodic interval must be positive'')
          else if dc_DebounceDelay cfg \<le> 0 then Some (errors_New ''debounce delay must be positive'')
          else if dc_MaxDebounceDelay cfg \<le> 0 then Some (errors_New ''maximum debounce delay must be positive'')
          else if dc_MaxDebounceDelay cfg < dc_DebounceDelay cfg
          then Some (errors_New ''maximum debounce delay must not be less than debounce delay'')
          else None)"

text \<open>
  A dependency passed as an interface: nil, or a value of some kind, which is itself nil when it has no
  content.
\<close>

datatype reflect_kind = KChan | KFunc | KInterface | KMap | KPointer | KSlice | KOther

datatype 'a iface = NilInterface | Value reflect_kind "'a option"

fun isNil :: "'a iface \<Rightarrow> bool" where
  "isNil NilInterface = True"
| "isNil (Value k v) = (if k \<in> {KChan, KFunc, KInterface, KMap, KPointer, KSlice} then v = None else False)"

fun content :: "'a iface \<Rightarrow> 'a option" where
  "content NilInterface = None"
| "content (Value k v) = v"

text \<open>The tracker and the logger are state of the process: here only whether they are nil.\<close>

definition New ::
  "runtime \<Rightarrow> daemon_Config \<Rightarrow> NetworkSource iface \<Rightarrow> HostStore iface \<Rightarrow> bool \<Rightarrow> HealthServer iface \<Rightarrow> bool \<Rightarrow>
     go_error + Daemon" where
  "New rt cfg source store tracker_nil server logger_nil =
     (if isNil source then Inl (errors_New ''network source is required'')
      else if isNil store then Inl (errors_New ''host store is required'')
      else if tracker_nil then Inl (errors_New ''health tracker is required'')
      else if isNil server then Inl (errors_New ''health server is required'')
      else if logger_nil then Inl (errors_New ''logger is required'')
      else case validateConfig cfg of
        Some e \<Rightarrow> Inl e
      | None \<Rightarrow> Inr \<lparr>d_config = cfg, d_source = the (content source), d_store = the (content store),
          d_server = the (content server), d_timing = defaultTiming, d_runtime = rt\<rparr>)"

section \<open>The state of the process\<close>

datatype call = CallPing | CallStart | CallPrepare | CallSnapshot | CallApply | CallEvents | CallCancel | CallShutdown | CallClose

datatype log_value = LogError go_error | LogText string | LogTexts "string list" | LogDuration int

datatype log_entry = Info string "(string \<times> log_value) list" | Warn string "(string \<times> log_value) list"

record process =
  p_world :: world
  p_tracker :: tracker
  p_log :: "log_entry list"
  p_calls :: "(call \<times> nat) list"       \<comment> \<open>the calls so far and the instants they started at\<close>
  p_live :: "nat list"                  \<comment> \<open>the event streams whose context is not cancelled\<close>

definition later :: "nat \<Rightarrow> world \<Rightarrow> world" where
  "later n w = w\<lparr>w_clock := max n (Suc (w_clock w))\<rparr>"

definition instant :: "'a process_scheme \<Rightarrow> nat" where
  "instant p = w_clock (p_world p)"

definition tick :: "'a process_scheme \<Rightarrow> 'a process_scheme" where
  "tick p = p\<lparr>p_world := later 0 (p_world p)\<rparr>"

text \<open>A call that has started at the present instant and returned at the instant \<open>n\<close>.\<close>

definition called :: "call \<Rightarrow> nat \<Rightarrow> 'a process_scheme \<Rightarrow> 'a process_scheme" where
  "called k n p = p\<lparr>p_world := later n (p_world p), p_calls := p_calls p @ [(k, instant p)]\<rparr>"

text \<open>A call to the store, which leaves the world \<open>w\<close>.\<close>

definition stored :: "call \<Rightarrow> world \<Rightarrow> 'a process_scheme \<Rightarrow> 'a process_scheme" where
  "stored k w p = p\<lparr>p_world := later (Suc (instant p)) w, p_calls := p_calls p @ [(k, instant p)]\<rparr>"

definition track :: "(tracker \<Rightarrow> tracker) \<Rightarrow> 'a process_scheme \<Rightarrow> 'a process_scheme" where
  "track f p = p\<lparr>p_tracker := f (p_tracker p)\<rparr>"

definition logged :: "log_entry \<Rightarrow> 'a process_scheme \<Rightarrow> 'a process_scheme" where
  "logged x p = p\<lparr>p_log := p_log p @ [x]\<rparr>"

definition now_of :: "Daemon \<Rightarrow> 'a process_scheme \<Rightarrow> int" where
  "now_of d p = rt_time (d_runtime d) (instant p)"

definition error_text :: "Daemon \<Rightarrow> go_error \<Rightarrow> string" where
  "error_text d e = errorText (rt_quote (d_runtime d)) e"

text \<open>\<open>context.WithTimeout\<close>, started at the instant \<open>n\<close>.\<close>

definition WithTimeout :: "Daemon \<Rightarrow> ctx \<Rightarrow> int \<Rightarrow> nat \<Rightarrow> ctx" where
  "WithTimeout d c delay n =
     (\<lambda>m. case c m of
        Some e \<Rightarrow> Some e
      | None \<Rightarrow> if fire_time (rt_time (d_runtime d) n) delay \<le> rt_time (d_runtime d) m
                then Some (Sentinel DeadlineExceeded) else None)"

text \<open>
  The context of \<open>Run\<close>: that of the caller, and cancelled by the watcher goroutine some time after the
  server is done.
\<close>

definition run_ctx :: "Daemon \<Rightarrow> ctx \<Rightarrow> ctx" where
  "run_ctx d parent n =
     (if srv_Done (d_server d) None n \<and> rt_watch (d_runtime d) n then Some (Sentinel Canceled) else parent n)"

text \<open>\<open>errors.Is(err, target)\<close> for the error of a context as target.\<close>

definition errors_Is_error :: "go_error \<Rightarrow> err \<Rightarrow> bool" where
  "errors_Is_error e target =
     (case target of
        None \<Rightarrow> False
      | Some t \<Rightarrow> e = t \<or> (case t of Sentinel x \<Rightarrow> errors_Is e x | _ \<Rightarrow> False))"

text \<open>The test \<open>ctx.Err() == nil || !errors.Is(err, ctx.Err())\<close>.\<close>

definition not_stopping :: "ctx \<Rightarrow> go_error \<Rightarrow> 'a process_scheme \<Rightarrow> bool \<times> 'a process_scheme" where
  "not_stopping c e p =
     (if c (instant p) = None then (True, tick p)
      else (\<not> errors_Is_error e (c (instant (tick p))), tick (tick p)))"

section \<open>Reconciliation\<close>

definition reconcile :: "Daemon \<Rightarrow> ctx \<Rightarrow> 'a process_scheme \<Rightarrow> err \<times> 'a process_scheme" where
  "reconcile d c p =
     (let snapshotCtx = WithTimeout d c (dockerOperationTimeout (d_timing d)) (instant p) in
      case src_Snapshot (d_source d) snapshotCtx (dc_Networks (d_config d)) (instant p) of
        (Inl e, n) \<Rightarrow>
          (case not_stopping c e (called CallSnapshot n p) of
             (report, p) \<Rightarrow>
               (Some (wrap ''snapshot Docker networks: '' e),
                if report then track (Fail (now_of d p) ConcernDockerSnapshot (error_text d e)) p else p))
      | (Inr endpoints, n) \<Rightarrow>
          (let p = track (Recover ConcernDockerSnapshot) (called CallSnapshot n p) in
           case st_Apply (d_store d) c endpoints (p_world p) of
             (Some e, w) \<Rightarrow>
               (case not_stopping c e (stored CallApply w p) of
                  (report, p) \<Rightarrow>
                    (Some (wrap ''apply hosts snapshot: '' e),
                     if report then track (Fail (now_of d p) ConcernHostsApply (error_text d e)) p else p))
           | (None, w) \<Rightarrow> (None, track (Recover ConcernHostsApply) (stored CallApply w p))))"

section \<open>The state of the loop\<close>

record loopState = process +
  periodicTimer :: "timer option"
  debounceTimer :: "timer option"
  maximumTimer :: "timer option"
  retryTimer :: "timer option"
  reconnectTimer :: "timer option"
  stabilityTimer :: "timer option"
  retryDelay :: int
  reconnectDelay :: int
  pending :: bool
  lastReconcileFailure :: string
  lastStreamFailure :: string
  events :: "Event chan option"
  eventErrors :: "err chan option"
  streamCancel :: "nat option"

definition newLoopState :: "Daemon \<Rightarrow> err \<Rightarrow> process \<Rightarrow> loopState" where
  "newLoopState d initialReconcileErr p =
     (let initial = retryInitialDelay (d_timing d);
          state = process.extend p
            \<lparr>periodicTimer = Some (NewTimer (now_of d p) (dc_PeriodicInterval (d_config d))),
             debounceTimer = None, maximumTimer = None, retryTimer = None, reconnectTimer = None,
             stabilityTimer = None, retryDelay = initial, reconnectDelay = initial, pending = False,
             lastReconcileFailure = [], lastStreamFailure = [], events = None, eventErrors = None,
             streamCancel = None\<rparr>
      in case initialReconcileErr of
           None \<Rightarrow> state
         | Some e \<Rightarrow>
             state\<lparr>lastReconcileFailure := error_text d e,
               retryTimer := resetLoopTimer (now_of d p) (retryTimer state) (retryDelay state),
               retryDelay := nextLoopBackoff (retryDelay state) (retryMaxDelay (d_timing d))\<rparr>)"

text \<open>Calling the cancel function of a stream: its context is no longer live.\<close>

definition cancelStream :: "loopState \<Rightarrow> loopState" where
  "cancelStream s =
     (case streamCancel s of
        None \<Rightarrow> s
      | Some i \<Rightarrow> s\<lparr>p_live := removeAll i (p_live s), p_calls := p_calls s @ [(CallCancel, instant s)],
          streamCancel := None\<rparr>)"

definition close :: "Daemon \<Rightarrow> loopState \<Rightarrow> loopState" where
  "close d s =
     (let s = cancelStream s; now = now_of d s
      in s\<lparr>periodicTimer := stopLoopTimer now (periodicTimer s),
           debounceTimer := stopLoopTimer now (debounceTimer s),
           maximumTimer := stopLoopTimer now (maximumTimer s),
           retryTimer := stopLoopTimer now (retryTimer s),
           reconnectTimer := stopLoopTimer now (reconnectTimer s),
           stabilityTimer := stopLoopTimer now (stabilityTimer s)\<rparr>)"

definition loopStreamStopReady :: "Daemon \<Rightarrow> ctx \<Rightarrow> 'a process_scheme \<Rightarrow> bool \<times> 'a process_scheme" where
  "loopStreamStopReady d c p =
     (if srv_Done (d_server d) None (instant p) then (True, tick p)
      else (c (instant (tick p)) \<noteq> None, tick (tick p)))"

definition stopReady :: "Daemon \<Rightarrow> ctx \<Rightarrow> loopState \<Rightarrow> bool \<times> loopState" where
  "stopReady d c s = loopStreamStopReady d c s"

text \<open>A new stream is named by the instant at which its context is made.\<close>

definition startStream :: "Daemon \<Rightarrow> ctx \<Rightarrow> loopState \<Rightarrow> loopState" where
  "startStream d c s =
     (case stopReady d c s of
        (True, s) \<Rightarrow> s
      | (False, s) \<Rightarrow>
          (let s = cancelStream s;
               stream = instant s;
               s = s\<lparr>streamCancel := Some stream, p_live := stream # p_live s\<rparr>
           in case src_Events (d_source d) c (dc_Networks (d_config d)) (instant s) of
                ((evs, errs), n) \<Rightarrow>
                  (case stopReady d c (called CallEvents n (s\<lparr>events := evs, eventErrors := errs\<rparr>)) of
                     (True, s) \<Rightarrow> (cancelStream s)\<lparr>events := None, eventErrors := None\<rparr>
                   | (False, s) \<Rightarrow>
                       s\<lparr>stabilityTimer := resetLoopTimer (now_of d s) (stabilityTimer s)
                          (streamStabilityDelay (d_timing d))\<rparr>)))"

definition recoverStream :: "Daemon \<Rightarrow> ctx \<Rightarrow> string \<Rightarrow> loopState \<Rightarrow> loopState" where
  "recoverStream d c evidence s =
     (case stopReady d c s of
        (True, s) \<Rightarrow> s
      | (False, s) \<Rightarrow>
          (let s = track (Recover ConcernDockerEvents)
                 (s\<lparr>reconnectDelay := retryInitialDelay (d_timing d),
                    stabilityTimer := stopLoopTimer (now_of d s) (stabilityTimer s)\<rparr>)
           in if lastStreamFailure s \<noteq> []
              then (logged (Info ''Docker event stream recovered'' [(''evidence'', LogText evidence)]) s)
                     \<lparr>lastStreamFailure := []\<rparr>
              else s))"

definition eventStreamClosedMessage :: string where
  "eventStreamClosedMessage = ''Docker event stream closed''"

definition disconnectStream :: "Daemon \<Rightarrow> ctx \<Rightarrow> err \<Rightarrow> loopState \<Rightarrow> loopState" where
  "disconnectStream d c e s =
     (let s = cancelStream s;
          s = s\<lparr>events := None, eventErrors := None,
                stabilityTimer := stopLoopTimer (now_of d s) (stabilityTimer s)\<rparr>
      in case stopReady d c s of
           (True, s) \<Rightarrow> s
         | (False, s) \<Rightarrow>
             (let message = (case e of None \<Rightarrow> eventStreamClosedMessage | Some e \<Rightarrow> error_text d e);
                  s = (if message \<noteq> lastStreamFailure s
                       then (logged (Warn ''Docker event stream unavailable''
                               [(''err'', LogText message), (''retry_in'', LogDuration (reconnectDelay s))]) s)
                              \<lparr>lastStreamFailure := message\<rparr>
                       else s);
                  s = track (Fail (now_of d s) ConcernDockerEvents message) s
              in s\<lparr>reconnectTimer := resetLoopTimer (now_of d s) (reconnectTimer s) (reconnectDelay s),
                   reconnectDelay := nextLoopBackoff (reconnectDelay s) (retryMaxDelay (d_timing d))\<rparr>))"

text \<open>The error read, which is nil for a closed channel, and whether there was something to read.\<close>

definition streamErrorReady :: "loopState \<Rightarrow> (err \<times> bool) \<times> loopState" where
  "streamErrorReady s =
     (case eventErrors s of
        None \<Rightarrow> ((None, False), tick s)
      | Some ch \<Rightarrow>
          (case ch (instant s) of
             NotReady \<Rightarrow> ((None, False), tick s)
           | Closed \<Rightarrow> ((None, True), tick s)
           | Received e \<Rightarrow> ((e, True), tick s)))"

definition observeEvent :: "Daemon \<Rightarrow> ctx \<Rightarrow> loopState \<Rightarrow> loopState" where
  "observeEvent d c s =
     (case stopReady d c s of
        (True, s) \<Rightarrow> s
      | (False, s) \<Rightarrow>
          (let s = recoverStream d c ''event'' s;
               s = (if debounceTimer s = None
                    then s\<lparr>maximumTimer := resetLoopTimer (now_of d s) (maximumTimer s) (dc_MaxDebounceDelay (d_config d))\<rparr>
                    else s)
           in s\<lparr>debounceTimer := resetLoopTimer (now_of d s) (debounceTimer s) (dc_DebounceDelay (d_config d))\<rparr>))"

definition handleEvent :: "Daemon \<Rightarrow> ctx \<Rightarrow> bool \<Rightarrow> loopState \<Rightarrow> loopState" where
  "handleEvent d c isopen s =
     (if \<not> isopen
      then (case streamErrorReady s of ((streamErr, _), s) \<Rightarrow> disconnectStream d c streamErr s)
      else observeEvent d c s)"

definition handleStreamError :: "Daemon \<Rightarrow> ctx \<Rightarrow> err \<Rightarrow> bool \<Rightarrow> loopState \<Rightarrow> loopState" where
  "handleStreamError d c e isopen s =
     (if \<not> isopen then disconnectStream d c None s else disconnectStream d c e s)"

text \<open>The end of \<open>reconcilePending\<close>: the next periodic run, and the retry of a failed one.\<close>

definition retryAfter :: "Daemon \<Rightarrow> err \<Rightarrow> loopState \<Rightarrow> loopState" where
  "retryAfter d reconcileErr s =
     (case reconcileErr of
        Some e \<Rightarrow>
          (let s = (if error_text d e \<noteq> lastReconcileFailure s
                    then (logged (Warn ''reconciliation failed''
                            [(''err'', LogError e), (''retry_in'', LogDuration (retryDelay s))]) s)
                           \<lparr>lastReconcileFailure := error_text d e\<rparr>
                    else s)
           in s\<lparr>retryTimer := resetLoopTimer (now_of d s) (retryTimer s) (retryDelay s),
                retryDelay := nextLoopBackoff (retryDelay s) (retryMaxDelay (d_timing d))\<rparr>)
      | None \<Rightarrow>
          (let s = s\<lparr>retryDelay := retryInitialDelay (d_timing d)\<rparr>
           in if lastReconcileFailure s \<noteq> []
              then (logged (Info ''reconciliation recovered'' []) s)\<lparr>lastReconcileFailure := []\<rparr>
              else s))"

definition scheduleAfter :: "Daemon \<Rightarrow> ctx \<Rightarrow> loopState \<Rightarrow> loopState" where
  "scheduleAfter d c s =
     (if c (instant s) = None
      then (tick s)\<lparr>periodicTimer := resetLoopTimer (now_of d (tick s)) (periodicTimer s)
             (dc_PeriodicInterval (d_config d))\<rparr>
      else tick s)"

definition reconcilePending :: "Daemon \<Rightarrow> ctx \<Rightarrow> loopState \<Rightarrow> loopState" where
  "reconcilePending d c s =
     (let now = now_of d s;
          s = s\<lparr>pending := False,
                periodicTimer := stopLoopTimer now (periodicTimer s),
                debounceTimer := stopLoopTimer now (debounceTimer s),
                maximumTimer := stopLoopTimer now (maximumTimer s),
                retryTimer := stopLoopTimer now (retryTimer s)\<rparr>
      in case reconcile d c s of
           (reconcileErr, s) \<Rightarrow>
             (case stopReady d c s of
                (True, s) \<Rightarrow> s
              | (False, s) \<Rightarrow>
                  (let s = scheduleAfter d c s
                   in if c (instant s) = None then retryAfter d reconcileErr (tick s) else tick s)))"

definition handleStability :: "Daemon \<Rightarrow> ctx \<Rightarrow> loopState \<Rightarrow> loopState" where
  "handleStability d c s =
     (let s = s\<lparr>stabilityTimer := stopLoopTimer (now_of d s) (stabilityTimer s)\<rparr> in
      case stopReady d c s of
        (True, s) \<Rightarrow> s
      | (False, s) \<Rightarrow>
          (case streamErrorReady s of
             ((streamErr, True), s) \<Rightarrow> disconnectStream d c streamErr s
           | ((_, False), s) \<Rightarrow>
               (case (case events s of None \<Rightarrow> NotReady | Some ch \<Rightarrow> ch (instant s)) of
                  Closed \<Rightarrow>
                    (case streamErrorReady (tick s) of ((streamErr, _), s) \<Rightarrow> disconnectStream d c streamErr s)
                | Received _ \<Rightarrow> observeEvent d c (tick s)
                | NotReady \<Rightarrow> recoverStream d c ''stable'' (tick s))))"

section \<open>The loop\<close>

definition loopServerResult :: "Daemon \<Rightarrow> 'a process_scheme \<Rightarrow> (err \<times> bool) \<times> 'a process_scheme" where
  "loopServerResult d p =
     (case srv_Err (d_server d) None (instant p) of
        Some serveErr \<Rightarrow> ((Some (wrap ''health server stopped: '' serveErr), True), tick p)
      | None \<Rightarrow> ((Some (Sentinel ErrHealthServerStopped), True), tick p))"

text \<open>Whether to stop, and then the result and whether it holds the error of the server.\<close>

definition loopStop :: "Daemon \<Rightarrow> ctx \<Rightarrow> 'a process_scheme \<Rightarrow> (err \<times> bool) option \<times> 'a process_scheme" where
  "loopStop d c p =
     (if srv_Done (d_server d) None (instant p)
      then (case srv_Err (d_server d) None (instant (tick p)) of
              Some serveErr \<Rightarrow> (Some (Some (wrap ''health server stopped: '' serveErr), True), tick (tick p))
            | None \<Rightarrow> (Some (Some (Sentinel ErrHealthServerStopped), True), tick (tick p)))
      else if c (instant (tick p)) \<noteq> None then (Some (None, False), tick (tick p))
      else (None, tick (tick p)))"

text \<open>
  The cases of the \<open>select\<close> that are ready at an instant, in the order of the source. A receive
  from a closed channel is ready too.
\<close>

datatype ready_case =
    OnStop | OnServer | OnEvent bool | OnStreamError err bool
  | OnPeriodic | OnDebounce | OnMaximum | OnRetry | OnReconnect | OnStability

definition ready_cases :: "Daemon \<Rightarrow> ctx \<Rightarrow> loopState \<Rightarrow> ready_case list" where
  "ready_cases d c s =
     (if c (instant s) \<noteq> None then [OnStop] else []) @
     (if srv_Done (d_server d) None (instant s) then [OnServer] else []) @
     (case events s of
        None \<Rightarrow> []
      | Some ch \<Rightarrow> (case ch (instant s) of NotReady \<Rightarrow> [] | Closed \<Rightarrow> [OnEvent False] | Received _ \<Rightarrow> [OnEvent True])) @
     (case eventErrors s of
        None \<Rightarrow> []
      | Some ch \<Rightarrow>
          (case ch (instant s) of
             NotReady \<Rightarrow> [] | Closed \<Rightarrow> [OnStreamError None False] | Received e \<Rightarrow> [OnStreamError e True])) @
     (if loopTimerChannel (now_of d s) (periodicTimer s) then [OnPeriodic] else []) @
     (if loopTimerChannel (now_of d s) (debounceTimer s) then [OnDebounce] else []) @
     (if loopTimerChannel (now_of d s) (maximumTimer s) then [OnMaximum] else []) @
     (if loopTimerChannel (now_of d s) (retryTimer s) then [OnRetry] else []) @
     (if loopTimerChannel (now_of d s) (reconnectTimer s) then [OnReconnect] else []) @
     (if loopTimerChannel (now_of d s) (stabilityTimer s) then [OnStability] else [])"

text \<open>
  Where the loop is: before its checks, waiting in the \<open>select\<close>, or returned with a result.
\<close>

datatype control = Checking | Waiting | Returned err bool

definition take_case :: "Daemon \<Rightarrow> ctx \<Rightarrow> ready_case \<Rightarrow> loopState \<Rightarrow> control \<times> loopState" where
  "take_case d c k s =
     (let now = now_of d s in
      case k of
        OnStop \<Rightarrow> (Returned None False, s)
      | OnServer \<Rightarrow> (case loopServerResult d s of ((e, captured), s) \<Rightarrow> (Returned e captured, s))
      | OnEvent ok \<Rightarrow> (Checking, handleEvent d c ok s)
      | OnStreamError e ok \<Rightarrow> (Checking, handleStreamError d c e ok s)
      | OnPeriodic \<Rightarrow>
          (Checking, s\<lparr>periodicTimer := stopLoopTimer now (periodicTimer s),
            debounceTimer := stopLoopTimer now (debounceTimer s),
            maximumTimer := stopLoopTimer now (maximumTimer s), pending := True\<rparr>)
      | OnDebounce \<Rightarrow>
          (Checking, s\<lparr>debounceTimer := stopLoopTimer now (debounceTimer s),
            maximumTimer := stopLoopTimer now (maximumTimer s), pending := True\<rparr>)
      | OnMaximum \<Rightarrow>
          (Checking, s\<lparr>debounceTimer := stopLoopTimer now (debounceTimer s),
            maximumTimer := stopLoopTimer now (maximumTimer s), pending := True\<rparr>)
      | OnRetry \<Rightarrow> (Checking, s\<lparr>retryTimer := stopLoopTimer now (retryTimer s), pending := True\<rparr>)
      | OnReconnect \<Rightarrow>
          (case stopReady d c (s\<lparr>reconnectTimer := stopLoopTimer now (reconnectTimer s)\<rparr>) of
             (True, s) \<Rightarrow> (Checking, s)
           | (False, s) \<Rightarrow>
               (let s = startStream d c s in
                (Checking, if events s = None \<and> eventErrors s = None then disconnectStream d c None s else s)))
      | OnStability \<Rightarrow> (Checking, handleStability d c s))"

text \<open>
  One step of the loop: the checks before the \<open>select\<close>, or one instant in it. While no case is
  ready the \<open>select\<close> waits; among several it takes any.
\<close>

fun loop_step :: "Daemon \<Rightarrow> ctx \<Rightarrow> control \<times> loopState \<Rightarrow> control \<times> loopState" where
  "loop_step d c (Checking, s) =
     (case loopStop d c s of
        (Some (e, captured), s) \<Rightarrow> (Returned e captured, s)
      | (None, s) \<Rightarrow> if pending s then (Checking, reconcilePending d c s) else (Waiting, s))"
| "loop_step d c (Waiting, s) =
     (case ready_cases d c s of
        [] \<Rightarrow> (Waiting, tick s)
      | ks \<Rightarrow> take_case d c (ks ! (rt_pick (d_runtime d) (instant s) mod length ks)) (tick s))"
| "loop_step d c (Returned e captured, s) = (Returned e captured, s)"

definition loop_start :: "Daemon \<Rightarrow> ctx \<Rightarrow> err \<Rightarrow> process \<Rightarrow> loopState" where
  "loop_start d c initialReconcileErr p =
     (let s = startStream d c (newLoopState d initialReconcileErr p)
      in if events s = None \<and> eventErrors s = None then disconnectStream d c None s else s)"

text \<open>\<open>None\<close> when the loop has not returned after \<open>fuel\<close> steps.\<close>

definition loop :: "Daemon \<Rightarrow> ctx \<Rightarrow> err \<Rightarrow> nat \<Rightarrow> process \<Rightarrow> ((err \<times> bool) \<times> process) option" where
  "loop d c initialReconcileErr fuel p =
     (case (loop_step d c ^^ fuel) (Checking, loop_start d c initialReconcileErr p) of
        (Returned e captured, s) \<Rightarrow> Some ((e, captured), process.truncate (close d s))
      | _ \<Rightarrow> None)"

section \<open>Running the daemon\<close>

definition startupStop :: "Daemon \<Rightarrow> ctx \<Rightarrow> process \<Rightarrow> (bool \<times> bool \<times> err) \<times> process" where
  "startupStop d parent p =
     (if parent (instant p) \<noteq> None then ((True, False, None), tick p)
      else let p = tick p in
        if srv_Done (d_server d) None (instant p)
        then (case srv_Err (d_server d) None (instant (tick p)) of
                Some serveErr \<Rightarrow> ((True, True, Some (wrap ''health server stopped: '' serveErr)), tick (tick p))
              | None \<Rightarrow> ((True, True, Some (Sentinel ErrHealthServerStopped)), tick (tick p)))
        else ((False, False, None), tick p))"

text \<open>A blocking receive from \<open>Done()\<close>: it returns at the first instant at which the channel is closed.\<close>

fun await :: "nat \<Rightarrow> (nat \<Rightarrow> bool) \<Rightarrow> nat \<Rightarrow> nat option" where
  "await 0 P n = (if P n then Some n else None)"
| "await (Suc fuel) P n = (if P n then Some n else await fuel P (Suc n))"

definition closeSource :: "Daemon \<Rightarrow> process \<Rightarrow> err \<times> process" where
  "closeSource d p =
     (case src_Close (d_source d) (instant p) of
        (e, n) \<Rightarrow> (map_option (wrap ''close Docker source: '') e, called CallClose n p))"

text \<open>
  The part of \<open>cleanup\<close> for a started server: the terminal error of the server, unless it was captured
  before, and the error of its shutdown.
\<close>

definition shutdownServer :: "Daemon \<Rightarrow> nat \<Rightarrow> bool \<Rightarrow> process \<Rightarrow> (err \<times> err \<times> process) option" where
  "shutdownServer d fuel serveErrCaptured p =
     (let completedBeforeShutdown = srv_Done (d_server d) None (instant p);
          p = tick p;
          called_at = instant p;
          shutdownCtx = WithTimeout d (\<lambda>_. None) (shutdownTimeout (d_timing d)) called_at
      in case srv_Shutdown (d_server d) shutdownCtx called_at of
           (e, n) \<Rightarrow>
             (let shutdownErr = map_option (wrap ''shut down health server: '') e;
                  p = called CallShutdown n p
              in case await fuel (srv_Done (d_server d) (Some called_at)) (instant p) of
                   None \<Rightarrow> None
                 | Some n \<Rightarrow>
                     (let p = p\<lparr>p_world := later n (p_world p)\<rparr>;
                          terminalServeErr =
                            (if \<not> serveErrCaptured
                             then (case srv_Err (d_server d) (Some called_at) (instant p) of
                                     Some e \<Rightarrow> Some (wrap ''health server stopped: '' e)
                                   | None \<Rightarrow>
                                       if completedBeforeShutdown then Some (Sentinel ErrHealthServerStopped)
                                       else None)
                             else None)
                      in Some (terminalServeErr, shutdownErr, tick p))))"

definition cleanup :: "Daemon \<Rightarrow> nat \<Rightarrow> bool \<Rightarrow> err \<Rightarrow> bool \<Rightarrow> process \<Rightarrow> (err \<times> process) option" where
  "cleanup d fuel serverStarted runErr serveErrCaptured p =
     (case (if serverStarted then shutdownServer d fuel serveErrCaptured p else Some (None, None, p)) of
        None \<Rightarrow> None
      | Some (terminalServeErr, shutdownErr, p) \<Rightarrow>
          (case closeSource d p of
             (closeErr, p) \<Rightarrow> Some (errors_Join [runErr, terminalServeErr, shutdownErr, closeErr], p)))"

text \<open>
  The run from the successful start of the server on, step by step. \<open>finish\<close> cancels the context and
  waits for the watcher, which then returns at once, and cleans up: it is \<open>cleanup\<close> here.
\<close>

definition run_loop :: "Daemon \<Rightarrow> ctx \<Rightarrow> nat \<Rightarrow> err \<Rightarrow> process \<Rightarrow> (err \<times> process) option" where
  "run_loop d parent fuel initialReconcileErr p =
     (case startupStop d parent p of
        ((True, captured, runErr), p) \<Rightarrow> cleanup d fuel True runErr captured p
      | ((False, _, _), p) \<Rightarrow>
          (case loop d (run_ctx d parent) initialReconcileErr fuel p of
             None \<Rightarrow> None
           | Some ((runErr, captured), p) \<Rightarrow> cleanup d fuel True runErr captured p))"

text \<open>The daemon reports itself ready, unless it is already stopping.\<close>

definition announce :: "Daemon \<Rightarrow> ctx \<Rightarrow> err \<Rightarrow> process \<Rightarrow> process" where
  "announce d parent initialReconcileErr p =
     (if parent (instant p) = None
      then let alive = (run_ctx d parent (instant (tick p)) = None);
               p = tick (tick p)
           in if alive
              then (case initialReconcileErr of
                      None \<Rightarrow> logged (Info ''SDHM ready'' []) (track CompleteInitialization p)
                    | Some e \<Rightarrow>
                        logged (Warn ''reconciliation failed''
                          [(''phase'', LogText ''initial''), (''err'', LogError e),
                           (''retry_in'', LogDuration (retryInitialDelay (d_timing d)))])
                          (track CompleteInitialization p))
              else p
      else tick p)"

definition run_reconciled :: "Daemon \<Rightarrow> ctx \<Rightarrow> nat \<Rightarrow> err \<Rightarrow> process \<Rightarrow> (err \<times> process) option" where
  "run_reconciled d parent fuel initialReconcileErr p =
     (case startupStop d parent p of
        ((True, captured, runErr), p) \<Rightarrow> cleanup d fuel True runErr captured p
      | ((False, _, _), p) \<Rightarrow>
          run_loop d parent fuel initialReconcileErr (announce d parent initialReconcileErr p))"

definition run_prepared :: "Daemon \<Rightarrow> ctx \<Rightarrow> nat \<Rightarrow> process \<Rightarrow> (err \<times> process) option" where
  "run_prepared d parent fuel p =
     (case startupStop d parent p of
        ((True, captured, runErr), p) \<Rightarrow> cleanup d fuel True runErr captured p
      | ((False, _, _), p) \<Rightarrow>
          (case reconcile d (run_ctx d parent) p of
             (initialReconcileErr, p) \<Rightarrow> run_reconciled d parent fuel initialReconcileErr p))"

definition run_prepare :: "Daemon \<Rightarrow> ctx \<Rightarrow> nat \<Rightarrow> process \<Rightarrow> (err \<times> process) option" where
  "run_prepare d parent fuel p =
     (case st_Prepare (d_store d) (run_ctx d parent) (p_world p) of
        ((_, Some e), w) \<Rightarrow>
          (let p = stored CallPrepare w p in
           if parent (instant p) = None then
             (case not_stopping (run_ctx d parent) e (tick p) of
                (True, p) \<Rightarrow>
                  cleanup d fuel True (Some (wrap ''prepare hosts store: '' e)) False
                    (track (Fail (now_of d p) ConcernRecovery (error_text d e)) p)
              | (False, p) \<Rightarrow> cleanup d fuel True None False p)
           else cleanup d fuel True None False (tick p))
      | ((prepareResult, None), w) \<Rightarrow>
          (let p = stored CallPrepare w p;
               p = (if RecoveredFromBackup prepareResult
                    then logged (Warn ''hosts file recovered from validated backup'' []) p else p)
           in run_prepared d parent fuel (track (Recover ConcernRecovery) p)))"

definition run_started :: "Daemon \<Rightarrow> ctx \<Rightarrow> nat \<Rightarrow> process \<Rightarrow> (err \<times> process) option" where
  "run_started d parent fuel p =
     (case startupStop d parent p of
        ((True, captured, runErr), p) \<Rightarrow> cleanup d fuel True runErr captured p
      | ((False, _, _), p) \<Rightarrow> run_prepare d parent fuel p)"

definition Run :: "Daemon \<Rightarrow> ctx \<Rightarrow> nat \<Rightarrow> process \<Rightarrow> (err \<times> process) option" where
  "Run d parent fuel p =
     (let c = run_ctx d parent in
      if parent (instant p) \<noteq> None then cleanup d fuel False None False (tick p)
      else
        (let p = tick p;
             pingCtx = WithTimeout d c (dockerOperationTimeout (d_timing d)) (instant p)
         in case src_Ping (d_source d) pingCtx (instant p) of
              (Some e, n) \<Rightarrow>
                (let p = called CallPing n p;
                     runErr = (if parent (instant p) = None then Some (wrap ''ping Docker: '' e) else None)
                 in cleanup d fuel False runErr False (tick p))
            | (None, n) \<Rightarrow>
                (let p = called CallPing n p in
                 if parent (instant p) \<noteq> None then cleanup d fuel False None False (tick p)
                 else
                   (let p = track BeginInitialization (tick p) in
                    case srv_Start (d_server d) (instant p) of
                      (Some e, n) \<Rightarrow>
                        (let p = called CallStart n p;
                             runErr = (if parent (instant p) = None
                                       then Some (wrap ''start health server: '' e) else None)
                         in cleanup d fuel False runErr False (tick p))
                    | (None, n) \<Rightarrow> run_started d parent fuel (called CallStart n p)))))"

end
