(* ===== verification/Daemon_Loop.thy ===== *)
theory Daemon_Loop
  imports Daemon
begin

text \<open>
  The invariants of the reconciliation loop: what every operation leaves alone (\<open>frame\<close>), what the
  loop always keeps (\<open>loop_inv\<close>: a reconciliation is due, debounced events have a deadline, delays are
  in range, one live stream at most; \<open>stream_due\<close>: the stream is open or a reconnection is due), and
  that every state the loop reaches has them.
\<close>

section \<open>What an operation leaves alone\<close>

text \<open>
  \<open>frame s s'\<close>: the loop's own fields and the live streams are the same, and time has not gone back.
\<close>

definition frame :: "'a process_scheme \<Rightarrow> 'a process_scheme \<Rightarrow> bool" where
  "frame s s' \<longleftrightarrow> process.more s' = process.more s \<and> p_live s' = p_live s \<and> instant s \<le> instant s'"

lemma frame_refl [simp]: "frame s s"
  by (simp add: frame_def)

lemma frame_trans: "frame s s' \<Longrightarrow> frame s' s'' \<Longrightarrow> frame s s''"
  by (auto simp: frame_def)

lemma instant_simps [simp]:
  "instant (tick p) = Suc (instant p)" "instant (called k n p) = max n (Suc (instant p))"
  "instant (track f p) = instant p" "instant (logged x p) = instant p"
  "instant (p\<lparr>p_live := l\<rparr>) = instant p" "instant (p\<lparr>p_calls := cs\<rparr>) = instant p"
  by (simp_all add: instant_def tick_def called_def track_def logged_def later_def)

lemma instant_stored [simp]: "Suc (instant p) \<le> instant (stored k w p)"
  by (simp add: instant_def stored_def later_def)

lemma frame_steps [simp, intro]:
  "frame s (tick s)" "frame s (called k n s)" "frame s (stored k w s)" "frame s (track f s)" "frame s (logged x s)"
proof -
  show "frame s (stored k w s)"
    using instant_stored [of s k w] by (simp add: frame_def stored_def) 
qed (auto simp: frame_def, auto simp: tick_def called_def track_def logged_def)

lemma frame_tick: "frame s s' \<Longrightarrow> frame s (tick s')"
  by (rule frame_trans) auto

lemma loop_fields:
  assumes "frame s s'"
  shows "periodicTimer s' = periodicTimer s" "debounceTimer s' = debounceTimer s"
    "maximumTimer s' = maximumTimer s" "retryTimer s' = retryTimer s" "reconnectTimer s' = reconnectTimer s"
    "stabilityTimer s' = stabilityTimer s" "retryDelay s' = retryDelay s" "reconnectDelay s' = reconnectDelay s"
    "pending s' = pending s" "lastReconcileFailure s' = lastReconcileFailure s"
    "lastStreamFailure s' = lastStreamFailure s" "events s' = events s" "eventErrors s' = eventErrors s"
    "streamCancel s' = streamCancel s"
  using assms by (cases s; cases s'; simp add: frame_def)+

lemmas process_step_fields [simp] =
  loop_fields [OF frame_steps(1)] loop_fields [OF frame_steps(2)] loop_fields [OF frame_steps(4)]
  loop_fields [OF frame_steps(5)]

lemma not_stopping_frame: "not_stopping c e p = (b, p') \<Longrightarrow> frame p p' \<and> p_calls p' = p_calls p \<and> w_fs (p_world p') = w_fs (p_world p)"
  by (auto simp: not_stopping_def tick_def later_def instant_def frame_def split: if_splits)

lemma reconcile_frame:
  assumes "reconcile d c p = (e, p')"
  shows "frame p p' \<and> instant p < instant p'"
proof -
  let ?c = "WithTimeout d c (dockerOperationTimeout (d_timing d)) (instant p)"
  obtain r n where snap: "src_Snapshot (d_source d) ?c (dc_Networks (d_config d)) (instant p) = (r, n)"
    by fastforce
  have late: "frame p p1 \<and> instant p < instant p1" if "frame (called CallSnapshot n p) p1" for p1
    using that by (auto simp: frame_def called_def) (auto simp: instant_def later_def)
  show ?thesis
  proof (cases r)
    case (Inl x)
    obtain b p1 where n: "not_stopping c x (called CallSnapshot n p) = (b, p1)" by fastforce
    with not_stopping_frame [OF n] assms snap Inl show ?thesis
      by (auto simp: reconcile_def split: if_splits intro!: late elim: frame_trans)
  next
    case (Inr eps)
    let ?p = "track (Recover ConcernDockerSnapshot) (called CallSnapshot n p)"
    obtain r2 w where app: "st_Apply (d_store d) c eps (p_world ?p) = (r2, w)" by fastforce
    have fr: "frame (called CallSnapshot n p) (stored CallApply w ?p)" by (blast intro: frame_trans)
    show ?thesis
    proof (cases r2)
      case None
      with assms snap Inr app have "p' = track (Recover ConcernHostsApply) (stored CallApply w ?p)"
        by (simp add: reconcile_def Let_def)
      with fr have "frame (called CallSnapshot n p) p'" by (auto intro: frame_trans)
      then show ?thesis by (rule late)
    next
      case (Some x)
      obtain b p1 where n: "not_stopping c x (stored CallApply w ?p) = (b, p1)" by fastforce
      with assms snap Inr app Some have "p' = p1 \<or> p' = track (Fail (now_of d p1) ConcernHostsApply (error_text d x)) p1"
        by (auto simp: reconcile_def Let_def)
      with fr not_stopping_frame [OF n] show ?thesis by (auto intro!: late elim!: frame_trans)
    qed
  qed
qed

section \<open>Stopping\<close>

text \<open>
  The loop is asked to stop when the health server is done or the context is. Both last: a closed
  channel stays closed and a done context stays done.
\<close>

definition stopped :: "Daemon \<Rightarrow> ctx \<Rightarrow> nat \<Rightarrow> bool" where
  "stopped d c n \<longleftrightarrow> srv_Done (d_server d) None n \<or> c n \<noteq> None"

definition lasting :: "Daemon \<Rightarrow> ctx \<Rightarrow> bool" where
  "lasting d c \<longleftrightarrow>
     (\<forall>n m. n \<le> m \<longrightarrow> (srv_Done (d_server d) None n \<longrightarrow> srv_Done (d_server d) None m) \<and>
       (c n \<noteq> None \<longrightarrow> c m \<noteq> None))"

definition steady_clock :: "Daemon \<Rightarrow> bool" where
  "steady_clock d \<longleftrightarrow> (\<forall>n m. n \<le> m \<longrightarrow> rt_time (d_runtime d) n \<le> rt_time (d_runtime d) m)"

lemma stopped_mono: "lasting d c \<Longrightarrow> stopped d c n \<Longrightarrow> n \<le> m \<Longrightarrow> stopped d c m"
  unfolding lasting_def stopped_def by blast

lemma stopReady_spec:
  assumes "stopReady d c s = (b, s')"
  shows "frame s s'" "instant s < instant s'" "p_calls s' = p_calls s" "p_tracker s' = p_tracker s"
    "lasting d c \<Longrightarrow> b \<Longrightarrow> stopped d c (instant s')"
proof -
  show "frame s s'" "instant s < instant s'" "p_calls s' = p_calls s" "p_tracker s' = p_tracker s"
    using assms by (auto simp: stopReady_def loopStreamStopReady_def frame_tick tick_def instant_def later_def
        frame_def split: if_splits)
  show "stopped d c (instant s')" if "lasting d c" b
  proof (cases "srv_Done (d_server d) None (instant s)")
    case True
    then have "stopped d c (instant s)" by (simp add: stopped_def)
    with that(1) \<open>instant s < instant s'\<close> show ?thesis by (auto intro: stopped_mono)
  next
    case False
    with assms that have "stopped d c (Suc (instant s))" "instant s' = Suc (Suc (instant s))"
      by (auto simp: stopReady_def loopStreamStopReady_def stopped_def)
    with that(1) show ?thesis by (auto intro: stopped_mono)
  qed
qed

section \<open>Invariants of the loop\<close>

definition armed_within :: "int \<Rightarrow> int \<Rightarrow> timer option \<Rightarrow> bool" where
  "armed_within now delay t \<longleftrightarrow> (\<exists>dl. t = Some (Timer (Some dl)) \<and> dl \<le> now + delay)"

text \<open>
  A reconciliation is under way or due; a debounced event has a hard deadline; the retry delays stay in
  their range; and the only live stream is the one the loop can cancel.
\<close>

definition reconcile_due :: "Daemon \<Rightarrow> ctx \<Rightarrow> loopState \<Rightarrow> bool" where
  "reconcile_due d c s \<longleftrightarrow> stopped d c (instant s) \<or> pending s \<or>
     armed_within (now_of d s) (dc_PeriodicInterval (d_config d)) (periodicTimer s)"

definition debounce_ok :: "Daemon \<Rightarrow> loopState \<Rightarrow> bool" where
  "debounce_ok d s \<longleftrightarrow> debounceTimer s = None \<and> maximumTimer s = None \<or>
     armed_within (now_of d s) (dc_DebounceDelay (d_config d)) (debounceTimer s) \<and>
     armed_within (now_of d s) (dc_MaxDebounceDelay (d_config d)) (maximumTimer s)"

definition delays_ok :: "Daemon \<Rightarrow> loopState \<Rightarrow> bool" where
  "delays_ok d s \<longleftrightarrow>
     retryDelay s \<in> {retryInitialDelay (d_timing d)..retryMaxDelay (d_timing d)} \<and>
     reconnectDelay s \<in> {retryInitialDelay (d_timing d)..retryMaxDelay (d_timing d)}"

definition live_ok :: "loopState \<Rightarrow> bool" where
  "live_ok s \<longleftrightarrow> p_live s = (case streamCancel s of None \<Rightarrow> [] | Some i \<Rightarrow> [i])"

definition loop_rest :: "Daemon \<Rightarrow> loopState \<Rightarrow> bool" where
  "loop_rest d s \<longleftrightarrow> debounce_ok d s \<and> delays_ok d s \<and> live_ok s"

definition loop_inv :: "Daemon \<Rightarrow> ctx \<Rightarrow> loopState \<Rightarrow> bool" where
  "loop_inv d c s \<longleftrightarrow> reconcile_due d c s \<and> loop_rest d s"

text \<open>The stream is open, or its reconnection is due.\<close>

definition stream_due :: "Daemon \<Rightarrow> ctx \<Rightarrow> loopState \<Rightarrow> bool" where
  "stream_due d c s \<longleftrightarrow> stopped d c (instant s) \<or>
     streamCancel s \<noteq> None \<and> (events s \<noteq> None \<or> eventErrors s \<noteq> None) \<or>
     armed_within (now_of d s) (retryMaxDelay (d_timing d)) (reconnectTimer s)"

text \<open>What the environment and the timing have to satisfy; \<open>New\<close> and \<open>defaultTiming\<close> give the second part.\<close>

definition sane :: "Daemon \<Rightarrow> ctx \<Rightarrow> bool" where
  "sane d c \<longleftrightarrow> lasting d c \<and> steady_clock d \<and>
     0 < retryInitialDelay (d_timing d) \<and> retryInitialDelay (d_timing d) \<le> retryMaxDelay (d_timing d) \<and>
     0 < dc_PeriodicInterval (d_config d) \<and> 0 < dc_DebounceDelay (d_config d) \<and>
     dc_DebounceDelay (d_config d) \<le> dc_MaxDebounceDelay (d_config d)"

lemma now_mono: "sane d c \<Longrightarrow> instant s \<le> instant s' \<Longrightarrow> now_of d s \<le> now_of d s'"
  by (simp add: sane_def steady_clock_def now_of_def)

lemma armed_mono:
  "sane d c \<Longrightarrow> armed_within (now_of d s) x t \<Longrightarrow> instant s \<le> instant s' \<Longrightarrow> armed_within (now_of d s') x t"
  using now_mono [of d c s s'] by (fastforce simp: armed_within_def)

lemma armed_fire [simp]: "0 < x \<Longrightarrow> x \<le> y \<Longrightarrow> armed_within now y (Some (Timer (Some (fire_time now x))))"
  by (simp add: armed_within_def fire_time_def)

lemma loop_rest_frame:
  assumes "sane d c" "loop_rest d s" "frame s s'"
  shows "loop_rest d s'"
proof -
  have t: "instant s \<le> instant s'" and l: "p_live s' = p_live s" using assms(3) by (auto simp: frame_def)
  show ?thesis
    using assms(2) loop_fields [OF assms(3)] armed_mono [OF assms(1) _ t] l
    by (auto simp: loop_rest_def debounce_ok_def delays_ok_def live_ok_def)
qed

lemma loop_inv_frame:
  assumes "sane d c" "loop_inv d c s" "frame s s'"
  shows "loop_inv d c s'"
proof -
  have t: "instant s \<le> instant s'" using assms(3) by (simp add: frame_def)
  have "stopped d c (instant s) \<Longrightarrow> stopped d c (instant s')"
    using assms(1) t by (auto simp: sane_def intro: stopped_mono)
  then show ?thesis
    using assms(2) loop_fields [OF assms(3)] armed_mono [OF assms(1) _ t] loop_rest_frame [OF assms(1) _ assms(3)]
    by (auto simp: loop_inv_def reconcile_due_def)
qed

lemma stream_due_frame:
  assumes "sane d c" "stream_due d c s" "frame s s'"
  shows "stream_due d c s'"
proof -
  have t: "instant s \<le> instant s'" using assms(3) by (auto simp: frame_def)
  have "stopped d c (instant s) \<Longrightarrow> stopped d c (instant s')"
    using assms(1) t by (auto simp: sane_def intro: stopped_mono)
  then show ?thesis
    using assms(2) loop_fields [OF assms(3)] armed_mono [OF assms(1) _ t]
    by (auto simp: stream_due_def)
qed

lemma backoff_range:
  "sane d c \<Longrightarrow> x \<in> {retryInitialDelay (d_timing d)..retryMaxDelay (d_timing d)} \<Longrightarrow>
     nextLoopBackoff x (retryMaxDelay (d_timing d)) \<in> {retryInitialDelay (d_timing d)..retryMaxDelay (d_timing d)}"
  by (auto simp: sane_def nextLoopBackoff_def)

lemmas inv_defs = loop_inv_def loop_rest_def reconcile_due_def debounce_ok_def delays_ok_def live_ok_def

lemma instant_updates [simp]:
  "instant (s\<lparr>periodicTimer := t\<rparr>) = instant s" "instant (s\<lparr>debounceTimer := t\<rparr>) = instant s"
  "instant (s\<lparr>maximumTimer := t\<rparr>) = instant s" "instant (s\<lparr>retryTimer := t\<rparr>) = instant s"
  "instant (s\<lparr>reconnectTimer := t\<rparr>) = instant s" "instant (s\<lparr>stabilityTimer := t\<rparr>) = instant s"
  "instant (s\<lparr>retryDelay := x\<rparr>) = instant s" "instant (s\<lparr>reconnectDelay := x\<rparr>) = instant s"
  "instant (s\<lparr>pending := b\<rparr>) = instant s" "instant (s\<lparr>lastReconcileFailure := m\<rparr>) = instant s"
  "instant (s\<lparr>lastStreamFailure := m\<rparr>) = instant s" "instant (s\<lparr>events := ev\<rparr>) = instant s"
  "instant (s\<lparr>eventErrors := er\<rparr>) = instant s" "instant (s\<lparr>streamCancel := i\<rparr>) = instant s"
  by (simp_all add: instant_def)

lemma now_simps [simp]:
  "now_of d (s\<lparr>periodicTimer := t\<rparr>) = now_of d s" "now_of d (s\<lparr>debounceTimer := t\<rparr>) = now_of d s"
  "now_of d (s\<lparr>maximumTimer := t\<rparr>) = now_of d s" "now_of d (s\<lparr>retryTimer := t\<rparr>) = now_of d s"
  "now_of d (s\<lparr>reconnectTimer := t\<rparr>) = now_of d s" "now_of d (s\<lparr>stabilityTimer := t\<rparr>) = now_of d s"
  "now_of d (s\<lparr>retryDelay := x\<rparr>) = now_of d s" "now_of d (s\<lparr>reconnectDelay := x\<rparr>) = now_of d s"
  "now_of d (s\<lparr>pending := b\<rparr>) = now_of d s" "now_of d (s\<lparr>lastReconcileFailure := m\<rparr>) = now_of d s"
  "now_of d (s\<lparr>lastStreamFailure := m\<rparr>) = now_of d s" "now_of d (s\<lparr>events := ev\<rparr>) = now_of d s"
  "now_of d (s\<lparr>eventErrors := er\<rparr>) = now_of d s" "now_of d (s\<lparr>streamCancel := i\<rparr>) = now_of d s"
  "now_of d (s\<lparr>p_live := l\<rparr>) = now_of d s" "now_of d (s\<lparr>p_calls := cs\<rparr>) = now_of d s"
  "now_of d (track f s) = now_of d s" "now_of d (logged y s) = now_of d s"
  by (simp_all add: now_of_def)

lemma cancelStream_inv: "loop_inv d c s \<Longrightarrow> loop_inv d c (cancelStream s)"
  by (cases "streamCancel s") (simp_all add: inv_defs cancelStream_def)

lemma cancelStream_instant [simp]: "instant (cancelStream s) = instant s" "now_of d (cancelStream s) = now_of d s"
  by (cases "streamCancel s"; simp add: cancelStream_def)+

lemma cancelStream_fields [simp]:
  "streamCancel (cancelStream s) = None" "events (cancelStream s) = events s" "eventErrors (cancelStream s) = eventErrors s"
  "reconnectTimer (cancelStream s) = reconnectTimer s" "reconnectDelay (cancelStream s) = reconnectDelay s"
  by (cases "streamCancel s"; simp add: cancelStream_def)+

text \<open>Updates of fields the invariant does not mention.\<close>

lemma loop_inv_other [simp]:
  "loop_inv d c (s\<lparr>retryTimer := t\<rparr>) = loop_inv d c s" "loop_inv d c (s\<lparr>reconnectTimer := t\<rparr>) = loop_inv d c s"
  "loop_inv d c (s\<lparr>stabilityTimer := t\<rparr>) = loop_inv d c s" "loop_inv d c (s\<lparr>lastReconcileFailure := m\<rparr>) = loop_inv d c s"
  "loop_inv d c (s\<lparr>lastStreamFailure := m\<rparr>) = loop_inv d c s" "loop_inv d c (s\<lparr>events := ev\<rparr>) = loop_inv d c s"
  "loop_inv d c (s\<lparr>eventErrors := er\<rparr>) = loop_inv d c s"
  by (simp_all add: inv_defs)

lemma loop_inv_process [simp]:
  "loop_inv d c (track f s) = loop_inv d c s" "loop_inv d c (logged y s) = loop_inv d c s"
proof -
  have "p_live (track f s) = p_live s" "p_live (logged y s) = p_live s" by (simp_all add: track_def logged_def)
  then show "loop_inv d c (track f s) = loop_inv d c s" "loop_inv d c (logged y s) = loop_inv d c s"
    by (simp_all add: inv_defs)
qed

lemma stream_due_other [simp]:
  "stream_due d c (track f s) = stream_due d c s" "stream_due d c (logged y s) = stream_due d c s"
  "stream_due d c (s\<lparr>periodicTimer := t\<rparr>) = stream_due d c s" "stream_due d c (s\<lparr>debounceTimer := t\<rparr>) = stream_due d c s"
  "stream_due d c (s\<lparr>maximumTimer := t\<rparr>) = stream_due d c s" "stream_due d c (s\<lparr>retryTimer := t\<rparr>) = stream_due d c s"
  "stream_due d c (s\<lparr>stabilityTimer := t\<rparr>) = stream_due d c s" "stream_due d c (s\<lparr>retryDelay := x\<rparr>) = stream_due d c s"
  "stream_due d c (s\<lparr>reconnectDelay := x\<rparr>) = stream_due d c s" "stream_due d c (s\<lparr>pending := b\<rparr>) = stream_due d c s"
  "stream_due d c (s\<lparr>lastReconcileFailure := m\<rparr>) = stream_due d c s"
  "stream_due d c (s\<lparr>lastStreamFailure := m\<rparr>) = stream_due d c s"
  by (simp_all add: stream_due_def)

lemma loop_inv_reconnectDelay:
  "loop_inv d c s \<Longrightarrow> x \<in> {retryInitialDelay (d_timing d)..retryMaxDelay (d_timing d)} \<Longrightarrow>
     loop_inv d c (s\<lparr>reconnectDelay := x\<rparr>)"
  by (simp add: inv_defs)

lemma loop_inv_delays: "loop_inv d c s \<Longrightarrow> delays_ok d s"
  by (simp add: loop_inv_def loop_rest_def)

lemma streamErrorReady_frame: "streamErrorReady s = (r, s') \<Longrightarrow> frame s s'"
  by (auto simp: streamErrorReady_def split: option.splits recv.splits)

lemma disconnectStream_inv:
  assumes "sane d c" "loop_inv d c s"
  shows "loop_inv d c (disconnectStream d c e s) \<and> stream_due d c (disconnectStream d c e s)"
proof -
  let ?s = "(cancelStream s)\<lparr>events := None, eventErrors := None, stabilityTimer := None\<rparr>"
  obtain b s1 where st: "stopReady d c ?s = (b, s1)" by fastforce
  note spec = stopReady_spec [OF st]
  have inv: "loop_inv d c s1" using loop_inv_frame [OF assms(1) _ spec(1)] cancelStream_inv [OF assms(2)] by simp
  show ?thesis
  proof (cases b)
    case True
    with st have "disconnectStream d c e s = s1" by (simp add: disconnectStream_def Let_def)
    moreover have "stopped d c (instant s1)" using spec(5) True assms(1) by (simp add: sane_def)
    ultimately show ?thesis using inv by (simp add: stream_due_def)
  next
    case False
    define message where "message = (case e of None \<Rightarrow> eventStreamClosedMessage | Some e \<Rightarrow> error_text d e)"
    define s2 where "s2 = (if message \<noteq> lastStreamFailure s1
      then (logged (Warn ''Docker event stream unavailable''
              [(''err'', LogText message), (''retry_in'', LogDuration (reconnectDelay s1))]) s1)\<lparr>lastStreamFailure := message\<rparr>
      else s1)"
    have i2: "loop_inv d c s2" "reconnectDelay s2 = reconnectDelay s1" "now_of d s2 = now_of d s1"
      using inv by (auto simp: s2_def)
    define s3 where "s3 = track (Fail (now_of d s2) ConcernDockerEvents message) s2"
    have i3: "loop_inv d c s3" using i2 by (simp add: s3_def)
    have rng: "reconnectDelay s3 \<in> {retryInitialDelay (d_timing d)..retryMaxDelay (d_timing d)}"
      using loop_inv_delays [OF i3] by (simp add: delays_ok_def)
    from False st have "disconnectStream d c e s = s3\<lparr>reconnectTimer := Some (Timer (Some (fire_time (now_of d s3) (reconnectDelay s3)))),
        reconnectDelay := nextLoopBackoff (reconnectDelay s3) (retryMaxDelay (d_timing d))\<rparr>"
      by (simp add: disconnectStream_def Let_def message_def s2_def s3_def)
    with i3 rng assms(1) backoff_range [OF assms(1) rng] show ?thesis
      by (auto simp: sane_def stream_due_def intro!: loop_inv_reconnectDelay armed_fire)
  qed
qed

lemma recoverStream_inv:
  assumes "sane d c" "loop_inv d c s"
  shows "loop_inv d c (recoverStream d c ev s)" and "stream_due d c s \<Longrightarrow> stream_due d c (recoverStream d c ev s)"
proof -
  obtain b s1 where st: "stopReady d c s = (b, s1)" by fastforce
  note fr = stopReady_spec(1) [OF st]
  have i: "loop_inv d c s1" by (rule loop_inv_frame [OF assms fr])
  have rng: "retryInitialDelay (d_timing d) \<in> {retryInitialDelay (d_timing d)..retryMaxDelay (d_timing d)}"
    using assms(1) by (simp add: sane_def)
  show "loop_inv d c (recoverStream d c ev s)"
    using i loop_inv_reconnectDelay [OF i rng] by (simp add: recoverStream_def st Let_def split: bool.splits)
  show "stream_due d c (recoverStream d c ev s)" if "stream_due d c s"
    using stream_due_frame [OF assms(1) that fr] by (simp add: recoverStream_def st Let_def split: bool.splits)
qed

lemma recoverStream_debounce:
  "debounceTimer (recoverStream d c ev s) = debounceTimer s" "maximumTimer (recoverStream d c ev s) = maximumTimer s"
  "pending (recoverStream d c ev s) = pending s" "instant s < instant (recoverStream d c ev s)"
  "p_calls (recoverStream d c ev s) = p_calls s"
proof -
  obtain b s1 where st: "stopReady d c s = (b, s1)" by fastforce
  show "debounceTimer (recoverStream d c ev s) = debounceTimer s" "maximumTimer (recoverStream d c ev s) = maximumTimer s"
    "pending (recoverStream d c ev s) = pending s" "instant s < instant (recoverStream d c ev s)"
    "p_calls (recoverStream d c ev s) = p_calls s"
    using loop_fields [OF stopReady_spec(1) [OF st]] stopReady_spec(2,3) [OF st]
    by (auto simp: recoverStream_def st Let_def logged_def track_def instant_def split: bool.splits)
qed

lemma observeEvent_inv:
  assumes "sane d c" "loop_inv d c s"
  shows "loop_inv d c (observeEvent d c s)" and "stream_due d c s \<Longrightarrow> stream_due d c (observeEvent d c s)"
proof -
  obtain b s1 where st: "stopReady d c s = (b, s1)" by fastforce
  note fr = stopReady_spec(1) [OF st]
  have i1: "loop_inv d c s1" by (rule loop_inv_frame [OF assms fr])
  let ?s = "recoverStream d c ''event'' s1"
  have i2: "loop_inv d c ?s" by (rule recoverStream_inv(1) [OF assms(1) i1])
  have "loop_inv d c (if debounceTimer ?s = None
      then ?s\<lparr>maximumTimer := Some (Timer (Some (fire_time (now_of d ?s) (dc_MaxDebounceDelay (d_config d))))),
             debounceTimer := Some (Timer (Some (fire_time (now_of d ?s) (dc_DebounceDelay (d_config d)))))\<rparr>
      else ?s\<lparr>debounceTimer := Some (Timer (Some (fire_time (now_of d ?s) (dc_DebounceDelay (d_config d)))))\<rparr>)"
    using i2 assms(1) by (auto simp: inv_defs sane_def)
  then show "loop_inv d c (observeEvent d c s)"
    using i1 by (cases b) (auto simp: observeEvent_def st Let_def split: if_splits)
  show "stream_due d c (observeEvent d c s)" if "stream_due d c s"
    using stream_due_frame [OF assms(1) that fr] recoverStream_inv(2) [OF assms(1) i1]
    by (cases b) (simp_all add: observeEvent_def st Let_def)
qed

lemma startStream_inv:
  assumes "sane d c" "loop_inv d c s"
  defines "s' \<equiv> startStream d c s"
  shows "loop_inv d c s'" and "events s' \<noteq> None \<or> eventErrors s' \<noteq> None \<Longrightarrow> stream_due d c s'"
    and "instant s < instant s'"
proof -
  obtain b s1 where st: "stopReady d c s = (b, s1)" by fastforce
  note sp = stopReady_spec [OF st]
  have i1: "loop_inv d c s1" by (rule loop_inv_frame [OF assms(1,2) sp(1)])
  have "loop_inv d c s' \<and> (events s' \<noteq> None \<or> eventErrors s' \<noteq> None \<longrightarrow> stream_due d c s') \<and> instant s < instant s'"
  proof (cases b)
    case True
    then have "stopped d c (instant s1)" using sp(5) assms(1) by (simp add: sane_def)
    with True i1 st sp(2) show ?thesis by (simp add: s'_def startStream_def stream_due_def)
  next
    case False
    let ?i = "instant s1"
    let ?s = "(cancelStream s1)\<lparr>streamCancel := Some ?i, p_live := ?i # p_live (cancelStream s1)\<rparr>"
    obtain evs errs n where ev: "src_Events (d_source d) c (dc_Networks (d_config d)) ?i = ((evs, errs), n)"
      by (metis prod.exhaust)
    let ?t = "called CallEvents n (?s\<lparr>events := evs, eventErrors := errs\<rparr>)"
    obtain b2 s2 where st2: "stopReady d c ?t = (b2, s2)" by fastforce
    note sp2 = stopReady_spec [OF st2]
    have "loop_inv d c ?s"
      using cancelStream_inv [OF i1] by (simp add: inv_defs)
    then have "loop_inv d c (?s\<lparr>events := evs, eventErrors := errs\<rparr>)" by simp
    then have i2: "loop_inv d c s2" using loop_inv_frame [OF assms(1) _ frame_trans [OF frame_steps(2) sp2(1)]] by blast
    have f: "events s2 = evs" "eventErrors s2 = errs" "streamCancel s2 = Some ?i"
      using loop_fields [OF sp2(1)] by simp_all
    have late: "instant s < instant s2" using sp(2) sp2(2) by simp
    show ?thesis
    proof (cases b2)
      case True
      then have "s' = (cancelStream s2)\<lparr>events := None, eventErrors := None\<rparr>"
        using False st ev st2 by (simp add: s'_def startStream_def Let_def)
      with cancelStream_inv [OF i2] late show ?thesis by simp
    next
      case b2: False
      then have "s' = s2\<lparr>stabilityTimer := Some (Timer (Some (fire_time (now_of d s2) (streamStabilityDelay (d_timing d)))))\<rparr>"
        using False st ev st2 by (simp add: s'_def startStream_def Let_def)
      with i2 late f show ?thesis by (auto simp: stream_due_def)
    qed
  qed
  then show "loop_inv d c s'" "instant s < instant s'"
    "events s' \<noteq> None \<or> eventErrors s' \<noteq> None \<Longrightarrow> stream_due d c s'" by blast+
qed

lemma handleEvent_inv:
  assumes "sane d c" "loop_inv d c s" "stream_due d c s"
  shows "loop_inv d c (handleEvent d c ok s) \<and> stream_due d c (handleEvent d c ok s)"
proof (cases ok)
  case True
  with observeEvent_inv [OF assms(1,2)] assms(3) show ?thesis by (simp add: handleEvent_def)
next
  case False
  obtain r s1 where r: "streamErrorReady s = (r, s1)" by fastforce
  from disconnectStream_inv [OF assms(1) loop_inv_frame [OF assms(1,2) streamErrorReady_frame [OF r]]] False r
  show ?thesis by (simp add: handleEvent_def split: prod.splits)
qed

lemma handleStreamError_inv:
  assumes "sane d c" "loop_inv d c s"
  shows "loop_inv d c (handleStreamError d c e ok s) \<and> stream_due d c (handleStreamError d c e ok s)"
  using disconnectStream_inv [OF assms] by (simp add: handleStreamError_def)

lemma handleStability_inv:
  assumes "sane d c" "loop_inv d c s" "stream_due d c s"
  shows "loop_inv d c (handleStability d c s) \<and> stream_due d c (handleStability d c s)"
proof -
  let ?s = "s\<lparr>stabilityTimer := None\<rparr>"
  obtain b s1 where st: "stopReady d c ?s = (b, s1)" by fastforce
  obtain e rdy s2 where er: "streamErrorReady s1 = ((e, rdy), s2)" by (metis prod.exhaust)
  have fr: "frame ?s s1" "frame s1 s2" using stopReady_spec(1) [OF st] streamErrorReady_frame [OF er] .
  have i: "loop_inv d c ?s" "stream_due d c ?s" using assms(2,3) by simp_all
  have i1: "loop_inv d c s1" "stream_due d c s1"
    using loop_inv_frame [OF assms(1) i(1) fr(1)] stream_due_frame [OF assms(1) i(2) fr(1)] .
  have i2: "loop_inv d c s2" using loop_inv_frame [OF assms(1) i1(1) fr(2)] .
  have i3: "loop_inv d c (tick s2)" "stream_due d c (tick s2)"
    using loop_inv_frame [OF assms(1) i1(1) frame_tick [OF fr(2)]] stream_due_frame [OF assms(1) i1(2) frame_tick [OF fr(2)]] .
  obtain e' r' s4 where er': "streamErrorReady (tick s2) = ((e', r'), s4)" by (metis prod.exhaust)
  have i4: "loop_inv d c s4" using loop_inv_frame [OF assms(1) i3(1) streamErrorReady_frame [OF er']] .
  show ?thesis
    using i1 disconnectStream_inv [OF assms(1) i2] disconnectStream_inv [OF assms(1) i4]
      observeEvent_inv [OF assms(1) i3(1)] recoverStream_inv [OF assms(1) i3(1)] i3(2)
    by (simp add: handleStability_def Let_def st er er' split: bool.splits option.splits recv.splits)
qed

lemma scheduleAfter_inv:
  assumes "sane d c" "loop_rest d s" "stream_due d c s"
  shows "loop_inv d c (scheduleAfter d c s) \<and> stream_due d c (scheduleAfter d c s)"
proof -
  have "loop_rest d (tick s)" "stream_due d c (tick s)"
    using loop_rest_frame [OF assms(1,2) frame_steps(1)] stream_due_frame [OF assms(1,3) frame_steps(1)] .
  moreover have "stopped d c (Suc (instant s))" if "c (instant s) \<noteq> None"
  proof -
    have "lasting d c" "stopped d c (instant s)" using assms(1) that by (auto simp: sane_def stopped_def)
    then show ?thesis by (rule stopped_mono) simp
  qed
  moreover have "0 < dc_PeriodicInterval (d_config d)" using assms(1) by (simp add: sane_def)
  moreover have "loop_rest d (x\<lparr>periodicTimer := t\<rparr>) = loop_rest d x" for x t by (simp add: inv_defs)
  ultimately show ?thesis
    by (cases "c (instant s) = None") (simp_all add: scheduleAfter_def loop_inv_def reconcile_due_def)
qed

lemma retryAfter_inv:
  assumes "sane d c" "loop_inv d c s" "stream_due d c s"
  shows "loop_inv d c (retryAfter d e s) \<and> stream_due d c (retryAfter d e s)"
proof -
  have dl: "loop_inv d c (x\<lparr>retryDelay := y\<rparr>)"
    if "loop_inv d c x" "y \<in> {retryInitialDelay (d_timing d)..retryMaxDelay (d_timing d)}" for x y
    using that by (simp add: inv_defs)
  have rng: "retryInitialDelay (d_timing d) \<in> {retryInitialDelay (d_timing d)..retryMaxDelay (d_timing d)}"
    using assms(1) by (simp add: sane_def)
  have rng': "nextLoopBackoff (retryDelay s) (retryMaxDelay (d_timing d)) \<in> {retryInitialDelay (d_timing d)..retryMaxDelay (d_timing d)}"
    using backoff_range [OF assms(1)] loop_inv_delays [OF assms(2)] by (simp add: delays_ok_def)
  show ?thesis
    using assms(2,3) dl [OF _ rng] dl [OF _ rng'] by (cases e) (simp_all add: retryAfter_def Let_def)
qed

lemma reconcilePending_inv:
  assumes "sane d c" "loop_inv d c s" "stream_due d c s"
  shows "loop_inv d c (reconcilePending d c s) \<and> stream_due d c (reconcilePending d c s)"
proof -
  define s0 where "s0 = s\<lparr>pending := False, periodicTimer := None, debounceTimer := None, maximumTimer := None, retryTimer := None\<rparr>"
  obtain e s1 where re: "reconcile d c s0 = (e, s1)" by fastforce
  obtain b s2 where st: "stopReady d c s1 = (b, s2)" by fastforce
  note sp = stopReady_spec [OF st]
  have fr: "frame s0 s2" using reconcile_frame [OF re] sp(1) by (blast intro: frame_trans)
  have r0: "loop_rest d s0" "stream_due d c s0" using assms(2,3) by (simp_all add: s0_def inv_defs)
  note r2 = loop_rest_frame [OF assms(1) r0(1) fr] and d2 = stream_due_frame [OF assms(1) r0(2) fr]
  let ?s = "scheduleAfter d c s2"
  have run: "reconcilePending d c s = (if b then s2 else if c (instant ?s) = None then retryAfter d e (tick ?s) else tick ?s)"
    by (simp add: reconcilePending_def s0_def [symmetric] re st Let_def)
  have i3: "loop_inv d c ?s \<and> stream_due d c ?s" by (rule scheduleAfter_inv [OF assms(1) r2 d2])
  then have i4: "loop_inv d c (tick ?s)" "stream_due d c (tick ?s)"
    using loop_inv_frame [OF assms(1) _ frame_steps(1)] stream_due_frame [OF assms(1) _ frame_steps(1)] by blast+
  show ?thesis
  proof (cases b)
    case True
    with sp(5) assms(1) r2 d2 show ?thesis by (simp add: run loop_inv_def reconcile_due_def sane_def)
  next
    case False
    with i4 retryAfter_inv [OF assms(1) i4] show ?thesis by (simp add: run)
  qed
qed

lemma restart_inv:
  assumes "sane d c" "loop_inv d c s"
  defines "s' \<equiv> startStream d c s"
  defines "s'' \<equiv> if events s' = None \<and> eventErrors s' = None then disconnectStream d c None s' else s'"
  shows "loop_inv d c s'' \<and> stream_due d c s''"
  using startStream_inv [OF assms(1,2)] disconnectStream_inv [OF assms(1), of s' None]
  unfolding s''_def s'_def by auto

lemma loop_inv_pending:
  assumes "loop_inv d c s"
  shows "loop_inv d c (s\<lparr>pending := True\<rparr>)"
    and "loop_inv d c (s\<lparr>debounceTimer := None, maximumTimer := None, pending := True\<rparr>)"
    and "loop_inv d c (s\<lparr>periodicTimer := None, debounceTimer := None, maximumTimer := None, pending := True\<rparr>)"
    and "loop_inv d c (s\<lparr>retryTimer := None, pending := True\<rparr>)"
  using assms by (simp_all add: inv_defs)

lemma take_case_inv:
  assumes "sane d c" "loop_inv d c s" "stream_due d c s" "take_case d c k s = (ctl, s')"
  shows "loop_inv d c s' \<and> (stream_due d c s')"
proof (cases k)
  case OnServer
  obtain r s1 where "loopServerResult d s = (r, s1)" by fastforce
  then have "s1 = tick s" by (auto simp: loopServerResult_def split: option.splits)
  with assms(4) OnServer \<open>loopServerResult d s = (r, s1)\<close> have "s' = tick s" by (simp add: take_case_def split: prod.splits)
  with loop_inv_frame [OF assms(1,2) frame_steps(1)] stream_due_frame [OF assms(1,3) frame_steps(1)]
  show ?thesis by simp
next
  case OnReconnect
  let ?s = "s\<lparr>reconnectTimer := None\<rparr>"
  obtain b s1 where st: "stopReady d c ?s = (b, s1)" by fastforce
  have i1: "loop_inv d c s1" using loop_inv_frame [OF assms(1) _ stopReady_spec(1) [OF st]] assms(2) by simp
  have "b \<Longrightarrow> stream_due d c s1" using stopReady_spec(5) [OF st] assms(1) by (simp add: stream_due_def sane_def)
  with i1 restart_inv [OF assms(1) i1] assms(4) OnReconnect st show ?thesis
    by (cases b) (auto simp: take_case_def Let_def)
next
  case (OnEvent ok)
  with handleEvent_inv [OF assms(1-3)] assms(4) show ?thesis by (auto simp: take_case_def)
next
  case (OnStreamError e ok)
  with handleStreamError_inv [OF assms(1,2)] assms(4) show ?thesis by (auto simp: take_case_def)
next
  case OnStability
  with handleStability_inv [OF assms(1-3)] assms(4) show ?thesis by (auto simp: take_case_def)
next
  case OnStop
  with assms show ?thesis by (auto simp: take_case_def)
next
  case OnPeriodic
  with loop_inv_pending [OF assms(2)] assms(3,4) show ?thesis by (auto simp: take_case_def)
next
  case OnDebounce
  with loop_inv_pending [OF assms(2)] assms(3,4) show ?thesis by (auto simp: take_case_def)
next
  case OnMaximum
  with loop_inv_pending [OF assms(2)] assms(3,4) show ?thesis by (auto simp: take_case_def)
next
  case OnRetry
  with loop_inv_pending [OF assms(2)] assms(3,4) show ?thesis by (auto simp: take_case_def)
qed

lemma loopStop_tick: "loopStop d c p = (r, p') \<Longrightarrow> p' = tick (tick p)"
  by (auto simp: loopStop_def split: if_splits option.splits)

lemma loop_step_inv:
  assumes "sane d c" "loop_inv d c s" "stream_due d c s" "loop_step d c (ctl, s) = (ctl', s')"
  shows "loop_inv d c s' \<and> stream_due d c s'"
proof -
  have t: "loop_inv d c (tick s)" "stream_due d c (tick s)" "loop_inv d c (tick (tick s))" "stream_due d c (tick (tick s))"
    using loop_inv_frame [OF assms(1,2)] stream_due_frame [OF assms(1,3)] frame_tick [OF frame_steps(1)] by blast+
  show ?thesis
  proof (cases ctl)
    case Checking
    obtain r s1 where r: "loopStop d c s = (r, s1)" by fastforce
    with loopStop_tick [OF r] reconcilePending_inv [OF assms(1) t(3,4)] t Checking assms(4)
    show ?thesis by (auto split: option.splits prod.splits if_splits)
  next
    case Waiting
    with take_case_inv [OF assms(1) t(1,2)] t assms(4) show ?thesis
      by (auto split: list.splits)
  next
    case (Returned e b)
    with assms show ?thesis by simp
  qed
qed

section \<open>Runs of the loop\<close>

text \<open>The states the loop passes through, from the state it starts in.\<close>

inductive reaches :: "Daemon \<Rightarrow> ctx \<Rightarrow> control \<times> loopState \<Rightarrow> control \<times> loopState \<Rightarrow> bool"
  for d :: Daemon and c :: ctx and x :: "control \<times> loopState" where
  here: "reaches d c x x"
| step: "reaches d c x y \<Longrightarrow> reaches d c x (loop_step d c y)"

lemma reaches_funpow: "reaches d c x ((loop_step d c ^^ k) x)"
  by (induction k) (auto intro: reaches.intros)

lemma reaches_inv:
  assumes "reaches d c (ctl, s) y" "sane d c" "loop_inv d c s" "stream_due d c s"
  shows "loop_inv d c (snd y) \<and> stream_due d c (snd y)"
  using assms(1)
proof (induction rule: reaches.induct)
  case here
  with assms show ?case by simp
next
  case (step y)
  obtain ctl1 s1 where "y = (ctl1, s1)" by fastforce
  moreover obtain ctl2 s2 where "loop_step d c (ctl1, s1) = (ctl2, s2)" by fastforce
  ultimately show ?case using step loop_step_inv [OF assms(2), of s1 ctl1 ctl2 s2] by simp
qed

lemma newLoopState_inv:
  assumes "sane d c" "p_live p = []"
  shows "loop_inv d c (newLoopState d e p)"
proof -
  have t: "instant (newLoopState d e p) = instant p"
    by (auto simp: newLoopState_def Let_def instant_def process.defs split: option.splits)
  then have n: "now_of d (newLoopState d e p) = now_of d p" by (simp add: now_of_def)
  have rng: "retryInitialDelay (d_timing d) \<in> {retryInitialDelay (d_timing d)..retryMaxDelay (d_timing d)}"
    using assms(1) by (simp add: sane_def)
  have dl: "retryDelay (newLoopState d e p) \<in> {retryInitialDelay (d_timing d)..retryMaxDelay (d_timing d)}"
    using rng backoff_range [OF assms(1) rng]
    by (auto simp: newLoopState_def Let_def process.defs split: option.splits)
  have f: "periodicTimer (newLoopState d e p) = Some (NewTimer (now_of d p) (dc_PeriodicInterval (d_config d)))"
    "debounceTimer (newLoopState d e p) = None" "maximumTimer (newLoopState d e p) = None"
    "reconnectDelay (newLoopState d e p) = retryInitialDelay (d_timing d)" "streamCancel (newLoopState d e p) = None"
    "p_live (newLoopState d e p) = p_live p"
    by (simp_all add: newLoopState_def Let_def process.defs split: option.splits)
  have pos: "0 < dc_PeriodicInterval (d_config d)" using assms(1) by (simp add: sane_def)
  show ?thesis
    using pos rng dl by (simp add: inv_defs f n assms(2) NewTimer_def)
qed

lemma loop_start_inv:
  assumes "sane d c" "p_live p = []"
  shows "loop_inv d c (loop_start d c e p) \<and> stream_due d c (loop_start d c e p)"
  using restart_inv [OF assms(1) newLoopState_inv [OF assms]] by (simp add: loop_start_def Let_def)

lemma loop_states_inv:
  assumes "sane d c" "p_live p = []" "reaches d c (Checking, loop_start d c e p) (ctl, s)"
  shows "loop_inv d c s" "stream_due d c s"
  using reaches_inv [OF assms(3,1)] loop_start_inv [OF assms(1,2)] by auto

section \<open>Time passes\<close>

lemma disconnectStream_instant: "instant s < instant (disconnectStream d c e s)"
proof -
  let ?s = "(cancelStream s)\<lparr>events := None, eventErrors := None, stabilityTimer := None\<rparr>"
  obtain b s1 where st: "stopReady d c ?s = (b, s1)" by fastforce
  with stopReady_spec(2) [OF st] show ?thesis
    by (cases b) (auto simp: disconnectStream_def Let_def)
qed

lemma observeEvent_instant: "instant s < instant (observeEvent d c s)"
proof -
  obtain b s1 where st: "stopReady d c s = (b, s1)" by fastforce
  with stopReady_spec(2) [OF st] recoverStream_debounce(4) [of s1 d c "''event''"] show ?thesis
    by (cases b) (auto simp: observeEvent_def Let_def)
qed

end
