(* ===== verification/Daemon_Effects.thy ===== *)
theory Daemon_Effects
  imports Daemon_Loop
begin

text \<open>
  The effects of the loop on the world outside the process: a step relation that every operation of the
  loop refines, so that what holds of all effects holds of the whole run.
\<close>

section \<open>What the loop does to the world\<close>

text \<open>
  The effects of a running daemon on the world outside, as a step relation: time passes, calls are made
  to the source and the server, streams are cancelled, and the store is prepared and updated. Everything
  the daemon does until it cleans up is a sequence of these, so what they all keep the daemon keeps.
\<close>

type_synonym outside = "world \<times> (call \<times> nat) list"

inductive effects :: "Daemon \<Rightarrow> outside \<Rightarrow> outside \<Rightarrow> bool" for d :: Daemon where
  no_effect: "effects d x x"
| time_passes: "effects d x (w, cs) \<Longrightarrow> effects d x (later n w, cs)"
| source_call: "effects d x (w, cs) \<Longrightarrow> k \<in> {CallPing, CallStart, CallSnapshot, CallEvents} \<Longrightarrow>
    effects d x (later n w, cs @ [(k, w_clock w)])"
| cancel_call: "effects d x (w, cs) \<Longrightarrow> effects d x (w, cs @ [(CallCancel, w_clock w)])"
| prepare_call: "effects d x (w, cs) \<Longrightarrow> st_Prepare (d_store d) c w = (r, w') \<Longrightarrow>
    effects d x (later (Suc (w_clock w)) w', cs @ [(CallPrepare, w_clock w)])"
| apply_call: "effects d x (w, cs) \<Longrightarrow> st_Apply (d_store d) c eps w = (e, w') \<Longrightarrow>
    effects d x (later (Suc (w_clock w)) w', cs @ [(CallApply, w_clock w)])"

definition outside_of :: "'a process_scheme \<Rightarrow> outside" where
  "outside_of p = (p_world p, p_calls p)"

lemma effects_trans: "effects d y z \<Longrightarrow> effects d x y \<Longrightarrow> effects d x z"
  by (induction rule: effects.induct) (auto intro: effects.intros)

text \<open>The operations only append to the calls and only move the clock forward.\<close>

abbreviation while_running :: "(call \<times> nat) list \<Rightarrow> bool" where
  "while_running cs \<equiv> \<forall>k\<in>set cs. fst k \<notin> {CallShutdown, CallClose}"

lemma effects_forward:
  "effects d x y \<Longrightarrow> w_clock (fst x) \<le> w_clock (fst y) \<and> (\<exists>new. snd y = snd x @ new \<and> while_running new)"
proof (induction rule: effects.induct)
  case (time_passes x w cs n)
  then show ?case by (auto simp: later_def)
qed (fastforce simp: later_def)+

lemma outside_simps [simp]:
  "outside_of (track f p) = outside_of p" "outside_of (logged x p) = outside_of p"
  "outside_of (s\<lparr>p_live := l\<rparr>) = outside_of s"
  by (simp_all add: outside_of_def track_def logged_def)

lemma outside_updates [simp]:
  "outside_of (s\<lparr>periodicTimer := t\<rparr>) = outside_of s" "outside_of (s\<lparr>debounceTimer := t\<rparr>) = outside_of s"
  "outside_of (s\<lparr>maximumTimer := t\<rparr>) = outside_of s" "outside_of (s\<lparr>retryTimer := t\<rparr>) = outside_of s"
  "outside_of (s\<lparr>reconnectTimer := t\<rparr>) = outside_of s" "outside_of (s\<lparr>stabilityTimer := t\<rparr>) = outside_of s"
  "outside_of (s\<lparr>retryDelay := x\<rparr>) = outside_of s" "outside_of (s\<lparr>reconnectDelay := x\<rparr>) = outside_of s"
  "outside_of (s\<lparr>pending := b\<rparr>) = outside_of s" "outside_of (s\<lparr>lastReconcileFailure := m\<rparr>) = outside_of s"
  "outside_of (s\<lparr>lastStreamFailure := m\<rparr>) = outside_of s" "outside_of (s\<lparr>events := ev\<rparr>) = outside_of s"
  "outside_of (s\<lparr>eventErrors := er\<rparr>) = outside_of s" "outside_of (s\<lparr>streamCancel := i\<rparr>) = outside_of s"
  by (simp_all add: outside_of_def)

lemma effects_tick: "effects d x (outside_of s) \<Longrightarrow> effects d x (outside_of (tick s))"
  by (simp add: outside_of_def tick_def time_passes)

lemma effects_called:
  "effects d x (outside_of s) \<Longrightarrow> k \<in> {CallPing, CallStart, CallSnapshot, CallEvents} \<Longrightarrow>
     effects d x (outside_of (called k n s))"
  using source_call [of d x "p_world s" "p_calls s" k n] by (simp add: outside_of_def called_def instant_def)

lemma effects_stored:
  "effects d x (outside_of s) \<Longrightarrow> st_Apply (d_store d) c eps (p_world s) = (e, w) \<Longrightarrow>
     effects d x (outside_of (stored CallApply w s))"
  using apply_call [of d x "p_world s" "p_calls s" c eps e w] by (simp add: outside_of_def stored_def instant_def)

lemma effects_prepared:
  "effects d x (outside_of s) \<Longrightarrow> st_Prepare (d_store d) c (p_world s) = (r, w) \<Longrightarrow>
     effects d x (outside_of (stored CallPrepare w s))"
  using prepare_call [of d x "p_world s" "p_calls s" c r w] by (simp add: outside_of_def stored_def instant_def)

lemma effects_stopReady: "effects d x (outside_of s) \<Longrightarrow> stopReady d c s = (b, s') \<Longrightarrow> effects d x (outside_of s')"
  by (auto simp: stopReady_def loopStreamStopReady_def intro!: effects_tick split: if_splits)

lemma effects_not_stopping: "effects d x (outside_of s) \<Longrightarrow> not_stopping c e s = (b, s') \<Longrightarrow> effects d x (outside_of s')"
  by (auto simp: not_stopping_def intro!: effects_tick split: if_splits)

lemma effects_cancel: "effects d x (outside_of s) \<Longrightarrow> effects d x (outside_of (cancelStream s))"
  using cancel_call [of d x "p_world s" "p_calls s"]
  by (cases "streamCancel s") (simp_all add: cancelStream_def outside_of_def instant_def)

lemma effects_reconcile:
  assumes "effects d x (outside_of p)" "reconcile d c p = (e, p')"
  shows "effects d x (outside_of p')"
proof -
  let ?c = "WithTimeout d c (dockerOperationTimeout (d_timing d)) (instant p)"
  obtain r n where snap: "src_Snapshot (d_source d) ?c (dc_Networks (d_config d)) (instant p) = (r, n)"
    by fastforce
  let ?q = "called CallSnapshot n p"
  have q: "effects d x (outside_of ?q)" using assms(1) by (simp add: effects_called)
  show ?thesis
  proof (cases r)
    case (Inl y)
    obtain b p1 where n: "not_stopping c y ?q = (b, p1)" by fastforce
    with effects_not_stopping [OF q n] assms(2) snap Inl show ?thesis by (auto simp: reconcile_def)
  next
    case (Inr eps)
    let ?p = "track (Recover ConcernDockerSnapshot) ?q"
    obtain r2 w where app: "st_Apply (d_store d) c eps (p_world ?p) = (r2, w)" by fastforce
    have st: "effects d x (outside_of (stored CallApply w ?p))"
      by (rule effects_stored [OF _ app]) (use q in simp)
    obtain b p1 where n: "r2 \<noteq> None \<Longrightarrow> not_stopping c (the r2) (stored CallApply w ?p) = (b, p1)" by fastforce
    show ?thesis
    proof (cases r2)
      case None
      with assms(2) snap Inr app st show ?thesis by (auto simp: reconcile_def Let_def)
    next
      case (Some y)
      with n effects_not_stopping [OF st, of c y b p1] assms(2) snap Inr app show ?thesis
        by (auto simp: reconcile_def Let_def)
    qed
  qed
qed

lemma effects_streamError: "effects d x (outside_of s) \<Longrightarrow> streamErrorReady s = (r, s') \<Longrightarrow> effects d x (outside_of s')"
  by (auto simp: streamErrorReady_def intro!: effects_tick split: option.splits recv.splits)

lemma effects_disconnect: "effects d x (outside_of s) \<Longrightarrow> effects d x (outside_of (disconnectStream d c e s))"
proof -
  assume "effects d x (outside_of s)"
  then have 1: "effects d x (outside_of ((cancelStream s)\<lparr>events := None, eventErrors := None, stabilityTimer := None\<rparr>))"
    by (simp add: effects_cancel)
  obtain b s1 where st: "stopReady d c ((cancelStream s)\<lparr>events := None, eventErrors := None, stabilityTimer := None\<rparr>) = (b, s1)"
    by fastforce
  from effects_stopReady [OF 1 st] st show ?thesis by (cases b) (simp_all add: disconnectStream_def Let_def)
qed

lemma effects_recover: "effects d x (outside_of s) \<Longrightarrow> effects d x (outside_of (recoverStream d c ev s))"
proof -
  assume 1: "effects d x (outside_of s)"
  obtain b s1 where st: "stopReady d c s = (b, s1)" by fastforce
  from effects_stopReady [OF 1 st] st show ?thesis by (cases b) (simp_all add: recoverStream_def Let_def)
qed

lemma effects_observe: "effects d x (outside_of s) \<Longrightarrow> effects d x (outside_of (observeEvent d c s))"
proof -
  assume 1: "effects d x (outside_of s)"
  obtain b s1 where st: "stopReady d c s = (b, s1)" by fastforce
  note 2 = effects_stopReady [OF 1 st]
  from 2 effects_recover [OF 2] st show ?thesis by (cases b) (simp_all add: observeEvent_def Let_def)
qed

lemma effects_startStream: "effects d x (outside_of s) \<Longrightarrow> effects d x (outside_of (startStream d c s))"
proof -
  assume 1: "effects d x (outside_of s)"
  obtain b s1 where st: "stopReady d c s = (b, s1)" by fastforce
  note 2 = effects_stopReady [OF 1 st]
  show ?thesis
  proof (cases b)
    case True
    with 2 st show ?thesis by (simp add: startStream_def)
  next
    case False
    let ?s = "(cancelStream s1)\<lparr>streamCancel := Some (instant s1), p_live := instant s1 # p_live (cancelStream s1)\<rparr>"
    obtain evs errs n where ev: "src_Events (d_source d) c (dc_Networks (d_config d)) (instant s1) = ((evs, errs), n)"
      by (metis prod.exhaust)
    let ?t = "called CallEvents n (?s\<lparr>events := evs, eventErrors := errs\<rparr>)"
    obtain b2 s2 where st2: "stopReady d c ?t = (b2, s2)" by fastforce
    have "effects d x (outside_of ?t)" by (rule effects_called) (use effects_cancel [OF 2] in simp_all)
    note 3 = effects_stopReady [OF this st2]
    from 3 effects_cancel [OF 3] False st ev st2 show ?thesis
      by (cases b2) (simp_all add: startStream_def Let_def)
  qed
qed

lemma effects_handleEvent: "effects d x (outside_of s) \<Longrightarrow> effects d x (outside_of (handleEvent d c ok s))"
proof -
  assume 1: "effects d x (outside_of s)"
  obtain r s1 where r: "streamErrorReady s = (r, s1)" by fastforce
  from effects_disconnect [OF effects_streamError [OF 1 r]] effects_observe [OF 1] r show ?thesis
    by (simp add: handleEvent_def split: prod.splits)
qed

lemma effects_handleStability: "effects d x (outside_of s) \<Longrightarrow> effects d x (outside_of (handleStability d c s))"
proof -
  assume "effects d x (outside_of s)"
  then have 1: "effects d x (outside_of (s\<lparr>stabilityTimer := None\<rparr>))" by simp
  obtain b s1 where st: "stopReady d c (s\<lparr>stabilityTimer := None\<rparr>) = (b, s1)" by fastforce
  obtain e r s2 where er: "streamErrorReady s1 = ((e, r), s2)" by (metis prod.exhaust)
  obtain e' r' s4 where er': "streamErrorReady (tick s2) = ((e', r'), s4)" by (metis prod.exhaust)
  note 2 = effects_stopReady [OF 1 st]
  note 3 = effects_streamError [OF 2 er]
  note 4 = effects_tick [OF 3]
  note 5 = effects_streamError [OF 4 er']
  show ?thesis
    using 2 effects_disconnect [OF 3] effects_disconnect [OF 5] effects_observe [OF 4] effects_recover [OF 4]
    by (simp add: handleStability_def Let_def st er er' split: bool.splits option.splits recv.splits)
qed

lemma effects_retryAfter: "effects d x (outside_of s) \<Longrightarrow> effects d x (outside_of (retryAfter d e s))"
  by (cases e) (simp_all add: retryAfter_def Let_def)

lemma effects_scheduleAfter: "effects d x (outside_of s) \<Longrightarrow> effects d x (outside_of (scheduleAfter d c s))"
  by (simp add: scheduleAfter_def effects_tick)

lemma effects_reconcilePending: "effects d x (outside_of s) \<Longrightarrow> effects d x (outside_of (reconcilePending d c s))"
proof -
  let ?s = "s\<lparr>pending := False, periodicTimer := None, debounceTimer := None, maximumTimer := None, retryTimer := None\<rparr>"
  assume "effects d x (outside_of s)"
  then have 1: "effects d x (outside_of ?s)" by simp
  obtain e s1 where re: "reconcile d c ?s = (e, s1)" by fastforce
  obtain b s2 where st: "stopReady d c s1 = (b, s2)" by fastforce
  note 2 = effects_stopReady [OF effects_reconcile [OF 1 re] st]
  note 3 = effects_tick [OF effects_scheduleAfter [OF 2]]
  from 2 3 effects_retryAfter [OF 3] re st show ?thesis
    by (cases b) (simp_all add: reconcilePending_def Let_def)
qed

lemma effects_take_case:
  assumes "effects d x (outside_of s)" "take_case d c k s = (ctl, s')"
  shows "effects d x (outside_of s')"
proof (cases k)
  case OnServer
  with assms effects_tick [OF assms(1)] show ?thesis
    by (auto simp: take_case_def loopServerResult_def split: option.splits)
next
  case OnReconnect
  obtain b s1 where st: "stopReady d c (s\<lparr>reconnectTimer := None\<rparr>) = (b, s1)" by fastforce
  have 1: "effects d x (outside_of s1)" by (rule effects_stopReady [OF _ st]) (use assms(1) in simp)
  note 2 = effects_startStream [OF 1]
  from assms(2) OnReconnect st 1 2 effects_disconnect [OF 2] show ?thesis
    by (cases b) (auto simp: take_case_def Let_def)
next
  case (OnEvent ok)
  with assms effects_handleEvent [OF assms(1)] show ?thesis by (auto simp: take_case_def)
next
  case (OnStreamError e ok)
  with assms effects_disconnect [OF assms(1)] show ?thesis by (auto simp: take_case_def handleStreamError_def split: if_splits)
next
  case OnStability
  with assms effects_handleStability [OF assms(1)] show ?thesis by (auto simp: take_case_def)
qed (use assms in \<open>auto simp: take_case_def\<close>)

lemma effects_loop_step:
  assumes "effects d x (outside_of s)" "loop_step d c (ctl, s) = (ctl', s')"
  shows "effects d x (outside_of s')"
proof (cases ctl)
  case Checking
  obtain r s1 where r: "loopStop d c s = (r, s1)" by fastforce
  have 1: "effects d x (outside_of (tick (tick s)))" using assms(1) by (simp add: effects_tick)
  from 1 effects_reconcilePending [OF 1] assms(2) Checking r loopStop_tick [OF r] show ?thesis
    by (auto split: option.splits prod.splits if_splits)
next
  case Waiting
  with assms effects_take_case [OF effects_tick [OF assms(1)]] effects_tick [OF assms(1)] show ?thesis
    by (auto split: list.splits)
next
  case (Returned e b)
  with assms show ?thesis by simp
qed

lemma effects_loop:
  assumes "loop d c e fuel p = Some (r, p')"
  shows "effects d (outside_of p) (outside_of p')"
proof -
  let ?x = "outside_of p"
  have new: "outside_of (newLoopState d e p) = outside_of p"
    by (simp add: newLoopState_def Let_def outside_of_def process.defs split: option.splits)
  have "effects d ?x (outside_of (newLoopState d e p))" by (simp add: new no_effect)
  from effects_startStream [OF this] effects_disconnect [OF effects_startStream [OF this]]
  have start: "effects d ?x (outside_of (loop_start d c e p))" by (simp add: loop_start_def Let_def)
  have steps: "effects d ?x (outside_of (snd ((loop_step d c ^^ k) (Checking, loop_start d c e p))))" for k
  proof (induction k)
    case (Suc k)
    then show ?case
      by (cases "(loop_step d c ^^ k) (Checking, loop_start d c e p)")
        (simp, metis effects_loop_step prod.collapse snd_conv)
  qed (simp add: start)
  obtain captured e' s where s: "(loop_step d c ^^ fuel) (Checking, loop_start d c e p) = (Returned e' captured, s)"
    "p' = process.truncate (close d s)"
    using assms by (auto simp: loop_def split: prod.splits control.splits)
  have "effects d ?x (outside_of (close d s))"
    using effects_cancel [OF steps [of fuel]] s(1) by (simp add: close_def Let_def)
  moreover have "outside_of (process.truncate q) = outside_of q" for q :: loopState
    by (simp add: outside_of_def process.defs)
  ultimately show ?thesis using s(2) by simp
qed

end
