(* ===== verification/Daemon_Stop.thy ===== *)
theory Daemon_Stop
  imports Daemon_Effects
begin

text \<open>
  How the loop ends: every step takes time, a stop request ends the loop within two steps, only a stop
  request ends it, the result tells which request it was, and no stream is left open.
\<close>

section \<open>The loop ends when it is asked to\<close>

lemma lasting_done: "lasting d c \<Longrightarrow> srv_Done (d_server d) None n \<Longrightarrow> n \<le> m \<Longrightarrow> srv_Done (d_server d) None m"
  unfolding lasting_def by blast

lemma lasting_ctx: "lasting d c \<Longrightarrow> c n \<noteq> None \<Longrightarrow> n \<le> m \<Longrightarrow> c m \<noteq> None"
  unfolding lasting_def by blast

lemma effects_instant: "effects d (outside_of s) (outside_of s') \<Longrightarrow> instant s \<le> instant s'"
  using effects_forward [of d "outside_of s" "outside_of s'"] by (simp add: outside_of_def instant_def)

fun returned :: "control \<Rightarrow> bool" where
  "returned (Returned e captured) = True"
| "returned _ = False"

lemma loop_step_instant:
  assumes "loop_step d c (ctl, s) = (ctl', s')" "\<not> returned ctl"
  shows "instant s < instant s'"
proof (cases ctl)
  case Checking
  obtain r s1 where r: "loopStop d c s = (r, s1)" by fastforce
  have "effects d (outside_of (tick (tick s))) (outside_of (reconcilePending d c (tick (tick s))))"
    by (rule effects_reconcilePending) (rule no_effect)
  from effects_instant [OF this] assms(1) Checking r loopStop_tick [OF r] show ?thesis
    by (auto split: option.splits prod.splits if_splits)
next
  case Waiting
  have "instant (tick s) \<le> instant s1" if "take_case d c k (tick s) = (ctl1, s1)" for k ctl1 s1
    using effects_instant effects_take_case [OF no_effect that] by blast
  with assms(1) Waiting show ?thesis by (auto split: list.splits) (metis Suc_le_lessD instant_simps(1))+
next
  case (Returned e b)
  with assms(2) show ?thesis by simp
qed

lemma returned_stays:
  "returned (fst x) \<Longrightarrow> (loop_step d c ^^ k) x = x"
proof (induction k)
  case (Suc k)
  then show ?case by (cases x; cases "fst x") auto
qed simp

lemma steps_clock:
  "returned (fst ((loop_step d c ^^ k) x)) \<or> instant (snd x) + k \<le> instant (snd ((loop_step d c ^^ k) x))"
proof (induction k)
  case (Suc k)
  obtain ctl s where y: "(loop_step d c ^^ k) x = (ctl, s)" by fastforce
  obtain ctl' s' where z: "loop_step d c (ctl, s) = (ctl', s')" by fastforce
  show ?case
  proof (cases "returned ctl")
    case True
    with y z show ?thesis by (cases ctl) auto
  next
    case False
    with loop_step_instant [OF z] y z Suc show ?thesis by simp
  qed
qed simp

lemma take_case_control: "fst (take_case d c k s) \<noteq> Waiting"
  by (cases k) (auto simp: take_case_def Let_def split: prod.splits bool.splits)

lemma step_stops:
  assumes "lasting d c" "stopped d c (instant s)"
  shows "returned (fst (loop_step d c (Checking, s)))"
    and "fst (loop_step d c (Waiting, s)) \<noteq> Waiting"
proof -
  have "c (Suc (instant s)) \<noteq> None" if "c (instant s) \<noteq> None"
    by (rule lasting_ctx [OF assms(1) that]) simp
  then show "returned (fst (loop_step d c (Checking, s)))"
    using assms(2) by (auto simp: loopStop_def stopped_def split: option.splits)
  have "ready_cases d c s \<noteq> []" using assms(2) by (auto simp: ready_cases_def stopped_def)
  then show "fst (loop_step d c (Waiting, s)) \<noteq> Waiting"
    using take_case_control by (simp split: list.splits)
qed

lemma loop_returns:
  assumes "lasting d c" "stopped d c N"
  shows "returned (fst ((loop_step d c ^^ (N + 2)) x))"
proof -
  let ?f = "loop_step d c"
  define y where "y = (?f ^^ N) x"
  have split: "(?f ^^ (N + 2)) x = ?f (?f y)"
    unfolding y_def by (metis Suc_1 add_2_eq_Suc' comp_apply funpow.simps(2))
  consider "returned (fst y)" | "\<not> returned (fst y)" "stopped d c (instant (snd y))"
    using steps_clock [of N d c x] stopped_mono [OF assms] unfolding y_def by (metis add_leE)
  then show ?thesis
  proof cases
    case 1
    then show ?thesis unfolding split using returned_stays [of y 2 d c] by (simp add: numeral_2_eq_2)
  next
    case 2
    obtain ctl s where y: "y = (ctl, s)" by fastforce
    obtain ctl' s' where z: "?f (ctl, s) = (ctl', s')" by fastforce
    have st: "stopped d c (instant s')"
      using loop_step_instant [OF z] 2 y stopped_mono [OF assms(1)] by (auto intro: less_imp_le)
    have "ctl' \<noteq> Waiting"
    proof (cases ctl)
      case Checking
      then show ?thesis using step_stops(1) [OF assms(1), of s] 2 y z by (cases ctl') (simp_all del: loop_step.simps)
    next
      case Waiting
      then show ?thesis using step_stops(2) [OF assms(1), of s] 2 y z by (simp del: loop_step.simps)
    qed (use 2 y in simp)
    then show ?thesis unfolding split y z
      using step_stops(1) [OF assms(1) st] by (cases ctl') auto
  qed
qed

lemma loop_terminates:
  assumes "lasting d c" "stopped d c N" "N + 2 \<le> fuel"
  shows "\<exists>r. loop d c e fuel p = Some r"
proof -
  let ?x = "(Checking, loop_start d c e p)"
  have "(loop_step d c ^^ fuel) ?x = (loop_step d c ^^ (fuel - (N + 2))) ((loop_step d c ^^ (N + 2)) ?x)"
    using assms(3) by (metis comp_apply funpow_add le_add_diff_inverse2)
  also have "\<dots> = (loop_step d c ^^ (N + 2)) ?x" by (rule returned_stays [OF loop_returns [OF assms(1,2)]])
  finally show ?thesis
    using loop_returns [OF assms(1,2), of ?x]
    by (cases "(loop_step d c ^^ (N + 2)) ?x"; cases "fst ((loop_step d c ^^ (N + 2)) ?x)")
      (simp_all add: loop_def del: add_2_eq_Suc')
qed

section \<open>Why the loop ended\<close>

definition stop_reason :: "Daemon \<Rightarrow> ctx \<Rightarrow> nat \<Rightarrow> err \<Rightarrow> bool \<Rightarrow> bool" where
  "stop_reason d c n e captured \<longleftrightarrow>
     (if captured then srv_Done (d_server d) None n \<and> e \<noteq> None else c n \<noteq> None \<and> e = None)"

lemma stop_reason_mono: "lasting d c \<Longrightarrow> stop_reason d c n e captured \<Longrightarrow> n \<le> m \<Longrightarrow> stop_reason d c m e captured"
  unfolding stop_reason_def lasting_def by (meson)

lemma loopStop_reason:
  assumes "lasting d c" "loopStop d c s = (Some (e, captured), s')"
  shows "stop_reason d c (instant s') e captured"
proof (cases "srv_Done (d_server d) None (instant s)")
  case True
  then have "srv_Done (d_server d) None (instant s')"
    using lasting_done [OF assms(1)] loopStop_tick [OF assms(2)] by auto
  with True assms(2) show ?thesis by (auto simp: loopStop_def stop_reason_def split: option.splits)
next
  case False
  with assms(2) have "c (Suc (instant s)) \<noteq> None" "e = None" "\<not> captured" by (auto simp: loopStop_def split: if_splits)
  moreover have "c (instant s') \<noteq> None"
    using lasting_ctx [OF assms(1) calculation(1)] loopStop_tick [OF assms(2)] by simp
  ultimately show ?thesis by (simp add: stop_reason_def)
qed

lemma take_case_reason:
  assumes "lasting d c" "k \<in> set (ready_cases d c s)" "take_case d c k (tick s) = (Returned e captured, s')"
  shows "stop_reason d c (instant s') e captured"
proof -
  have "k = OnStop \<or> k = OnServer"
    using assms(3) by (cases k) (auto simp: take_case_def Let_def split: prod.splits bool.splits)
  then have "stop_reason d c (instant s) e captured \<and> instant s \<le> instant s'"
    using assms(2,3)
    by (auto simp: take_case_def loopServerResult_def ready_cases_def stop_reason_def split: option.splits if_splits recv.splits) (metis recv.exhaust)+
  with stop_reason_mono [OF assms(1)] show ?thesis by blast
qed

lemma loop_step_reason:
  assumes "lasting d c" "loop_step d c (ctl, s) = (Returned e captured, s')" "\<not> returned ctl"
  shows "stop_reason d c (instant s') e captured"
proof (cases ctl)
  case Checking
  obtain r s1 where r: "loopStop d c s = (r, s1)" by fastforce
  with assms(2) Checking loopStop_reason [OF assms(1)] show ?thesis
    by (auto split: option.splits prod.splits if_splits)
next
  case Waiting
  show ?thesis
  proof (cases "ready_cases d c s")
    case Nil
    with assms(2) Waiting show ?thesis by simp
  next
    case (Cons k ks)
    let ?k = "ready_cases d c s ! (rt_pick (d_runtime d) (instant s) mod length (ready_cases d c s))"
    have "?k \<in> set (ready_cases d c s)" using Cons by (intro nth_mem) simp
    with take_case_reason [OF assms(1) this] assms(2) Waiting Cons show ?thesis by simp
  qed
qed (use assms(3) in simp)

lemma steps_reason:
  "lasting d c \<Longrightarrow> (loop_step d c ^^ k) (Checking, s0) = (Returned e captured, s) \<Longrightarrow>
     stop_reason d c (instant s) e captured"
proof (induction k arbitrary: s)
  case (Suc k)
  obtain ctl s1 where y: "(loop_step d c ^^ k) (Checking, s0) = (ctl, s1)" by fastforce
  show ?case
  proof (cases "returned ctl")
    case True
    with Suc y show ?thesis by (cases ctl) auto
  next
    case False
    with Suc.prems y loop_step_reason [of d c ctl s1] show ?thesis by simp
  qed
qed simp

lemma close_facts:
  "loop_inv d c s \<Longrightarrow> p_live (close d s) = []" "instant (close d s) = instant s"
proof -
  show "instant (close d s) = instant s" by (simp add: close_def Let_def)
  show "p_live (close d s) = []" if "loop_inv d c s"
    using that by (cases "streamCancel s") (simp_all add: close_def Let_def cancelStream_def inv_defs)
qed

lemma loop_result:
  assumes "loop d c e fuel p = Some ((r, captured), p')" "sane d c" "p_live p = []"
  shows "p_live p' = []" and "stop_reason d c (instant p') r captured"
proof -
  obtain s where s: "(loop_step d c ^^ fuel) (Checking, loop_start d c e p) = (Returned r captured, s)"
    "p' = process.truncate (close d s)"
    using assms(1) by (auto simp: loop_def split: prod.splits control.splits)
  have tr: "p_live (process.truncate q) = p_live q" "instant (process.truncate q) = instant q" for q :: loopState
    by (simp_all add: process.defs instant_def)
  have inv: "loop_inv d c s"
    using loop_states_inv(1) [OF assms(2,3)] reaches_funpow [of d c "(Checking, loop_start d c e p)" fuel] s(1) by metis
  show "p_live p' = []" using s(2) close_facts(1) [OF inv] by (simp add: tr)
  show "stop_reason d c (instant p') r captured"
    using steps_reason [OF _ s(1)] assms(2) s(2) by (simp add: tr close_facts(2) sane_def)
qed

end
