(* ===== verification/Daemon_Run.thy ===== *)
theory Daemon_Run
  imports Daemon_Stop
begin

text \<open>
  A whole run of the daemon: every run that returns does so through the clean-up, in a state that only the
  effects of a running daemon lead to; what the clean-up does; and that the run returns.
\<close>

section \<open>From start to clean-up\<close>

text \<open>The server was started by one of the calls.\<close>

definition server_started :: "Daemon \<Rightarrow> (call \<times> nat) list \<Rightarrow> bool" where
  "server_started d cs \<longleftrightarrow> (\<exists>n. (CallStart, n) \<in> set cs \<and> fst (srv_Start (d_server d) n) = None)"

text \<open>Where a run that has not been cleaned up yet stands.\<close>

definition running :: "Daemon \<Rightarrow> outside \<Rightarrow> process \<Rightarrow> bool" where
  "running d x p \<longleftrightarrow> effects d x (outside_of p) \<and> p_live p = []"

lemma running_track [simp]: "running d x (track f p) = running d x p"
  by (simp add: running_def) (simp add: track_def)

lemma running_logged [simp]: "running d x (logged y p) = running d x p"
  by (simp add: running_def) (simp add: logged_def)

lemma running_tick [intro]: "running d x p \<Longrightarrow> running d x (tick p)"
  by (auto simp: running_def intro: effects_tick) (simp add: tick_def)

lemma running_called [intro]:
  "running d x p \<Longrightarrow> k \<in> {CallPing, CallStart, CallSnapshot, CallEvents} \<Longrightarrow> running d x (called k n p)"
  using effects_called [of d x p k n] by (auto simp: running_def) (simp_all add: called_def)

lemma running_prepared:
  "running d x p \<Longrightarrow> st_Prepare (d_store d) c (p_world p) = (r, w) \<Longrightarrow> running d x (stored CallPrepare w p)"
  using effects_prepared [of d x p c r w] by (simp add: running_def) (simp add: stored_def)

lemma running_reconcile: "running d x p \<Longrightarrow> reconcile d c p = (e, p') \<Longrightarrow> running d x p'"
  using effects_reconcile [of d x p c e p'] reconcile_frame [of d c p e p'] by (simp add: running_def frame_def)

lemma running_not_stopping: "running d x p \<Longrightarrow> not_stopping c e p = (b, p') \<Longrightarrow> running d x p'"
  using effects_not_stopping [of d x p c e b p'] not_stopping_frame [of c e p b p'] by (simp add: running_def frame_def)

lemma running_loop:
  assumes "running d x p" "loop d c e fuel p = Some ((r, captured), p')" "sane d c"
  shows "running d x p'"
  using assms effects_trans [OF effects_loop [OF assms(2)], of x] loop_result(1) [OF assms(2,3)]
  by (simp add: running_def)

lemma p_calls_unchanged [simp]: "p_calls (tick p) = p_calls p" "p_calls (track f p) = p_calls p"
  by (simp_all add: tick_def track_def)

lemma startupStop_spec:
  assumes "startupStop d parent p = ((stop, captured, e), p')"
  shows "running d x p \<Longrightarrow> running d x p'" and "captured \<longrightarrow> e \<noteq> None"
    and "e \<noteq> None \<Longrightarrow> stop \<and> (\<exists>n. srv_Done (d_server d) None n)" and "e = None \<Longrightarrow> stop \<Longrightarrow> \<exists>n. parent n \<noteq> None"
    and "p_calls p' = p_calls p"
  using assms by (auto simp: startupStop_def Let_def split: if_splits option.splits)

text \<open>
  The run got past its start: the daemon has begun its first reconciliation.
\<close>

definition started_up :: "'a process_scheme \<Rightarrow> bool" where
  "started_up p \<longleftrightarrow> CallSnapshot \<in> fst ` set (p_calls p)"

lemma started_up_extends: "started_up p \<Longrightarrow> p_calls p' = p_calls p @ new \<Longrightarrow> started_up p'"
  by (auto simp: started_up_def)

lemma started_up_calls: "p_calls p' = p_calls p \<Longrightarrow> started_up p' = started_up p"
  by (simp add: started_up_def)

text \<open>
  How a run with a started server ends: in the clean-up, with nothing left open, with an error of the
  server that was captured or, before the first reconciliation, with the error of the preparation.
\<close>

definition ends_with :: "Daemon \<Rightarrow> ctx \<Rightarrow> nat \<Rightarrow> outside \<Rightarrow> bool \<Rightarrow> (err \<times> process) option \<Rightarrow> bool" where
  "ends_with d parent fuel x started z \<longleftrightarrow>
     (\<exists>e captured p. running d x p \<and> z = cleanup d fuel started e captured p \<and> (captured \<longrightarrow> e \<noteq> None) \<and>
       (e \<noteq> None \<longrightarrow> (\<exists>n. srv_Done (d_server d) None n) \<or> \<not> started_up p) \<and>
       (e = None \<longrightarrow> (\<exists>n. parent n \<noteq> None) \<or> started \<and> srv_Done (d_server d) None (instant p)))"

lemma ends_withI:
  "running d x p \<Longrightarrow> (captured \<longrightarrow> e \<noteq> None) \<Longrightarrow> (e \<noteq> None \<longrightarrow> (\<exists>n. srv_Done (d_server d) None n) \<or> \<not> started_up p) \<Longrightarrow>
     (e = None \<longrightarrow> (\<exists>n. parent n \<noteq> None) \<or> started \<and> srv_Done (d_server d) None (instant p)) \<Longrightarrow>
     ends_with d parent fuel x started (cleanup d fuel started e captured p)"
  unfolding ends_with_def by blast

lemma run_ctx_done:
  "lasting d (run_ctx d parent) \<Longrightarrow> run_ctx d parent n \<noteq> None \<Longrightarrow> n \<le> m \<Longrightarrow>
     (\<exists>n. parent n \<noteq> None) \<or> srv_Done (d_server d) None m"
  using lasting_done [of d "run_ctx d parent" n m] by (auto simp: run_ctx_def split: if_splits)

lemma not_stopping_done: "not_stopping c e p = (False, p') \<Longrightarrow> \<exists>n\<le>instant p'. c n \<noteq> None"
  by (auto simp: not_stopping_def split: if_splits intro!: exI [of _ "instant p"])

text \<open>The checks between the steps of the start.\<close>

lemma startupStop_ends:
  assumes "running d x p" "\<And>p'. running d x p' \<Longrightarrow> p_calls p' = p_calls p \<Longrightarrow> z p' = None \<or> ends_with d parent fuel x True (z p')"
  shows "(case startupStop d parent p of
      ((True, captured, runErr), p) \<Rightarrow> cleanup d fuel True runErr captured p
    | ((False, _, _), p) \<Rightarrow> z p) = None \<or>
    ends_with d parent fuel x True (case startupStop d parent p of
      ((True, captured, runErr), p) \<Rightarrow> cleanup d fuel True runErr captured p
    | ((False, _, _), p) \<Rightarrow> z p)"
proof -
  obtain stop captured e p' where s: "startupStop d parent p = ((stop, captured, e), p')" by (metis prod.exhaust)
  note sp = startupStop_spec [OF s]
  show ?thesis
  proof (cases stop)
    case True
    have "ends_with d parent fuel x True (cleanup d fuel True e captured p')"
      by (rule ends_withI) (use sp assms(1) True in auto)
    with True s show ?thesis by simp
  next
    case False
    with assms(2) [OF sp(1) [OF assms(1)] sp(5)] s show ?thesis by simp
  qed
qed

lemma run_loop_ends:
  assumes "running d x p" "sane d (run_ctx d parent)"
  shows "run_loop d parent fuel e p = None \<or> ends_with d parent fuel x True (run_loop d parent fuel e p)"
  unfolding run_loop_def
proof (rule startupStop_ends [OF assms(1)])
  fix p'
  assume r: "running d x p'"
  let ?c = "run_ctx d parent"
  show "(case loop d ?c e fuel p' of None \<Rightarrow> None | Some ((runErr, captured), p) \<Rightarrow> cleanup d fuel True runErr captured p) = None \<or>
    ends_with d parent fuel x True (case loop d ?c e fuel p' of None \<Rightarrow> None | Some ((runErr, captured), p) \<Rightarrow> cleanup d fuel True runErr captured p)"
  proof (cases "loop d ?c e fuel p'")
    case (Some z)
    obtain e' captured q where z: "z = ((e', captured), q)" by (metis prod.exhaust)
    have l: "p_live p' = []" using r by (simp add: running_def)
    have sr: "stop_reason d ?c (instant q) e' captured" using loop_result(2) [OF Some [unfolded z] assms(2) l] .
    have "running d x q" using running_loop [OF r Some [unfolded z] assms(2)] .
    then have "ends_with d parent fuel x True (cleanup d fuel True e' captured q)"
      by (rule ends_withI) (use sr run_ctx_done [of d parent "instant q" "instant q"] assms(2) in
        \<open>auto simp: stop_reason_def sane_def split: if_splits\<close>)
    with Some z show ?thesis by simp
  qed simp
qed

lemma running_announce: "running d x p \<Longrightarrow> running d x (announce d parent e p)"
  by (cases e) (auto simp: announce_def Let_def)

lemma run_reconciled_ends:
  assumes "running d x p" "sane d (run_ctx d parent)"
  shows "run_reconciled d parent fuel e p = None \<or> ends_with d parent fuel x True (run_reconciled d parent fuel e p)"
  unfolding run_reconciled_def
  by (rule startupStop_ends [OF assms(1)]) (rule run_loop_ends, rule running_announce, assumption, rule assms(2))

lemma run_prepared_ends:
  assumes "running d x p" "sane d (run_ctx d parent)"
  shows "run_prepared d parent fuel p = None \<or> ends_with d parent fuel x True (run_prepared d parent fuel p)"
  unfolding run_prepared_def
proof (rule startupStop_ends [OF assms(1)])
  fix p'
  assume r: "running d x p'"
  obtain e q where re: "reconcile d (run_ctx d parent) p' = (e, q)" by fastforce
  from run_reconciled_ends [OF running_reconcile [OF r re] assms(2)] re
  show "(case reconcile d (run_ctx d parent) p' of (e, p) \<Rightarrow> run_reconciled d parent fuel e p) = None \<or>
    ends_with d parent fuel x True (case reconcile d (run_ctx d parent) p' of (e, p) \<Rightarrow> run_reconciled d parent fuel e p)"
    by simp
qed

lemma run_prepare_ends:
  assumes "running d x p" "sane d (run_ctx d parent)" "\<not> started_up p"
  shows "run_prepare d parent fuel p = None \<or> ends_with d parent fuel x True (run_prepare d parent fuel p)"
proof -
  obtain r1 e w where pr: "st_Prepare (d_store d) (run_ctx d parent) (p_world p) = ((r1, e), w)" by (metis prod.exhaust)
  let ?p = "stored CallPrepare w p"
  have rp: "running d x ?p" by (rule running_prepared [OF assms(1) pr])
  show ?thesis
  proof (cases e)
    case None
    with pr run_prepared_ends [of d x _ parent fuel, OF _ assms(2)] rp show ?thesis
      by (simp add: run_prepare_def Let_def)
  next
    case (Some y)
    obtain b q where n: "not_stopping (run_ctx d parent) y (tick ?p) = (b, q)" by fastforce
    have rq: "running d x q" by (rule running_not_stopping [OF running_tick [OF rp] n])
    have "p_calls q = p_calls p @ [(CallPrepare, instant p)]"
      using n by (auto simp: not_stopping_def tick_def stored_def split: if_splits)
    then have ns: "\<not> started_up q" using assms(3) by (simp add: started_up_def)
    have "parent (instant ?p) \<noteq> None \<Longrightarrow> ends_with d parent fuel x True (cleanup d fuel True None False (tick ?p))"
      by (rule ends_withI) (use rp in auto)
    moreover have "ends_with d parent fuel x True (cleanup d fuel True None False q)" if "\<not> b"
    proof (rule ends_withI)
      from not_stopping_done [of "run_ctx d parent" y "tick ?p" q] n that obtain k where "k \<le> instant q" "run_ctx d parent k \<noteq> None" by auto
      with run_ctx_done [of d parent k "instant q"] assms(2)
      show "None = None \<longrightarrow> (\<exists>n. parent n \<noteq> None) \<or> True \<and> srv_Done (d_server d) None (instant q)"
        by (simp add: sane_def)
    qed (use rq in simp_all)
    moreover have "ends_with d parent fuel x True (cleanup d fuel True (Some (wrap ''prepare hosts store: '' y)) False
        (track (Fail (now_of d q) ConcernRecovery (error_text d y)) q))"
      by (rule ends_withI) (use rq ns in \<open>simp_all add: started_up_def\<close>)
    ultimately show ?thesis using pr Some n by (simp add: run_prepare_def Let_def split: bool.splits)
  qed
qed

lemma run_started_ends:
  assumes "running d x p" "sane d (run_ctx d parent)" "\<not> started_up p"
  shows "run_started d parent fuel p = None \<or> ends_with d parent fuel x True (run_started d parent fuel p)"
  unfolding run_started_def
  by (rule startupStop_ends [OF assms(1)], rule run_prepare_ends, assumption, rule assms(2)) (simp add: started_up_calls assms(3))

text \<open>
  Every run that returns does so through the clean-up, which knows whether the server was started.
\<close>

lemma Run_ends:
  assumes "Run d parent fuel p = Some (r, p')" "sane d (run_ctx d parent)" "p_live p = []" "p_calls p = []"
  obtains e captured q where "running d (outside_of p) q"
    "cleanup d fuel (server_started d (p_calls q)) e captured q = Some (r, p')"
    "captured \<longrightarrow> e \<noteq> None" "e \<noteq> None \<longrightarrow> (\<exists>n. srv_Done (d_server d) None n) \<or> \<not> started_up q"
    "e = None \<longrightarrow> (\<exists>n. parent n \<noteq> None) \<or> server_started d (p_calls q) \<and> srv_Done (d_server d) None (instant q)"
proof -
  let ?x = "outside_of p"
  have r0: "running d ?x p" using assms(3) by (simp add: running_def no_effect)
  let ?p1 = "tick p"
  obtain pe n where ping: "src_Ping (d_source d) (WithTimeout d (run_ctx d parent) (dockerOperationTimeout (d_timing d)) (instant ?p1)) (instant ?p1) = (pe, n)"
    by fastforce
  let ?p2 = "called CallPing n ?p1"
  let ?p3 = "track BeginInitialization (tick ?p2)"
  obtain se m where start: "srv_Start (d_server d) (instant ?p3) = (se, m)" by fastforce
  let ?p4 = "called CallStart m ?p3"
  have r: "running d ?x ?p1" "running d ?x (tick ?p2)" "running d ?x ?p4" "running d ?x (tick ?p4)"
    using r0 by (auto intro!: running_tick running_called)
  have cs: "p_calls ?p1 = []" "p_calls (tick ?p2) = [(CallPing, instant ?p1)]"
    "p_calls ?p4 = [(CallPing, instant ?p1), (CallStart, instant ?p3)]" "p_calls (tick ?p4) = p_calls ?p4"
    using assms(4) by (simp_all add: tick_def called_def track_def)
  consider (early) e where "cleanup d fuel False e False ?p1 = Some (r, p')" "e = None" "\<exists>n. parent n \<noteq> None"
    | (pinged) e where "cleanup d fuel False e False (tick ?p2) = Some (r, p')" "e = None \<Longrightarrow> \<exists>n. parent n \<noteq> None"
    | (refused) e where "cleanup d fuel False e False (tick ?p4) = Some (r, p')" "se \<noteq> None" "e = None \<Longrightarrow> \<exists>n. parent n \<noteq> None"
    | (started) "run_started d parent fuel ?p4 = Some (r, p')" "se = None"
  proof (cases "parent (instant p) = None")
    case False
    with assms(1) that(1) show ?thesis by (auto simp: Run_def)
  next
    case alive: True
    show ?thesis
    proof (cases pe)
      case (Some y)
      with assms(1) alive Some ping that(2) show ?thesis by (auto simp: Run_def Let_def split: if_splits)
    next
      case None
      show ?thesis
      proof (cases "parent (instant ?p2) = None")
        case False
        with assms(1) alive None ping that(2) [of None] show ?thesis by (auto simp: Run_def Let_def)
      next
        case True
        show ?thesis
        proof (cases se)
          case (Some y)
          with assms(1) alive None True ping start Some that(3) show ?thesis by (auto simp: Run_def Let_def split: if_splits)
        next
          case se: None
          with assms(1) alive None True ping start that(4) show ?thesis by (simp add: Run_def Let_def)
        qed
      qed
    qed
  qed
  then show ?thesis
  proof cases
    case early
    with that [OF r(1)] cs show ?thesis by (simp add: server_started_def)
  next
    case pinged
    with that [OF r(2)] cs show ?thesis by (simp add: server_started_def started_up_def)
  next
    case refused
    with that [OF r(4), of e False] cs start show ?thesis by (auto simp: server_started_def started_up_def)
  next
    case started
    have "running d (outside_of ?p4) ?p4" using r(3) by (simp add: running_def no_effect)
    moreover have "\<not> started_up ?p4" using cs(3) by (simp add: started_up_def)
    ultimately have "run_started d parent fuel ?p4 = None \<or> ends_with d parent fuel (outside_of ?p4) True (run_started d parent fuel ?p4)"
      by (rule run_started_ends [OF _ assms(2)])
    with started(1)
    have "ends_with d parent fuel (outside_of ?p4) True (Some (r, p'))" by simp
    then obtain e captured q where q: "running d (outside_of ?p4) q" "Some (r, p') = cleanup d fuel True e captured q"
      "captured \<longrightarrow> e \<noteq> None" "e \<noteq> None \<longrightarrow> (\<exists>n. srv_Done (d_server d) None n) \<or> \<not> started_up q"
      "e = None \<longrightarrow> (\<exists>n. parent n \<noteq> None) \<or> True \<and> srv_Done (d_server d) None (instant q)"
      unfolding ends_with_def by blast
    have rq: "running d ?x q" using q(1) r(3) by (auto simp: running_def intro: effects_trans)
    obtain new where "p_calls q = p_calls ?p4 @ new"
      using effects_forward [of d "outside_of ?p4" "outside_of q"] q(1) by (auto simp: running_def outside_of_def)
    then have ss: "server_started d (p_calls q)" using cs(3) start started(2) by (auto simp: server_started_def)
    show ?thesis
    proof (rule that)
      show "cleanup d fuel (server_started d (p_calls q)) e captured q = Some (r, p')" using q(2) ss by simp
      show "e \<noteq> None \<longrightarrow> (\<exists>n. srv_Done (d_server d) None n) \<or> \<not> started_up q" using q(4) .
      show "e = None \<longrightarrow> (\<exists>n. parent n \<noteq> None) \<or> server_started d (p_calls q) \<and> srv_Done (d_server d) None (instant q)"
        using q(5) ss by blast
    qed (use rq q(3) in blast)+
  qed
qed

section \<open>The clean-up\<close>

lemma closeSource_spec:
  "closeSource d p = (e, p') \<Longrightarrow> p_calls p' = p_calls p @ [(CallClose, instant p)] \<and> p_live p' = p_live p \<and>
     w_fs (p_world p') = w_fs (p_world p) \<and> w_trace (p_world p') = w_trace (p_world p) \<and> instant p < instant p' \<and>
     (e = None \<longleftrightarrow> fst (src_Close (d_source d) (instant p)) = None)"
  by (auto simp: closeSource_def called_def later_def instant_def split: prod.splits)

lemma shutdownServer_spec:
  assumes "shutdownServer d fuel captured p = Some (t, se, p')"
  shows "p_calls p' = p_calls p @ [(CallShutdown, Suc (instant p))] \<and> p_live p' = p_live p \<and>
      w_fs (p_world p') = w_fs (p_world p) \<and> w_trace (p_world p') = w_trace (p_world p) \<and> instant p < instant p'"
    and "\<not> captured \<Longrightarrow> srv_Done (d_server d) None (instant p) \<Longrightarrow> t \<noteq> None"
    and "(\<And>n. fst (srv_Shutdown (d_server d) (WithTimeout d (\<lambda>_. None) (shutdownTimeout (d_timing d)) n) n) = None) \<Longrightarrow> se = None"
    and "(\<And>n. \<not> srv_Done (d_server d) None n) \<Longrightarrow> (\<And>k n. srv_Err (d_server d) (Some k) n = None) \<Longrightarrow> t = None"
proof -
  let ?k = "Suc (instant p)"
  let ?c = "WithTimeout d (\<lambda>_. None) (shutdownTimeout (d_timing d)) ?k"
  obtain e n where sd: "srv_Shutdown (d_server d) ?c ?k = (e, n)" by fastforce
  let ?q = "called CallShutdown n (tick p)"
  from assms sd obtain m where m: "await fuel (srv_Done (d_server d) (Some ?k)) (instant ?q) = Some m"
    by (auto simp: shutdownServer_def Let_def split: option.splits)
  from assms sd m have p': "p' = tick (?q\<lparr>p_world := later m (p_world ?q)\<rparr>)"
    and se: "se = map_option (wrap ''shut down health server: '') e"
    and t: "t = (if \<not> captured
      then (case srv_Err (d_server d) (Some ?k) (instant (?q\<lparr>p_world := later m (p_world ?q)\<rparr>)) of
              Some e \<Rightarrow> Some (wrap ''health server stopped: '' e)
            | None \<Rightarrow> if srv_Done (d_server d) None (instant p) then Some (Sentinel ErrHealthServerStopped) else None)
      else None)"
    by (auto simp: shutdownServer_def Let_def)
  show "p_calls p' = p_calls p @ [(CallShutdown, Suc (instant p))] \<and> p_live p' = p_live p \<and>
      w_fs (p_world p') = w_fs (p_world p) \<and> w_trace (p_world p') = w_trace (p_world p) \<and> instant p < instant p'"
    by (simp add: p' tick_def called_def later_def instant_def)
  show "\<not> captured \<Longrightarrow> srv_Done (d_server d) None (instant p) \<Longrightarrow> t \<noteq> None"
    unfolding t by (simp split: option.splits)
  show "(\<And>n. fst (srv_Shutdown (d_server d) (WithTimeout d (\<lambda>_. None) (shutdownTimeout (d_timing d)) n) n) = None) \<Longrightarrow> se = None"
    using sd se by (metis fst_conv option.map_disc_iff)
  show "(\<And>n. \<not> srv_Done (d_server d) None n) \<Longrightarrow> (\<And>k n. srv_Err (d_server d) (Some k) n = None) \<Longrightarrow> t = None"
    unfolding t by simp
qed

lemma cleanup_cases:
  assumes "cleanup d fuel started e captured p = Some (r, p')"
  obtains t se q ce where "closeSource d q = (ce, p')" "r = errors_Join [e, t, se, ce]"
    "if started then shutdownServer d fuel captured p = Some (t, se, q) else t = None \<and> se = None \<and> q = p"
proof -
  obtain t se q where s: "(if started then shutdownServer d fuel captured p else Some (None, None, p)) = Some (t, se, q)"
    using assms by (auto simp: cleanup_def split: option.splits)
  obtain ce p1 where c: "closeSource d q = (ce, p1)" by fastforce
  show ?thesis
    by (rule that [of q ce t se]) (use assms s c in \<open>auto simp: cleanup_def split: if_splits\<close>)
qed

lemma cleanup_spec:
  assumes "cleanup d fuel started e captured p = Some (r, p')"
  shows "\<exists>n. p_calls p' = p_calls p @ (if started then [(CallShutdown, Suc (instant p))] else []) @ [(CallClose, n)]"
    and "p_live p' = p_live p \<and> w_fs (p_world p') = w_fs (p_world p) \<and> w_trace (p_world p') = w_trace (p_world p) \<and>
      instant p < instant p'"
    and "e \<noteq> None \<or> started \<and> \<not> captured \<and> srv_Done (d_server d) None (instant p) \<Longrightarrow> r \<noteq> None"
proof -
  from assms obtain t se q ce where c: "closeSource d q = (ce, p')" and r: "r = errors_Join [e, t, se, ce]"
    and s: "if started then shutdownServer d fuel captured p = Some (t, se, q) else t = None \<and> se = None \<and> q = p"
    by (rule cleanup_cases)
  note cs = closeSource_spec [OF c]
  show "\<exists>n. p_calls p' = p_calls p @ (if started then [(CallShutdown, Suc (instant p))] else []) @ [(CallClose, n)]"
    using cs s shutdownServer_spec(1) [of d fuel captured p t se q] by (auto split: if_splits)
  show "p_live p' = p_live p \<and> w_fs (p_world p') = w_fs (p_world p) \<and> w_trace (p_world p') = w_trace (p_world p) \<and>
      instant p < instant p'"
    using cs s shutdownServer_spec(1) [of d fuel captured p t se q] by (auto split: if_splits)
  show "r \<noteq> None" if "e \<noteq> None \<or> started \<and> \<not> captured \<and> srv_Done (d_server d) None (instant p)"
    using that r s shutdownServer_spec(2) [of d fuel captured p t se q] by (auto split: if_splits)
qed

text \<open>With a server that stays up and stops cleanly, the clean-up adds no error.\<close>

lemma cleanup_quiet:
  assumes "cleanup d fuel started None captured p = Some (r, p')"
    and "\<And>n. fst (src_Close (d_source d) n) = None"
    and "\<And>n. fst (srv_Shutdown (d_server d) (WithTimeout d (\<lambda>_. None) (shutdownTimeout (d_timing d)) n) n) = None"
    and "\<And>n. \<not> srv_Done (d_server d) None n" "\<And>k n. srv_Err (d_server d) (Some k) n = None"
  shows "r = None"
proof -
  from assms(1) obtain t se q ce where c: "closeSource d q = (ce, p')" and r: "r = errors_Join [None, t, se, ce]"
    and s: "if started then shutdownServer d fuel captured p = Some (t, se, q) else t = None \<and> se = None \<and> q = p"
    by (rule cleanup_cases)
  have "ce = None" using closeSource_spec [OF c] assms(2) by simp
  moreover have "t = None \<and> se = None"
    using s shutdownServer_spec(3,4) [of d fuel captured p t se q] assms(3-5) by (auto split: if_splits)
  ultimately show ?thesis using r by simp
qed

text \<open>A run that has begun its first reconciliation has started up, and stays so.\<close>

lemma cleanup_started_up:
  "cleanup d fuel started e captured p = Some (r, p') \<Longrightarrow> started_up p' = started_up p"
  using cleanup_spec(1) [of d fuel started e captured p r p'] by (auto simp: started_up_def split: if_splits)

lemma reconcile_started_up: "reconcile d c p = (e, p') \<Longrightarrow> started_up p'"
  by (auto simp: reconcile_def Let_def started_up_def called_def stored_def track_def not_stopping_def tick_def
      split: sum.splits prod.splits option.splits if_splits)

lemma run_reconciled_started_up:
  assumes "run_reconciled d parent fuel e p = Some (r, p')" "sane d (run_ctx d parent)" "p_live p = []" "started_up p"
  shows "started_up p'"
proof -
  have "running d (outside_of p) p" using assms(3) by (simp add: running_def no_effect)
  from run_reconciled_ends [OF this assms(2), of fuel e] assms(1)
  obtain e' captured q where q: "running d (outside_of p) q" "Some (r, p') = cleanup d fuel True e' captured q"
    by (auto simp: ends_with_def)
  obtain new where "p_calls q = p_calls p @ new"
    using effects_forward [of d "outside_of p" "outside_of q"] q(1) by (auto simp: running_def outside_of_def)
  with started_up_extends assms(4) have "started_up q" by blast
  with cleanup_started_up [OF q(2) [symmetric]] show ?thesis by simp
qed

section \<open>The run ends\<close>

lemma await_Some:
  "(\<And>m. M \<le> m \<Longrightarrow> P m) \<Longrightarrow> M \<le> n + fuel \<Longrightarrow> \<exists>m. await fuel P n = Some m"
proof (induction fuel arbitrary: n)
  case (Suc fuel)
  then show ?case using Suc.IH [of "Suc n"] by auto
qed simp

lemma cleanup_terminates:
  assumes "\<And>k m. k + B \<le> m \<Longrightarrow> srv_Done (d_server d) (Some k) m" "B \<le> fuel"
  shows "\<exists>z. cleanup d fuel started e captured p = Some z"
proof (cases started)
  case True
  let ?k = "Suc (instant p)"
  obtain se n where sd: "srv_Shutdown (d_server d) (WithTimeout d (\<lambda>_. None) (shutdownTimeout (d_timing d)) ?k) ?k = (se, n)"
    by fastforce
  have "?k + B \<le> instant (called CallShutdown n (tick p)) + fuel" using assms(2) by simp
  from await_Some [OF _ this, of "srv_Done (d_server d) (Some ?k)"] assms(1)
  obtain m where "await fuel (srv_Done (d_server d) (Some ?k)) (instant (called CallShutdown n (tick p))) = Some m" by blast
  with True sd show ?thesis by (auto simp: cleanup_def shutdownServer_def Let_def split: prod.splits)
next
  case False
  then show ?thesis by (simp add: cleanup_def split: prod.splits)
qed

lemma startupStop_terminates:
  assumes "\<And>e captured p. \<exists>z. cleanup d fuel True e captured p = Some z" "\<And>p. \<exists>z. f p = Some z"
  shows "\<exists>z. (case startupStop d parent p of
      ((True, captured, runErr), p) \<Rightarrow> cleanup d fuel True runErr captured p
    | ((False, _, _), p) \<Rightarrow> f p) = Some z"
  using assms by (auto split: prod.splits bool.splits)

lemma Run_terminates_lemma:
  assumes down: "\<And>k m. k + B \<le> m \<Longrightarrow> srv_Done (d_server d) (Some k) m" and fuel: "B \<le> fuel" "N + 2 \<le> fuel"
    and last: "lasting d (run_ctx d parent)" and st: "stopped d (run_ctx d parent) N"
  shows "\<exists>z. Run d parent fuel p = Some z"
proof -
  let ?c = "run_ctx d parent"
  note cl = cleanup_terminates [OF down fuel(1)]
  have lp: "\<exists>z. run_loop d parent fuel e p = Some z" for e p
    unfolding run_loop_def
  proof (rule startupStop_terminates [OF cl])
    fix p
    obtain r captured q where "loop d ?c e fuel p = Some ((r, captured), q)"
      using loop_terminates [OF last st fuel(2), of e p] by (metis prod.exhaust)
    then show "\<exists>z. (case loop d ?c e fuel p of None \<Rightarrow> None
        | Some ((runErr, captured), p) \<Rightarrow> cleanup d fuel True runErr captured p) = Some z"
      using cl by simp
  qed
  have "\<exists>z. run_reconciled d parent fuel e p = Some z" for e p
    unfolding run_reconciled_def by (rule startupStop_terminates [OF cl lp])
  then have "\<exists>z. run_prepared d parent fuel p = Some z" for p
    unfolding run_prepared_def by (intro startupStop_terminates [OF cl]) (auto split: prod.splits)
  then have "\<exists>z. run_prepare d parent fuel p = Some z" for p
    using cl by (auto simp: run_prepare_def Let_def split: prod.splits option.splits bool.splits)
  then have "\<exists>z. run_started d parent fuel p = Some z" for p
    unfolding run_started_def by (intro startupStop_terminates [OF cl])
  then show ?thesis
    using cl by (auto simp: Run_def Let_def split: prod.splits option.splits)
qed

end
