(* ===== verification/Daemon_Debounce.thy ===== *)
theory Daemon_Debounce
  imports Daemon_Stop
begin

text \<open>
  The debounce of events: until a reconciliation takes a snapshot or is pending, no operation of the loop
  moves the hard deadline of a waiting event.
\<close>

section \<open>Debounced events are not starved\<close>

text \<open>
  What an operation other than a reconciliation does to the debounce timers: once an event is waiting the
  hard deadline stays as it is.
\<close>

definition kept :: "loopState \<Rightarrow> loopState \<Rightarrow> bool" where
  "kept s s' \<longleftrightarrow> pending s' = pending s \<and>
     (debounceTimer s \<noteq> None \<longrightarrow> debounceTimer s' \<noteq> None \<and> maximumTimer s' = maximumTimer s)"

lemma kept_refl [simp]: "kept s s"
  by (simp add: kept_def)

lemma kept_trans: "kept s s' \<Longrightarrow> kept s' s'' \<Longrightarrow> kept s s''"
  by (auto simp: kept_def)

lemma frame_kept: "frame s s' \<Longrightarrow> kept s s'"
  by (simp add: kept_def loop_fields)

lemma kept_other [simp]:
  "kept s (x\<lparr>periodicTimer := t\<rparr>) = kept s x" "kept s (x\<lparr>retryTimer := t\<rparr>) = kept s x"
  "kept s (x\<lparr>reconnectTimer := t\<rparr>) = kept s x" "kept s (x\<lparr>stabilityTimer := t\<rparr>) = kept s x"
  "kept s (x\<lparr>retryDelay := i\<rparr>) = kept s x" "kept s (x\<lparr>reconnectDelay := i\<rparr>) = kept s x"
  "kept s (x\<lparr>lastReconcileFailure := m\<rparr>) = kept s x" "kept s (x\<lparr>lastStreamFailure := m\<rparr>) = kept s x"
  "kept s (x\<lparr>events := ev\<rparr>) = kept s x" "kept s (x\<lparr>eventErrors := er\<rparr>) = kept s x"
  "kept s (x\<lparr>streamCancel := k\<rparr>) = kept s x" "kept s (x\<lparr>p_live := l\<rparr>) = kept s x"
  "kept s (track f x) = kept s x" "kept s (logged y x) = kept s x" "kept s (called k' n x) = kept s x"
  "kept s (tick x) = kept s x"
  by (simp_all add: kept_def)

lemma kept_cancel [simp]: "kept s (cancelStream x) = kept s x"
  by (cases "streamCancel x") (simp_all add: cancelStream_def kept_def)

lemma kept_stopReady: "kept s x \<Longrightarrow> stopReady d c x = (b, x') \<Longrightarrow> kept s x'"
  by (blast intro: kept_trans frame_kept stopReady_spec(1))

lemma kept_streamError: "kept s x \<Longrightarrow> streamErrorReady x = (r, x') \<Longrightarrow> kept s x'"
  by (blast intro: kept_trans frame_kept streamErrorReady_frame)

lemma kept_disconnect: "kept s x \<Longrightarrow> kept s (disconnectStream d c e x)"
proof -
  assume "kept s x"
  then have 1: "kept s ((cancelStream x)\<lparr>events := None, eventErrors := None, stabilityTimer := None\<rparr>)" by simp
  obtain b x1 where st: "stopReady d c ((cancelStream x)\<lparr>events := None, eventErrors := None, stabilityTimer := None\<rparr>) = (b, x1)"
    by fastforce
  from kept_stopReady [OF 1 st] st show ?thesis by (cases b) (simp_all add: disconnectStream_def Let_def)
qed

lemma kept_recover: "kept s x \<Longrightarrow> kept s (recoverStream d c ev x)"
  by (simp add: kept_def recoverStream_debounce)

lemma kept_observe: "kept s x \<Longrightarrow> kept s (observeEvent d c x)"
proof -
  assume 1: "kept s x"
  obtain b x1 where st: "stopReady d c x = (b, x1)" by fastforce
  note 2 = kept_stopReady [OF 1 st]
  have "kept s (y\<lparr>debounceTimer := Some t\<rparr>)" if "kept s y" for y t using that by (simp add: kept_def)
  moreover have "kept s (y\<lparr>maximumTimer := t, debounceTimer := Some t'\<rparr>)" if "kept s y" "debounceTimer y = None" for y t t'
    using that by (simp add: kept_def)
  ultimately show ?thesis
    using 2 kept_recover [OF 2, of d c "''event''"] st by (cases b) (auto simp: observeEvent_def Let_def)
qed

lemma kept_startStream: "kept s x \<Longrightarrow> kept s (startStream d c x)"
proof -
  assume 1: "kept s x"
  obtain b s1 where st: "stopReady d c x = (b, s1)" by fastforce
  note 2 = kept_stopReady [OF 1 st]
  show ?thesis
  proof (cases b)
    case True
    with 2 st show ?thesis by (simp add: startStream_def)
  next
    case False
    let ?s = "(cancelStream s1)\<lparr>streamCancel := Some (instant s1), p_live := instant s1 # p_live (cancelStream s1)\<rparr>"
    obtain evs errs n where ev: "src_Events (d_source d) c (dc_Networks (d_config d)) (instant s1) = ((evs, errs), n)"
      by (metis prod.exhaust)
    let ?t = "called CallEvents n (?s\<lparr>events := evs, eventErrors := errs\<rparr>)"
    obtain b2 s2 where st2: "stopReady d c ?t = (b2, s2)" by fastforce
    have "kept s s2" by (rule kept_stopReady [OF _ st2]) (use 2 in simp)
    with False st ev st2 show ?thesis by (cases b2) (simp_all add: startStream_def Let_def)
  qed
qed

lemma kept_handleEvent: "kept s x \<Longrightarrow> kept s (handleEvent d c ok x)"
proof -
  assume 1: "kept s x"
  obtain r x1 where r: "streamErrorReady x = (r, x1)" by fastforce
  from kept_disconnect [OF kept_streamError [OF 1 r]] kept_observe [OF 1] r show ?thesis
    by (simp add: handleEvent_def split: prod.splits)
qed

lemma kept_handleStability: "kept s x \<Longrightarrow> kept s (handleStability d c x)"
proof -
  assume "kept s x"
  then have 1: "kept s (x\<lparr>stabilityTimer := None\<rparr>)" by simp
  obtain b s1 where st: "stopReady d c (x\<lparr>stabilityTimer := None\<rparr>) = (b, s1)" by fastforce
  obtain e r s2 where er: "streamErrorReady s1 = ((e, r), s2)" by (metis prod.exhaust)
  obtain e' r' s4 where er': "streamErrorReady (tick s2) = ((e', r'), s4)" by (metis prod.exhaust)
  note 2 = kept_stopReady [OF 1 st]
  note 3 = kept_streamError [OF 2 er]
  have 4: "kept s (tick s2)" using 3 by simp
  note 5 = kept_streamError [OF 4 er']
  show ?thesis
    using 2 kept_disconnect [OF 3] kept_disconnect [OF 5] kept_observe [OF 4] kept_recover [OF 4]
    by (simp add: handleStability_def Let_def st er er' split: bool.splits option.splits recv.splits)
qed

lemma take_case_kept:
  assumes "take_case d c k s = (ctl, s')"
  shows "pending s' \<or> kept s s'"
proof (cases k)
  case OnReconnect
  obtain b s1 where st: "stopReady d c (s\<lparr>reconnectTimer := None\<rparr>) = (b, s1)" by fastforce
  have 1: "kept s s1" by (rule kept_stopReady [OF _ st]) simp
  note 2 = kept_startStream [OF 1]
  from assms OnReconnect st 1 2 kept_disconnect [OF 2] show ?thesis
    by (cases b) (auto simp: take_case_def Let_def)
next
  case (OnEvent ok)
  with assms kept_handleEvent [OF kept_refl] show ?thesis by (auto simp: take_case_def)
next
  case (OnStreamError e ok)
  with assms kept_disconnect [OF kept_refl] show ?thesis by (auto simp: take_case_def handleStreamError_def split: if_splits)
next
  case OnStability
  with assms kept_handleStability [OF kept_refl] show ?thesis by (auto simp: take_case_def)
qed (use assms in \<open>auto simp: take_case_def loopServerResult_def split: option.splits\<close>)

text \<open>The reconciliations so far, by the snapshots they took.\<close>

definition snapshots :: "'a process_scheme \<Rightarrow> nat" where
  "snapshots p = length (filter (\<lambda>k. fst k = CallSnapshot) (p_calls p))"

lemma effects_snapshots: "effects d (outside_of s) (outside_of s') \<Longrightarrow> snapshots s \<le> snapshots s'"
  using effects_forward [of d "outside_of s" "outside_of s'"] by (auto simp: outside_of_def snapshots_def)

lemma reconcile_takes_snapshot:
  assumes "reconcile d c p = (e, p')"
  shows "snapshots p < snapshots p'"
proof -
  obtain r n where snap: "src_Snapshot (d_source d) (WithTimeout d c (dockerOperationTimeout (d_timing d)) (instant p))
      (dc_Networks (d_config d)) (instant p) = (r, n)"
    by fastforce
  have q: "snapshots (called CallSnapshot n p) = Suc (snapshots p)" by (simp add: snapshots_def called_def)
  have ns: "p_calls q' = p_calls q" if "not_stopping c x q = (b, q')" for x b q and q' :: "'a process_scheme"
    using not_stopping_frame [OF that] by simp
  show ?thesis
    using assms snap q
    by (auto simp: reconcile_def Let_def snapshots_def track_def stored_def split: sum.splits option.splits prod.splits
        dest!: ns)
qed

lemma reconcilePending_takes_snapshot: "snapshots s < snapshots (reconcilePending d c s)"
proof -
  let ?s = "s\<lparr>pending := False, periodicTimer := None, debounceTimer := None, maximumTimer := None, retryTimer := None\<rparr>"
  obtain e s1 where re: "reconcile d c ?s = (e, s1)" by fastforce
  obtain b s2 where st: "stopReady d c s1 = (b, s2)" by fastforce
  have 1: "snapshots s < snapshots s1" using reconcile_takes_snapshot [OF re] by (simp add: snapshots_def)
  have 2: "effects d (outside_of s1) (outside_of s2)" by (rule effects_stopReady [OF no_effect st])
  note 3 = effects_tick [OF effects_scheduleAfter [OF 2, of c]]
  have "effects d (outside_of s1) (outside_of (reconcilePending d c s))"
    using 2 3 effects_retryAfter [OF 3] re st by (cases b) (simp_all add: reconcilePending_def Let_def)
  with 1 effects_snapshots show ?thesis by (meson less_le_trans)
qed

lemma loop_step_kept:
  assumes "loop_step d c (ctl, s) = (ctl', s')"
  shows "snapshots s < snapshots s' \<or> pending s' \<or> kept s s'"
proof (cases ctl)
  case Checking
  obtain r s1 where r: "loopStop d c s = (r, s1)" by fastforce
  have t: "snapshots (tick (tick s)) = snapshots s" by (simp add: snapshots_def tick_def)
  from assms Checking r loopStop_tick [OF r] reconcilePending_takes_snapshot [of "tick (tick s)" d c] t show ?thesis
    by (auto split: option.splits prod.splits if_splits)
next
  case Waiting
  have "pending s1 \<or> kept s s1" if "take_case d c k (tick s) = (ctl1, s1)" for k ctl1 s1
    using take_case_kept [OF that] kept_trans [of s "tick s" s1] by auto
  with assms Waiting show ?thesis by (auto split: list.splits)
next
  case (Returned e b)
  with assms show ?thesis by simp
qed

lemma reaches_kept:
  assumes "reaches d c (ctl, s) y"
  shows "snapshots s < snapshots (snd y) \<or> pending (snd y) \<or> kept s (snd y)"
    and "effects d (outside_of s) (outside_of (snd y))"
proof -
  have "(snapshots s < snapshots (snd y) \<or> pending (snd y) \<or> kept s (snd y)) \<and>
    effects d (outside_of s) (outside_of (snd y))"
    using assms
  proof (induction rule: reaches.induct)
    case here
    show ?case by (simp add: no_effect)
  next
    case (step y)
    obtain ctl1 s1 where y: "y = (ctl1, s1)" by fastforce
    obtain ctl2 s2 where z: "loop_step d c (ctl1, s1) = (ctl2, s2)" by fastforce
    have e: "effects d (outside_of s1) (outside_of s2)" by (rule effects_loop_step [OF no_effect z])
    have "pending s1 \<Longrightarrow> kept s1 s2 \<Longrightarrow> pending s2" by (simp add: kept_def)
    then have "snapshots s < snapshots s2 \<or> pending s2 \<or> kept s s2"
      using step.IH y loop_step_kept [OF z] effects_snapshots [OF e] kept_trans [of s s1 s2]
        effects_snapshots [of d s s1] by auto
    moreover have "effects d (outside_of s) (outside_of s2)"
      using step.IH y e by (auto intro: effects_trans)
    ultimately show ?case using y z by simp
  qed
  then show "snapshots s < snapshots (snd y) \<or> pending (snd y) \<or> kept s (snd y)"
    "effects d (outside_of s) (outside_of (snd y))" by blast+
qed

end
