(* ===== verification/Daemon_Theorems.thy ===== *)
theory Daemon_Theorems
  imports Daemon_Run Daemon_Debounce
begin

text \<open>
  The properties of the daemon: of its loop (scheduling, debounce, back-off, end) and of a whole run
  (termination, clean-up, result), each with a worked daemon on which it is exercised.
\<close>

section \<open>A worked daemon\<close>

definition ex_config :: daemon_Config where
  "ex_config = \<lparr>dc_Networks = [''saltbox''], dc_DefaultNetwork = ''saltbox'', dc_PeriodicInterval = 300 * second,
     dc_DebounceDelay = second, dc_MaxDebounceDelay = 5 * second\<rparr>"

text \<open>A source whose snapshots all have the same result and that always has an event, or none.\<close>

definition ex_source :: "go_error + endpoint list \<Rightarrow> Event recv \<Rightarrow> NetworkSource" where
  "ex_source snap ev = \<lparr>src_Ping = (\<lambda>c n. (None, 0)), src_Snapshot = (\<lambda>c ns n. (snap, 0)),
     src_Events = (\<lambda>c ns n. ((Some (\<lambda>_. ev), Some (\<lambda>_. NotReady)), 0)), src_Close = (\<lambda>n. (None, 0))\<rparr>"

definition ex_server :: "(nat \<Rightarrow> bool) \<Rightarrow> HealthServer" where
  "ex_server dies = \<lparr>srv_Start = (\<lambda>n. (None, 0)), srv_Done = (\<lambda>k n. k \<noteq> None \<or> dies n), srv_Err = (\<lambda>k n. None),
     srv_Shutdown = (\<lambda>c n. (None, 0))\<rparr>"

definition ex_daemon :: "HostStore \<Rightarrow> go_error + endpoint list \<Rightarrow> Event recv \<Rightarrow> (nat \<Rightarrow> bool) \<Rightarrow> Daemon" where
  "ex_daemon store snap ev dies = \<lparr>d_config = ex_config, d_source = ex_source snap ev, d_store = store,
     d_server = ex_server dies, d_timing = defaultTiming,
     d_runtime = \<lparr>rt_time = (\<lambda>n. int n * second), rt_pick = (\<lambda>_. 0), rt_watch = (\<lambda>_. True), rt_quote = id\<rparr>\<rparr>"

definition ex_process :: process where
  "ex_process = \<lparr>p_world = ex_world, p_tracker = NewTracker, p_log = [], p_calls = [], p_live = []\<rparr>"

text \<open>A store that accepts everything, and a caller that cancels the context.\<close>

definition no_store :: HostStore where
  "no_store = \<lparr>st_Prepare = (\<lambda>c w. ((\<lparr>RecoveredFromBackup = False\<rparr>, None), w)), st_Apply = (\<lambda>c eps w. (None, w))\<rparr>"

definition cancelled_at :: "nat \<Rightarrow> ctx" where
  "cancelled_at k = (\<lambda>n. if k \<le> n then Some (Sentinel Canceled) else None)"

abbreviation an_event :: "Event recv" where
  "an_event \<equiv> Received \<lparr>ev_Action = ''connect'', ev_ContainerID = ''c1'', ev_Network = ''saltbox''\<rparr>"

abbreviation docker_down :: "go_error + endpoint list" where
  "docker_down \<equiv> Inl (Opaque ''docker is down'')"

lemma ex_sane:
  assumes "\<And>n m. n \<le> m \<Longrightarrow> dies n \<Longrightarrow> dies m" "\<And>n m. n \<le> m \<Longrightarrow> c n \<noteq> None \<Longrightarrow> c m \<noteq> None"
  shows "sane (ex_daemon store snap ev dies) c" and "sane (ex_daemon store snap ev dies) (run_ctx (ex_daemon store snap ev dies) c)"
proof -
  have "lasting (ex_daemon store snap ev dies) c" "lasting (ex_daemon store snap ev dies) (run_ctx (ex_daemon store snap ev dies) c)"
    using assms unfolding lasting_def by (auto simp: ex_daemon_def ex_server_def run_ctx_def)
  then show "sane (ex_daemon store snap ev dies) c"
    "sane (ex_daemon store snap ev dies) (run_ctx (ex_daemon store snap ev dies) c)"
    by (simp_all add: sane_def steady_clock_def) (simp_all add: ex_daemon_def ex_config_def defaultTiming_def second_def)
qed

lemma ex_process_sel [simp]: "p_live ex_process = []" "p_calls ex_process = []" "p_tracker ex_process = NewTracker" "p_world ex_process = ex_world"
  by (simp_all add: ex_process_def)

lemma ex_down: "k + 0 \<le> m \<Longrightarrow> srv_Done (d_server (ex_daemon store snap ev dies)) (Some k) m"
  by (simp add: ex_daemon_def ex_server_def)

lemma ex_run:
  assumes "\<And>n m. n \<le> m \<Longrightarrow> dies n \<Longrightarrow> dies m" "\<And>n m. n \<le> m \<Longrightarrow> parent n \<noteq> None \<Longrightarrow> parent m \<noteq> None"
    and "dies 38 \<or> parent 38 \<noteq> None"
  shows "\<exists>r p'. Run (ex_daemon store snap ev dies) parent 40 p = Some (r, p')"
proof -
  let ?d = "ex_daemon store snap ev dies"
  have "lasting ?d (run_ctx ?d parent)" using ex_sane(2) [OF assms(1,2)] by (simp add: sane_def)
  moreover have "stopped ?d (run_ctx ?d parent) 38"
    using assms(3) by (auto simp: stopped_def run_ctx_def ex_daemon_def ex_server_def)
  ultimately have "\<exists>z. Run ?d parent 40 p = Some z"
    by (intro Run_terminates_lemma [where B = 0 and N = 38]) (use ex_down in auto)
  then show ?thesis by auto
qed

lemma cancelled_mono: "n \<le> m \<Longrightarrow> cancelled_at k n \<noteq> None \<Longrightarrow> cancelled_at k m \<noteq> None"
  by (simp add: cancelled_at_def split: if_splits)

lemma ex_sane_cancelled:
  "sane (ex_daemon store snap ev (\<lambda>_. False)) (cancelled_at k)"
  "sane (ex_daemon store snap ev (\<lambda>_. False)) (run_ctx (ex_daemon store snap ev (\<lambda>_. False)) (cancelled_at k))"
  by (rule ex_sane(1), simp, erule (1) cancelled_mono) (rule ex_sane(2), simp, erule (1) cancelled_mono)

lemma ex_run_cancelled:
  "\<exists>r p'. Run (ex_daemon store snap ev (\<lambda>_. False)) (cancelled_at 30) 40 p = Some (r, p')"
  by (rule ex_run) (use cancelled_mono in \<open>auto simp: cancelled_at_def\<close>)

text \<open>The worked world with a backup that mirrors the hosts file, and the store of the program in it.\<close>

definition ex_mirrored :: world where
  "ex_mirrored = (let fs = w_fs ex_world; entries = ex_names(''/etc/hosts.backup'' \<mapsto> 2)
     in ex_world\<lparr>w_fs := fs\<lparr>names := entries, durable := entries, next_ino := 3\<rparr>\<rparr>)"

definition real_store :: HostStore where
  "real_store = (let s = ex_store (\<lambda>_. None) in \<lparr>st_Prepare = Prepare s, st_Apply = Apply insertionSort s\<rparr>)"

lemma Prepare_mirrored:
  assumes h: "healthy (store_ops s) (\<lambda>_. None)" and c: "c (w_clock w) = None"
    and v: "view (w_fs w) (hostsPath s) = Some nd" "IsRegular (i_mode nd)" "marked (beginMarker s) (endMarker s) (i_data nd)"
    and b: "view (w_fs w) (backupPath s) = Some nb" "IsRegular (i_mode nb)" "i_data nb = i_data nd"
  shows "\<exists>w'. Prepare s c w = ((\<lparr>RecoveredFromBackup = False\<rparr>, None), w') \<and> w_clock w' = w_clock w + 8"
proof -
  define w1 where "w1 = look (look (look (look w)))"
  have rd: "readRegularFile (store_ops s) (hostsPath s) w = (Inr (i_data nd, meta_of nd), w1)"
    using healthy_readOptional(2) [OF h v(1,2)] by (simp add: readRegularFile_def w1_def)
  have b1: "view (w_fs w1) (backupPath s) = Some nb" using b(1) by (simp add: w1_def)
  obtain sec where l: "locateMarkers (i_data nd) (beginMarker s) (endMarker s) = Inr (ValidMarkers, sec)"
    using v(3) by (auto simp: marked_iff)
  have "w_clock w1 = w_clock w + 4" by (simp add: w1_def)
  then show ?thesis
    by (simp add: Prepare_def checkContext_def c rd l ensureBackupMatches_def healthy_readOptional(2) [OF h b1 b(2)] b(3) Let_def)
qed

lemma ex_mirrored_view:
  "view (w_fs ex_mirrored) ''/etc/hosts'' = Some ex_node" "view (w_fs ex_mirrored) ''/etc/hosts.backup'' = Some ex_node"
  by (simp_all add: ex_mirrored_def ex_world_def Let_def view_def ex_names_def)

lemma ex_prepared:
  assumes "c (w_clock w) = None" "w_fs w = w_fs ex_mirrored"
  obtains w' where "st_Prepare real_store c w = ((\<lparr>RecoveredFromBackup = False\<rparr>, None), w')" "w_clock w' = w_clock w + 8"
proof -
  let ?s = "ex_store (\<lambda>_. None)"
  have "IsRegular (i_mode ex_node)" using ex_settled by (simp add: settled_def)
  then have "\<exists>w'. Prepare ?s c w = ((\<lparr>RecoveredFromBackup = False\<rparr>, None), w') \<and> w_clock w' = w_clock w + 8"
    using ex_mirrored_view assms ex_marked ex_healthy
    by (intro Prepare_mirrored [where nd = ex_node and nb = ex_node]) (simp_all add: ex_node_def)
  with that show thesis by (auto simp: real_store_def Let_def)
qed

lemma ex_run_started_up:
  assumes "Run (ex_daemon real_store snap ev (\<lambda>_. False)) (cancelled_at 50) 60 (ex_process\<lparr>p_world := ex_mirrored\<rparr>) = Some (r, p')"
  shows "started_up p'"
proof -
  let ?d = "ex_daemon real_store snap ev (\<lambda>_. False)"
  let ?c = "cancelled_at 50"
  have ctx: "run_ctx ?d ?c = ?c" by (rule ext) (simp add: run_ctx_def ex_daemon_def ex_server_def)
  have alive: "?c n = None" if "n < 50" for n using that by (simp add: cancelled_at_def)
  have up: "srv_Done (d_server ?d) None n = False" for n by (simp add: ex_daemon_def ex_server_def)
  have stop: "startupStop ?d ?c p = ((False, False, None), tick (tick p))" if "instant p < 50" for p
    using that by (simp add: startupStop_def alive up Let_def)
  have ping: "src_Ping (d_source ?d) = (\<lambda>c n. (None, 0))" and start: "srv_Start (d_server ?d) = (\<lambda>n. (None, 0))"
    and store: "d_store ?d = real_store"
    by (simp_all add: ex_daemon_def ex_source_def ex_server_def)
  define p6 where "p6 = tick (tick (called CallStart 0 (track BeginInitialization (tick (called CallPing 0 (tick (ex_process\<lparr>p_world := ex_mirrored\<rparr>)))))))"
  have i0: "instant (ex_process\<lparr>p_world := ex_mirrored\<rparr>) = 0" by (simp add: instant_def ex_mirrored_def ex_world_def Let_def)
  have i6: "instant p6 = 6" using i0 by (simp add: p6_def)
  have w6: "w_fs (p_world p6) = w_fs ex_mirrored" by (simp add: p6_def tick_def called_def track_def later_def)
  have run: "Run ?d ?c 60 (ex_process\<lparr>p_world := ex_mirrored\<rparr>) = run_prepare ?d ?c 60 p6"
    using i0 by (simp add: Run_def Let_def ping start alive run_started_def stop p6_def)
  obtain w' where prep: "st_Prepare real_store ?c (p_world p6) = ((\<lparr>RecoveredFromBackup = False\<rparr>, None), w')" "w_clock w' = 14"
    using ex_prepared [of ?c "p_world p6"] i6 w6 alive by (auto simp: instant_def)
  define p15 where "p15 = track (Recover ConcernRecovery) (stored CallPrepare w' p6)"
  have i15: "instant p15 = 15" using prep(2) i6 by (simp add: p15_def stored_def track_def instant_def later_def)
  obtain e q where re: "reconcile ?d ?c (tick (tick p15)) = (e, q)" by fastforce
  have "run_prepare ?d ?c 60 p6 = run_reconciled ?d ?c 60 e q"
    by (simp add: run_prepare_def ctx store prep(1) Let_def run_prepared_def p15_def [symmetric] stop i15 re)
  with run assms have "run_reconciled ?d ?c 60 e q = Some (r, p')" by simp
  moreover have "p_live q = []"
    using reconcile_frame [OF re] by (simp add: frame_def p15_def p6_def tick_def stored_def called_def track_def)
  ultimately show ?thesis
    using run_reconciled_started_up [OF _ _ _ reconcile_started_up [OF re]] ex_sane_cancelled(2) by blast
qed

section \<open>Properties of the loop\<close>

text \<open>
  C16. The loop always has its next work scheduled. In every state it reaches, unless it has been asked to
  stop, a reconciliation is pending or due within the periodic interval, and the event stream is open or a
  reconnection is due within the maximal retry delay: no failure of Docker or of the hosts file leaves the
  daemon idle.
\<close>

theorem loop_always_scheduled:
  assumes "sane d c" and "p_live p = []" and "reaches d c (Checking, loop_start d c e p) (ctl, s)"
    and "\<not> stopped d c (instant s)"
  shows "(pending s \<or> armed_within (now_of d s) (dc_PeriodicInterval (d_config d)) (periodicTimer s)) \<and>
    (streamCancel s \<noteq> None \<and> (events s \<noteq> None \<or> eventErrors s \<noteq> None) \<or>
     armed_within (now_of d s) (retryMaxDelay (d_timing d)) (reconnectTimer s))"
  using loop_states_inv [OF assms(1-3)] assms(4)
  by (simp add: loop_inv_def reconcile_due_def stream_due_def)

theorem loop_always_scheduled_witness:
  "\<exists>ctl s. (loop_step (ex_daemon no_store docker_down an_event (\<lambda>_. False)) (\<lambda>_. None) ^^ 9)
      (Checking, loop_start (ex_daemon no_store docker_down an_event (\<lambda>_. False)) (\<lambda>_. None) None ex_process) = (ctl, s) \<and>
    (pending s \<or> armed_within (now_of (ex_daemon no_store docker_down an_event (\<lambda>_. False)) s) (300 * second) (periodicTimer s))"
proof -
  let ?d = "ex_daemon no_store docker_down an_event (\<lambda>_. False)"
  obtain ctl s where s: "(loop_step ?d (\<lambda>_. None) ^^ 9) (Checking, loop_start ?d (\<lambda>_. None) None ex_process) = (ctl, s)"
    by (metis prod.exhaust)
  have "\<not> stopped ?d (\<lambda>_. None) (instant s)" by (simp add: stopped_def ex_daemon_def ex_server_def)
  from loop_always_scheduled [OF ex_sane(1) ex_process_sel(1) _ this, of None ctl] reaches_funpow [of ?d "\<lambda>_. None" _ 9] s
  have "pending s \<or> armed_within (now_of ?d s) (dc_PeriodicInterval (d_config ?d)) (periodicTimer s)" by (metis option.distinct(1))
  moreover have "dc_PeriodicInterval (d_config ?d) = 300 * second" by (simp add: ex_daemon_def ex_config_def)
  ultimately show ?thesis using s by auto
qed

text \<open>
  C17. Events cannot starve the reconciliation. Once an event is waiting, its hard deadline is at most the
  maximal debounce delay away, and until a reconciliation is pending or has taken a snapshot nothing moves
  it, however many events follow; when its time has come the loop can take it.
\<close>

theorem debounce_deadline_fixed:
  assumes "sane d c" and "p_live p = []" and "reaches d c (Checking, loop_start d c e p) (ctl, s)"
    and "debounceTimer s \<noteq> None"
    and "reaches d c (ctl, s) (ctl', s')" and "snapshots s' = snapshots s" and "\<not> pending s'"
  shows "\<exists>dl. maximumTimer s = Some (Timer (Some dl)) \<and> dl \<le> now_of d s + dc_MaxDebounceDelay (d_config d) \<and>
    maximumTimer s' = Some (Timer (Some dl)) \<and>
    (if dl \<le> now_of d s' then OnMaximum \<in> set (ready_cases d c s') else True)"
proof -
  have "debounce_ok d s" using loop_states_inv(1) [OF assms(1-3)] by (simp add: loop_inv_def loop_rest_def)
  then obtain dl where dl: "maximumTimer s = Some (Timer (Some dl))" "dl \<le> now_of d s + dc_MaxDebounceDelay (d_config d)"
    using assms(4) by (auto simp: debounce_ok_def armed_within_def)
  have "kept s s'" using reaches_kept(1) [OF assms(5)] assms(6,7) by simp
  then have m: "maximumTimer s' = Some (Timer (Some dl))" using assms(4) dl(1) by (simp add: kept_def)
  then have "dl \<le> now_of d s' \<Longrightarrow> OnMaximum \<in> set (ready_cases d c s')"
    by (simp add: ready_cases_def loopTimerChannel_def)
  with dl m show ?thesis by auto
qed

theorem debounce_deadline_fixed_witness:
  "\<exists>ctl s dl. (loop_step (ex_daemon no_store (Inr []) an_event (\<lambda>_. False)) (\<lambda>_. None) ^^ 2)
      (Checking, loop_start (ex_daemon no_store (Inr []) an_event (\<lambda>_. False)) (\<lambda>_. None) None ex_process) = (ctl, s) \<and>
    maximumTimer s = Some (Timer (Some dl)) \<and>
    dl \<le> now_of (ex_daemon no_store (Inr []) an_event (\<lambda>_. False)) s + 5 * second"
proof -
  let ?d = "ex_daemon no_store (Inr []) an_event (\<lambda>_. False)"
  let ?x = "(loop_step ?d (\<lambda>_. None) ^^ 2) (Checking, loop_start ?d (\<lambda>_. None) None ex_process)"
  have f: "debounceTimer (snd ?x) \<noteq> None" "\<not> pending (snd ?x)" by code_simp+
  obtain ctl s where s: "?x = (ctl, s)" by (metis prod.exhaust)
  have r: "reaches ?d (\<lambda>_. None) (Checking, loop_start ?d (\<lambda>_. None) None ex_process) (ctl, s)"
    using reaches_funpow [of ?d "\<lambda>_. None" _ 2] s by metis
  have "sane ?d (\<lambda>_. None)" by (rule ex_sane(1)) simp_all
  from debounce_deadline_fixed [OF this ex_process_sel(1) r _ reaches.here] f s
  have "\<exists>dl. maximumTimer s = Some (Timer (Some dl)) \<and> dl \<le> now_of ?d s + dc_MaxDebounceDelay (d_config ?d)"
    by (metis snd_conv)
  moreover have "dc_MaxDebounceDelay (d_config ?d) = 5 * second" by (simp add: ex_daemon_def ex_config_def)
  ultimately show ?thesis using s by auto
qed

text \<open>
  Retries back off exponentially up to the maximum: after \<open>k\<close> consecutive failures the delay is the
  initial delay times \<open>2^k\<close>, capped, and neither the doubling nor the comparison before it leaves the
  64-bit range.
\<close>

lemma nextLoopBackoff_bounds:
  assumes "0 < init" and "init \<le> mx" and "mx \<le> MaxInt64"
  shows "((\<lambda>x. nextLoopBackoff x mx) ^^ k) init = min (2 ^ k * init) mx \<and>
    (let x = ((\<lambda>x. nextLoopBackoff x mx) ^^ k) init
     in init \<le> x \<and> x \<le> mx \<and> 0 \<le> mx - x \<and> nextLoopBackoff x mx = min (2 * x) mx)"
proof -
  have closed: "((\<lambda>x. nextLoopBackoff x mx) ^^ k) init = min (2 ^ k * init) mx" for k
  proof (induction k)
    case 0
    then show ?case using assms by simp
  next
    case (Suc k)
    have "0 < min (2 ^ k * init) mx" "min (2 ^ k * init) mx \<le> mx" using assms by auto
    from nextLoopBackoff_min [OF this] Suc assms show ?case by (auto simp: min_def)
  qed
  have "init \<le> 2 ^ k * init" using assms(1) by (simp add: mult_le_cancel_right1)
  with assms have "init \<le> min (2 ^ k * init) mx" "min (2 ^ k * init) mx \<le> mx" by auto
  with closed [of k] nextLoopBackoff_min [of "min (2 ^ k * init) mx" mx] assms show ?thesis by (simp add: Let_def)
qed

text \<open>
  Only a stop request ends the loop. When it returns, either the server is done and the result is its
  error, or the context is done and the result is nil; all event streams are cancelled by then, and while
  it runs there is at most one.
\<close>

lemma loop_ends_on_request:
  assumes "sane d c" and "p_live p = []" and "loop d c e fuel p = Some ((r, captured), p')"
    and "reaches d c (Checking, loop_start d c e p) (ctl, s)"
  shows "(if captured then srv_Done (d_server d) None (instant p') \<and> r \<noteq> None else c (instant p') \<noteq> None \<and> r = None) \<and>
    p_live p' = [] \<and> length (p_live s) \<le> 1"
proof -
  have "live_ok s" using loop_states_inv(1) [OF assms(1,2,4)] by (simp add: loop_inv_def loop_rest_def)
  then have "length (p_live s) \<le> 1" by (simp add: live_ok_def split: option.splits)
  with loop_result [OF assms(3,1,2)] show ?thesis by (simp add: stop_reason_def)
qed

section \<open>Properties of a run\<close>

text \<open>
  C18. A run always ends once it is asked to: when the context is done at instant \<open>N\<close> and the server
  comes down within \<open>B\<close> instants of its shutdown, \<open>Run\<close> returns, whatever Docker, the hosts file and the
  event streams do.
\<close>

theorem Run_terminates:
  assumes "lasting d (run_ctx d parent)" and "parent N \<noteq> None"
    and "\<forall>k m. k + B \<le> m \<longrightarrow> srv_Done (d_server d) (Some k) m"
    and "N + 2 \<le> fuel" and "B \<le> fuel"
  shows "\<exists>r p'. Run d parent fuel p = Some (r, p')"
proof -
  have "stopped d (run_ctx d parent) N" using assms(2) by (simp add: stopped_def run_ctx_def)
  with Run_terminates_lemma [of B d fuel N parent p] assms show ?thesis by auto
qed

theorem Run_terminates_witness:
  "\<exists>r p'. Run (ex_daemon no_store docker_down an_event (\<lambda>_. False)) (cancelled_at 20) 22 ex_process = Some (r, p')"
proof (rule Run_terminates [where N = 20 and B = 0])
  let ?d = "ex_daemon no_store docker_down an_event (\<lambda>_. False)"
  show "lasting ?d (run_ctx ?d (cancelled_at 20))" using ex_sane_cancelled(2) by (simp add: sane_def)
qed (use ex_down in \<open>auto simp: cancelled_at_def\<close>)

text \<open>
  C19. Every run cleans up: it closes the source exactly once and as its last call, before that it shuts the
  server down exactly once if and only if the server was started, and no event stream is left open.
\<close>

theorem Run_cleans_up:
  assumes "Run d parent fuel p = Some (r, p')" and "sane d (run_ctx d parent)" and "p_live p = []" and "p_calls p = []"
  shows "\<exists>run n m. p_calls p' = run @ (if server_started d run then [(CallShutdown, n), (CallClose, m)] else [(CallClose, m)]) \<and>
    list_all (\<lambda>(k, _). k \<noteq> CallShutdown \<and> k \<noteq> CallClose) run \<and> p_live p' = []"
proof -
  obtain e captured q where q: "running d (outside_of p) q"
    "cleanup d fuel (server_started d (p_calls q)) e captured q = Some (r, p')"
    using Run_ends [OF assms] by metis
  from cleanup_spec(1) [OF q(2)] obtain n where "p_calls p' = p_calls q @
      (if server_started d (p_calls q) then [(CallShutdown, Suc (instant q))] else []) @ [(CallClose, n)]" by blast
  moreover have "list_all (\<lambda>(k, _). k \<noteq> CallShutdown \<and> k \<noteq> CallClose) (p_calls q)"
    using q(1) effects_forward [of d "outside_of p" "outside_of q"] assms(4)
    by (fastforce simp: running_def outside_of_def list_all_iff)
  moreover have "p_live p' = []" using cleanup_spec(2) [OF q(2)] q(1) by (simp add: running_def)
  ultimately show ?thesis by (intro exI [of _ "p_calls q"] exI [of _ "Suc (instant q)"] exI [of _ n]) simp
qed

theorem Run_cleans_up_witness:
  "\<exists>r p'. Run (ex_daemon no_store docker_down an_event (\<lambda>_. False)) (cancelled_at 30) 40 ex_process = Some (r, p') \<and> p_live p' = []"
proof -
  let ?d = "ex_daemon no_store docker_down an_event (\<lambda>_. False)"
  obtain r p' where r: "Run ?d (cancelled_at 30) 40 ex_process = Some (r, p')"
    using ex_run_cancelled by blast
  from Run_cleans_up [OF r ex_sane_cancelled(2)] r show ?thesis by auto
qed

text \<open>
  C20. Once started, the daemon survives every failure of Docker and of the hosts file: a run that got as far as
  its first reconciliation ends with nil, whatever snapshots, event streams and updates of the hosts file do then, as
  long as the health server never stops on its own, reports no serve error after its shutdown, shuts down without an error under the
  clean-up's deadline, and closing the source reports no error.
\<close>

theorem Run_survives_failures:
  assumes "Run d parent fuel p = Some (r, p')" and "sane d (run_ctx d parent)" and "p_live p = []" and "p_calls p = []"
    and "CallSnapshot \<in> fst ` set (p_calls p')"
    and "\<forall>n. \<not> srv_Done (d_server d) None n" and "\<forall>k n. srv_Err (d_server d) (Some k) n = None"
    and "\<forall>n. fst (srv_Shutdown (d_server d) (WithTimeout d (\<lambda>_. None) (shutdownTimeout (d_timing d)) n) n) = None"
    and "\<forall>n. fst (src_Close (d_source d) n) = None"
  shows "r = None"
proof -
  obtain e captured q where q: "cleanup d fuel (server_started d (p_calls q)) e captured q = Some (r, p')"
    "e \<noteq> None \<longrightarrow> (\<exists>n. srv_Done (d_server d) None n) \<or> \<not> started_up q"
    using Run_ends [OF assms(1-4)] by metis
  have "started_up q" using assms(5) cleanup_started_up [OF q(1)] by (simp add: started_up_def)
  then have "e = None" using q(2) assms(6) by blast
  with cleanup_quiet q(1) assms(6-9) show ?thesis by blast
qed

theorem Run_survives_failures_witness:
  "\<exists>p'. Run (ex_daemon real_store docker_down Closed (\<lambda>_. False)) (cancelled_at 50) 60 (ex_process\<lparr>p_world := ex_mirrored\<rparr>) = Some (None, p')"
proof -
  let ?d = "ex_daemon real_store docker_down Closed (\<lambda>_. False)"
  let ?p = "ex_process\<lparr>p_world := ex_mirrored\<rparr>"
  have "lasting ?d (run_ctx ?d (cancelled_at 50))" using ex_sane_cancelled(2) by (simp add: sane_def)
  moreover have "stopped ?d (run_ctx ?d (cancelled_at 50)) 50" by (simp add: stopped_def run_ctx_def cancelled_at_def)
  ultimately obtain r p' where r: "Run ?d (cancelled_at 50) 60 ?p = Some (r, p')"
    using Run_terminates_lemma [of 0 ?d 60 50 "cancelled_at 50" ?p] ex_down by fastforce
  have "r = None"
  proof (rule Run_survives_failures [OF r ex_sane_cancelled(2)])
    show "CallSnapshot \<in> fst ` set (p_calls p')" using ex_run_started_up [OF r] by (simp add: started_up_def)
  qed (simp_all add: ex_daemon_def ex_server_def ex_source_def ex_process_def)
  with r show ?thesis by blast
qed

text \<open>
  C21. A daemon that nobody asked to stop never ends with nil: if the caller's context stays alive, a run
  that returns returns an error, also when the health server dies during the start and the start is then
  cancelled by it.
\<close>

theorem Run_unasked_is_error:
  assumes "Run d parent fuel p = Some (r, p')" and "sane d (run_ctx d parent)" and "p_live p = []" and "p_calls p = []"
    and "\<forall>n. parent n = None"
  shows "r \<noteq> None"
proof -
  obtain e captured q where q: "cleanup d fuel (server_started d (p_calls q)) e captured q = Some (r, p')"
    "captured \<longrightarrow> e \<noteq> None"
    "e = None \<longrightarrow> (\<exists>n. parent n \<noteq> None) \<or> server_started d (p_calls q) \<and> srv_Done (d_server d) None (instant q)"
    using Run_ends [OF assms(1-4)] by metis
  then have "e \<noteq> None \<or> server_started d (p_calls q) \<and> \<not> captured \<and> srv_Done (d_server d) None (instant q)"
    using assms(5) by (cases e) auto
  then show ?thesis by (rule cleanup_spec(3) [OF q(1)])
qed

theorem Run_unasked_is_error_witness:
  "\<exists>e p'. Run (ex_daemon no_store (Inr []) NotReady (\<lambda>n. 30 \<le> n)) (\<lambda>_. None) 40 ex_process = Some (Some e, p')"
proof -
  let ?d = "ex_daemon no_store (Inr []) NotReady (\<lambda>n. 30 \<le> n)"
  obtain r p' where r: "Run ?d (\<lambda>_. None) 40 ex_process = Some (r, p')"
    using ex_run [of "\<lambda>n. 30 \<le> n" "\<lambda>_. None" no_store "Inr []" NotReady ex_process] by auto
  have "sane ?d (run_ctx ?d (\<lambda>_. None))" by (rule ex_sane(2)) auto
  from Run_unasked_is_error [OF r this] r show ?thesis by auto
qed

section \<open>Reconciliation and health\<close>

lemma not_stopping_spec:
  "not_stopping c e p = (b, p') \<Longrightarrow> p_tracker p' = p_tracker p \<and> (b \<longleftrightarrow> c (instant p) = None \<or> \<not> errors_Is_error e (c (Suc (instant p)))) \<and>
     instant p' = (if c (instant p) = None then instant p + 1 else instant p + 2)"
  by (auto simp: not_stopping_def tick_def instant_def later_def split: if_splits)

lemma tracker_steps [simp]:
  "p_tracker (called k n p) = p_tracker p" "p_tracker (stored k w p) = p_tracker p"
  "p_tracker (track f p) = f (p_tracker p)" "p_tracker (tick p) = p_tracker p"
  by (simp_all add: called_def stored_def track_def tick_def)

text \<open>
  The three ways a reconciliation goes. A failure is recorded unless, at the instants \<open>m\<close> and \<open>m + 1\<close> of the
  check, the context is done with the error that is to be recorded.
\<close>

definition recorded :: "ctx \<Rightarrow> go_error \<Rightarrow> nat \<Rightarrow> bool" where
  "recorded c x m \<longleftrightarrow> c m = None \<or> \<not> errors_Is_error x (c (m + 1))"

lemma reconcile_cases:
  assumes "reconcile d c p = (e, p')"
  obtains (snapshot_failed) x m where "e = Some (wrap ''snapshot Docker networks: '' x)" "instant p < m"
      "instant p' = (if c m = None then m + 1 else m + 2)"
      "fst (src_Snapshot (d_source d) (WithTimeout d c (dockerOperationTimeout (d_timing d)) (instant p))
         (dc_Networks (d_config d)) (instant p)) = Inl x"
      "p_tracker p' = (if recorded c x m then Fail (now_of d p') ConcernDockerSnapshot (error_text d x) (p_tracker p) else p_tracker p)"
    | (apply_failed) x m where "e = Some (wrap ''apply hosts snapshot: '' x)" "instant p < m"
      "instant p' = (if c m = None then m + 1 else m + 2)"
      "p_tracker p' = (if recorded c x m
         then Fail (now_of d p') ConcernHostsApply (error_text d x) (Recover ConcernDockerSnapshot (p_tracker p))
         else Recover ConcernDockerSnapshot (p_tracker p))"
    | (applied) eps n m w where "e = None"
      "src_Snapshot (d_source d) (WithTimeout d c (dockerOperationTimeout (d_timing d)) (instant p))
         (dc_Networks (d_config d)) (instant p) = (Inr eps, n)"
      "st_Apply (d_store d) c eps (later n (p_world p)) = (None, w)" "p_world p' = later m w"
      "p_tracker p' = Recover ConcernHostsApply (Recover ConcernDockerSnapshot (p_tracker p))"
proof -
  let ?c = "WithTimeout d c (dockerOperationTimeout (d_timing d)) (instant p)"
  obtain r n where snap: "src_Snapshot (d_source d) ?c (dc_Networks (d_config d)) (instant p) = (r, n)"
    by fastforce
  let ?q = "called CallSnapshot n p"
  show ?thesis
  proof (cases r)
    case (Inl y)
    obtain b p1 where n: "not_stopping c y ?q = (b, p1)" by fastforce
    with assms snap Inl have e: "e = Some (wrap ''snapshot Docker networks: '' y)"
      "p' = (if b then track (Fail (now_of d p1) ConcernDockerSnapshot (error_text d y)) p1 else p1)"
      by (auto simp: reconcile_def)
    have "now_of d p' = now_of d p1" using e(2) by (simp add: now_of_def)
    with e snap Inl not_stopping_spec [OF n] show ?thesis
      by (intro snapshot_failed [of y "instant ?q"]) (auto simp: recorded_def)
  next
    case (Inr eps)
    let ?p = "track (Recover ConcernDockerSnapshot) ?q"
    have w: "p_world ?p = later n (p_world p)" by (simp add: track_def called_def)
    obtain r2 w where app: "st_Apply (d_store d) c eps (p_world ?p) = (r2, w)" by fastforce
    show ?thesis
    proof (cases r2)
      case None
      then have "e = None" "p' = track (Recover ConcernHostsApply) (stored CallApply w ?p)"
        using assms snap Inr app by (auto simp: reconcile_def Let_def)
      then show ?thesis using snap Inr app None w by (intro applied [of eps n w]) (auto simp: track_def stored_def)
    next
      case (Some y)
      obtain b p1 where n: "not_stopping c y (stored CallApply w ?p) = (b, p1)" by fastforce
      with assms snap Inr app Some have e: "e = Some (wrap ''apply hosts snapshot: '' y)"
        "p' = (if b then track (Fail (now_of d p1) ConcernHostsApply (error_text d y)) p1 else p1)"
        by (auto simp: reconcile_def Let_def)
      have "now_of d p' = now_of d p1" using e(2) by (simp add: now_of_def)
      moreover have "instant p < instant (stored CallApply w ?p)" using instant_stored [of ?p CallApply w] by simp
      ultimately show ?thesis using e not_stopping_spec [OF n]
        by (intro apply_failed [of y "instant (stored CallApply w ?p)"]) (auto simp: recorded_def)
    qed
  qed
qed



section \<open>The hosts file under a running daemon\<close>

context host_store
begin

lemma ready_steps: "ready w \<Longrightarrow> ready (later n w) \<and> during good w (later n w)"
  using ready_later [of w "max n (Suc (w_clock w))"] ready_good by (simp add: later_def during_def)

lemma effects_keep:
  assumes "effects d x y" "d_store d = \<lparr>st_Prepare = prepare, st_Apply = apply_snapshot\<rparr>" "ready (fst x)"
  shows "ready (fst y) \<and> during good (fst x) (fst y)"
  using assms(1,3)
proof (induction rule: effects.induct)
  case (no_effect x)
  then show ?case by (simp add: during_refl ready_good)
next
  case (time_passes x w cs n)
  then show ?case using ready_steps [of w n] by (auto intro: during_trans)
next
  case (source_call x w cs k n)
  then show ?case using ready_steps [of w n] by (auto intro: during_trans)
next
  case (cancel_call x w cs)
  then show ?case by simp
next
  case (prepare_call x w cs c r w')
  then have "ready w' \<and> during good w w'" using prepare_keeps [of w c r w'] assms(2) by simp
  then show ?case using prepare_call ready_steps [of w' "Suc (w_clock w)"] by (auto intro: during_trans)
next
  case (apply_call x w cs c eps e w')
  then have "ready w' \<and> during good w w'" using apply_keeps [of w c eps e w'] assms(2) by simp
  then show ?case using apply_call ready_steps [of w' "Suc (w_clock w)"] by (auto intro: during_trans)
qed

lemma Run_keeps:
  assumes "Run d parent fuel p = Some (r, p')" "sane d (run_ctx d parent)" "p_live p = []" "p_calls p = []"
    and "d_store d = \<lparr>st_Prepare = prepare, st_Apply = apply_snapshot\<rparr>" "ready (p_world p)"
  shows "during good (p_world p) (p_world p')"
proof -
  obtain e captured q where q: "running d (outside_of p) q"
    "cleanup d fuel (server_started d (p_calls q)) e captured q = Some (r, p')"
    using Run_ends [OF assms(1-4)] by metis
  have k: "during good (p_world p) (p_world q)"
    using effects_keep [of d "outside_of p" "outside_of q"] q(1) assms(5,6) by (simp add: running_def outside_of_def)
  from cleanup_spec(2) [OF q(2)] k show ?thesis by (auto simp: during_def instant_def)
qed

end

end
