(* ===== verification/Hosts_Lock.thy ===== *)
theory Hosts_Lock
  imports Daemon_Theorems
begin

text \<open>
  The lock that keeps two SDHM processes from managing the same hosts file
  (\<open>cmd/sdhm/hosts_lock.go\<close>): an advisory \<open>flock\<close> on a file next to the hosts file. The kernel's locks are
  a table from lock files to the process that holds them.
\<close>

type_synonym locks = "string \<Rightarrow> nat option"

text \<open>What the calls on the lock file return, apart from the lock itself.\<close>

record lockOps =
  lk_Getwd :: "go_error + string"
  lk_OpenFile :: "string \<Rightarrow> err"
  lk_Stat :: "string \<Rightarrow> go_error + FileMode"
  lk_Chmod :: "string \<Rightarrow> FileMode \<Rightarrow> err"
  lk_Flock :: "string \<Rightarrow> err"
  lk_Close :: "string \<Rightarrow> err"

definition filepath_Abs :: "lockOps \<Rightarrow> string \<Rightarrow> go_error + string" where
  "filepath_Abs ops p =
     (if p \<noteq> [] \<and> hd p = SEP then Inr (Clean p)
      else case lk_Getwd ops of
        Inl e \<Rightarrow> Inl e
      | Inr wd \<Rightarrow> Inr (if p = [] then Clean wd else Clean (wd @ SEP # p)))"

text \<open>
  \<open>syscall.Flock\<close> with \<open>LOCK_EX|LOCK_NB\<close> on a freshly opened file: it does not wait for a lock
  that anyone holds.
\<close>

definition Flock :: "lockOps \<Rightarrow> nat \<Rightarrow> string \<Rightarrow> locks \<Rightarrow> err \<times> locks" where
  "Flock ops pid path lks =
     (case lk_Flock ops path of
        Some e \<Rightarrow> (Some e, lks)
      | None \<Rightarrow>
          (case lks path of
             Some holder \<Rightarrow> (Some (Sentinel EWOULDBLOCK), lks)
           | None \<Rightarrow> (None, lks(path \<mapsto> pid))))"

definition hostsLockSuffix :: string where
  "hostsLockSuffix = ''.sdhm.lock''"

text \<open>The closure \<open>fail\<close>: the file is closed, and nothing was locked through it.\<close>

definition lock_fail :: "lockOps \<Rightarrow> string \<Rightarrow> go_error \<Rightarrow> go_error" where
  "lock_fail ops lockPath primary =
     (case lk_Close ops lockPath of
        None \<Rightarrow> primary
      | Some closeErr \<Rightarrow>
          Joined [primary, Wrapf [Lit ''close hosts lock '', Quoted lockPath, Lit '': ''] closeErr []])"

text \<open>The closer it returns is the path of the open lock file.\<close>

definition acquireHostsLock :: "lockOps \<Rightarrow> nat \<Rightarrow> string \<Rightarrow> locks \<Rightarrow> (go_error + string) \<times> locks" where
  "acquireHostsLock ops pid hosts_path lks =
     (case filepath_Abs ops hosts_path of
        Inl e \<Rightarrow> (Inl (Wrapf [Lit ''resolve absolute hosts path '', Quoted hosts_path, Lit '': ''] e []), lks)
      | Inr absoluteHostsPath \<Rightarrow>
          (let lockPath = absoluteHostsPath @ hostsLockSuffix in
           case lk_OpenFile ops lockPath of
             Some e \<Rightarrow>
               (Inl (Wrapf [Lit ''open hosts lock '', Quoted lockPath, Lit '' without following symlinks: ''] e []), lks)
           | None \<Rightarrow>
               (case lk_Stat ops lockPath of
                  Inl e \<Rightarrow>
                    (Inl (lock_fail ops lockPath (Wrapf [Lit ''stat hosts lock '', Quoted lockPath, Lit '': ''] e [])), lks)
                | Inr fmode \<Rightarrow>
                    if \<not> IsRegular fmode
                    then (Inl (lock_fail ops lockPath
                            (Errorf [Lit ''hosts lock '', Quoted lockPath, Lit '' is not a regular file''])), lks)
                    else (case lk_Chmod ops lockPath 0x180 of
                            Some e \<Rightarrow>
                              (Inl (lock_fail ops lockPath
                                 (Wrapf [Lit ''set hosts lock '', Quoted lockPath, Lit '' permissions: ''] e [])), lks)
                          | None \<Rightarrow>
                              (case Flock ops pid lockPath lks of
                                 (Some e, lks) \<Rightarrow>
                                   (Inl (lock_fail ops lockPath
                                      (if errors_Is e EWOULDBLOCK
                                       then Wrapf [] (Sentinel ErrHostsLocked) [Lit '': '', Quoted lockPath]
                                       else Wrapf [Lit ''acquire hosts lock '', Quoted lockPath, Lit '': ''] e [])), lks)
                               | (None, lks) \<Rightarrow> (Inr lockPath, lks))))))"

text \<open>Closing the file gives up the lock, also when the call reports an error.\<close>

definition closeLock :: "lockOps \<Rightarrow> string \<Rightarrow> locks \<Rightarrow> err \<times> locks" where
  "closeLock ops lockPath lks = (lk_Close ops lockPath, lks(lockPath := None))"

section \<open>The lock is exclusive\<close>

definition lock_path :: "lockOps \<Rightarrow> string \<Rightarrow> string" where
  "lock_path ops hosts_path = (case filepath_Abs ops hosts_path of Inl _ \<Rightarrow> [] | Inr p \<Rightarrow> p @ hostsLockSuffix)"

lemma acquireHostsLock_Inr:
  "acquireHostsLock ops pid h lks = (Inr p, lks') \<Longrightarrow>
     p = lock_path ops h \<and> lks p = None \<and> lks' = lks(p \<mapsto> pid)"
  by (auto simp: acquireHostsLock_def Flock_def lock_path_def Let_def
      split: sum.splits option.splits if_splits prod.splits)

lemma acquireHostsLock_Inl: "acquireHostsLock ops pid h lks = (Inl e, lks') \<Longrightarrow> lks' = lks"
  by (auto simp: acquireHostsLock_def Flock_def Let_def
      split: sum.splits option.splits if_splits prod.splits)

text \<open>What a caller relies on: whoever gets the lock was alone, and giving it up restores the table.\<close>

locale hosts_lock =
  fixes acquire :: "string \<Rightarrow> locks \<Rightarrow> (go_error + string) \<times> locks"
    and release :: "string \<Rightarrow> locks \<Rightarrow> err \<times> locks"
    and path_of :: "string \<Rightarrow> string"
  assumes taken: "acquire h lks = (Inr p, lks') \<Longrightarrow> p = path_of h \<and> lks p = None \<and> (\<exists>pid. lks' = lks(p \<mapsto> pid))"
    and refused: "acquire h lks = (Inl e, lks') \<Longrightarrow> lks' = lks"
    and released: "release p lks = (r, lks') \<Longrightarrow> lks' = lks(p := None)"
begin

lemma bracket:
  assumes "acquire h lks = (Inr p, l1)" "release p l1 = (e, lks')"
  shows "lks' = lks" "lks (path_of h) = None"
  using taken [OF assms(1)] released [OF assms(2)] by auto

text \<open>A command that runs under the lock, and does \<open>Q\<close> when it is refused.\<close>

lemma under_lock:
  assumes "(\<exists>e. acquire h lks = (Inl e, lks')) \<and> Q \<or> (\<exists>p l1 e. acquire h lks = (Inr p, l1) \<and> release p l1 = (e, lks'))"
  shows "lks' = lks \<and> (if lks (path_of h) \<noteq> None then Q else True)"
  using assms bracket refused by fastforce

end

interpretation flock: hosts_lock "acquireHostsLock ops pid" "closeLock ops" "lock_path ops" for ops pid
  by unfold_locales (use acquireHostsLock_Inr acquireHostsLock_Inl in \<open>fastforce simp: closeLock_def\<close>)+

lemma lock_fail_Is: "errors_Is primary t \<Longrightarrow> errors_Is (lock_fail ops p primary) t"
  by (simp add: lock_fail_def split: option.splits)

text \<open>Someone holds the lock and every other call works: the process is told so.\<close>

lemma acquireHostsLock_held:
  assumes "filepath_Abs ops h = Inr p" "lks (p @ hostsLockSuffix) = Some holder"
    and "lk_OpenFile ops (p @ hostsLockSuffix) = None" "lk_Stat ops (p @ hostsLockSuffix) = Inr fmode" "IsRegular fmode"
    and "lk_Chmod ops (p @ hostsLockSuffix) 0x180 = None" "lk_Flock ops (p @ hostsLockSuffix) = None"
  shows "\<exists>e. acquireHostsLock ops pid h lks = (Inl e, lks) \<and> errors_Is e ErrHostsLocked"
  using assms by (simp add: acquireHostsLock_def Flock_def Let_def lock_fail_Is)

end
