(* ===== verification/Logging.thy ===== *)
theory Logging
  imports Markers
begin

text \<open>
  The log of the process (\<open>cmd/sdhm/logging.go\<close>). Under systemd every line is preceded by a priority that the
  journal understands; the handlers for the four levels write to the same output. The text handler of package
  \<open>log/slog\<close> is standard library: a line is what \<open>text_line\<close> makes of a record and the attributes and groups
  of the logger, given to the writer in one call.
\<close>

section \<open>Writers\<close>

text \<open>
  An \<open>io.Writer\<close>: what has been written, and for the \<open>k\<close>-th call whether it fails, after how many bytes.
\<close>

record sink =
  sk_written :: string
  sk_calls :: nat
  sk_fault :: "nat \<Rightarrow> (nat \<times> go_error) option"

definition sink_Write :: "string \<Rightarrow> sink \<Rightarrow> (nat \<times> err) \<times> sink" where
  "sink_Write data s =
     (case sk_fault s (sk_calls s) of
        None \<Rightarrow> ((length data, None), s\<lparr>sk_written := sk_written s @ data, sk_calls := Suc (sk_calls s)\<rparr>)
      | Some (k, e) \<Rightarrow>
          ((min k (length data), Some e), s\<lparr>sk_written := sk_written s @ take k data, sk_calls := Suc (sk_calls s)\<rparr>))"

definition priorityWriter_Write :: "string \<Rightarrow> string \<Rightarrow> sink \<Rightarrow> (nat \<times> err) \<times> sink" where
  "priorityWriter_Write pre data s =
     (case sink_Write pre s of
        ((_, Some e), s) \<Rightarrow> ((0, Some e), s)
      | ((_, None), s) \<Rightarrow> sink_Write data s)"

section \<open>Handlers\<close>

definition LevelDebug :: int where "LevelDebug = -4"
definition LevelInfo :: int where "LevelInfo = 0"
definition LevelWarn :: int where "LevelWarn = 4"
definition LevelError :: int where "LevelError = 8"

type_synonym attr = "string \<times> string"

datatype scope = Attrs "attr list" | Group string

record slog_record =
  r_level :: int
  r_message :: string
  r_attrs :: "attr list"

text \<open>A text handler: the prefix of its writer, if it has one, its lowest level, and what it was extended with.\<close>

record textHandler =
  th_prefix :: "string option"
  th_min :: int
  th_scopes :: "scope list"

definition text_Enabled :: "textHandler \<Rightarrow> int \<Rightarrow> bool" where
  "text_Enabled h level \<longleftrightarrow> th_min h \<le> level"

definition text_WithAttrs :: "attr list \<Rightarrow> textHandler \<Rightarrow> textHandler" where
  "text_WithAttrs attrs h = (if attrs = [] then h else h\<lparr>th_scopes := th_scopes h @ [Attrs attrs]\<rparr>)"

definition text_WithGroup :: "string \<Rightarrow> textHandler \<Rightarrow> textHandler" where
  "text_WithGroup name h = (if name = [] then h else h\<lparr>th_scopes := th_scopes h @ [Group name]\<rparr>)"

definition text_Handle :: "(scope list \<Rightarrow> slog_record \<Rightarrow> string) \<Rightarrow> textHandler \<Rightarrow> slog_record \<Rightarrow> sink \<Rightarrow> err \<times> sink" where
  "text_Handle text_line h r s =
     (case (case th_prefix h of
              None \<Rightarrow> sink_Write (text_line (th_scopes h) r) s
            | Some pre \<Rightarrow> priorityWriter_Write pre (text_line (th_scopes h) r) s) of
        ((_, e), s) \<Rightarrow> (e, s))"

record priorityTextHandler =
  h_debug :: textHandler
  h_info :: textHandler
  h_warn :: textHandler
  h_err :: textHandler

definition handler :: "priorityTextHandler \<Rightarrow> int \<Rightarrow> textHandler" where
  "handler h level =
     (if LevelError \<le> level then h_err h
      else if LevelWarn \<le> level then h_warn h
      else if LevelInfo \<le> level then h_info h
      else h_debug h)"

definition priority_Enabled :: "priorityTextHandler \<Rightarrow> int \<Rightarrow> bool" where
  "priority_Enabled h level = text_Enabled (handler h level) level"

definition priority_Handle ::
  "(scope list \<Rightarrow> slog_record \<Rightarrow> string) \<Rightarrow> priorityTextHandler \<Rightarrow> slog_record \<Rightarrow> sink \<Rightarrow> err \<times> sink" where
  "priority_Handle text_line h r = text_Handle text_line (handler h (r_level r)) r"

definition priority_WithAttrs :: "attr list \<Rightarrow> priorityTextHandler \<Rightarrow> priorityTextHandler" where
  "priority_WithAttrs attrs h =
     \<lparr>h_debug = text_WithAttrs attrs (h_debug h), h_info = text_WithAttrs attrs (h_info h),
      h_warn = text_WithAttrs attrs (h_warn h), h_err = text_WithAttrs attrs (h_err h)\<rparr>"

definition priority_WithGroup :: "string \<Rightarrow> priorityTextHandler \<Rightarrow> priorityTextHandler" where
  "priority_WithGroup name h =
     \<lparr>h_debug = text_WithGroup name (h_debug h), h_info = text_WithGroup name (h_info h),
      h_warn = text_WithGroup name (h_warn h), h_err = text_WithGroup name (h_err h)\<rparr>"

datatype process_handler = Text textHandler | Priority priorityTextHandler

text \<open>With the lowest level of the options, that of \<open>nil\<close> options being \<open>LevelInfo\<close>.\<close>

definition newProcessLoggerWithOptions :: "bool \<Rightarrow> int option \<Rightarrow> process_handler" where
  "newProcessLoggerWithOptions journal options =
     (let level = (case options of None \<Rightarrow> LevelInfo | Some l \<Rightarrow> l);
          new = (\<lambda>pre. \<lparr>th_prefix = pre, th_min = level, th_scopes = []\<rparr>)
      in if \<not> journal then Text (new None)
         else Priority \<lparr>h_debug = new (Some ''<7>''), h_info = new (Some ''<6>''),
                h_warn = new (Some ''<4>''), h_err = new (Some ''<3>'')\<rparr>)"

definition newProcessLogger :: "bool \<Rightarrow> process_handler" where
  "newProcessLogger journal = newProcessLoggerWithOptions journal None"

definition journalStreamPresent :: "(string \<Rightarrow> string) \<Rightarrow> bool" where
  "journalStreamPresent Getenv \<longleftrightarrow> Getenv ''JOURNAL_STREAM'' \<noteq> []"

section \<open>The last words of the process\<close>

text \<open>\<open>strings.NewReplacer\<close> on the three line ends, the pair before its parts.\<close>

fun replace_line_ends :: "string \<Rightarrow> string" where
  "replace_line_ends [] = []"
| "replace_line_ends [c] = (if c = CR \<or> c = NL then ''; '' else [c])"
| "replace_line_ends (c # d # rest) =
     (if c = CR \<and> d = NL then ''; '' @ replace_line_ends rest
      else if c = CR \<or> c = NL then ''; '' @ replace_line_ends (d # rest)
      else c # replace_line_ends (d # rest))"

definition writeProcessError :: "(string \<Rightarrow> string) \<Rightarrow> bool \<Rightarrow> go_error \<Rightarrow> sink \<Rightarrow> sink" where
  "writeProcessError quote journal e s =
     (if journal then snd (sink_Write (''<3>'' @ replace_line_ends (errorText quote e) @ [NL]) s)
      else snd (sink_Write (errorText quote e @ [NL]) s))"

section \<open>Loggers made from the process logger\<close>

fun derive :: "scope \<Rightarrow> priorityTextHandler \<Rightarrow> priorityTextHandler" where
  "derive (Attrs attrs) h = priority_WithAttrs attrs h"
| "derive (Group name) h = priority_WithGroup name h"

fun scope_empty :: "scope \<Rightarrow> bool" where
  "scope_empty (Attrs attrs) \<longleftrightarrow> attrs = []"
| "scope_empty (Group name) \<longleftrightarrow> name = []"

text \<open>A logger asks its handler whether the level is enabled first.\<close>

definition logger_Log :: "(scope list \<Rightarrow> slog_record \<Rightarrow> string) \<Rightarrow> priorityTextHandler \<Rightarrow> sink \<Rightarrow> slog_record \<Rightarrow> sink" where
  "logger_Log text_line h s r = (if priority_Enabled h (r_level r) then snd (priority_Handle text_line h r s) else s)"

definition priority_of :: "int \<Rightarrow> string" where
  "priority_of level = (if 8 \<le> level then ''<3>'' else if 4 \<le> level then ''<4>'' else if 0 \<le> level then ''<6>'' else ''<7>'')"

definition level_handler :: "int \<Rightarrow> scope list \<Rightarrow> int \<Rightarrow> textHandler" where
  "level_handler lowest scopes level = \<lparr>th_prefix = Some (priority_of level), th_min = lowest, th_scopes = scopes\<rparr>"

text \<open>However a logger was derived, its four handlers differ in their prefixes only.\<close>

lemma handler_With:
  "handler (priority_WithAttrs attrs h) level = text_WithAttrs attrs (handler h level)"
  "handler (priority_WithGroup name h) level = text_WithGroup name (handler h level)"
  by (simp_all add: handler_def priority_WithAttrs_def priority_WithGroup_def)

lemma handler_derive: "(\<forall>level. handler h level = level_handler lowest scopes level) \<Longrightarrow>
    handler (derive sc h) level = level_handler lowest (scopes @ filter (\<lambda>sc. \<not> scope_empty sc) [sc]) level"
  by (cases sc) (simp_all add: handler_With level_handler_def text_WithAttrs_def text_WithGroup_def)

lemma handler_derived:
  "\<forall>level. handler h level = level_handler lowest scopes level \<Longrightarrow>
     handler (fold derive scs h) level = level_handler lowest (scopes @ filter (\<lambda>sc. \<not> scope_empty sc) scs) level"
proof (induction scs arbitrary: h scopes)
  case (Cons sc scs)
  have "\<forall>level. handler (derive sc h) level = level_handler lowest (scopes @ filter (\<lambda>sc. \<not> scope_empty sc) [sc]) level"
    using handler_derive [OF Cons.prems] by blast
  from Cons.IH [OF this] show ?case by simp
qed simp

lemma handler_process:
  "newProcessLoggerWithOptions True options = Priority h \<Longrightarrow>
     handler h level = level_handler (case options of None \<Rightarrow> LevelInfo | Some l \<Rightarrow> l) [] level"
  by (auto simp: newProcessLoggerWithOptions_def handler_def level_handler_def priority_of_def Let_def
      LevelError_def LevelWarn_def LevelInfo_def)

lemma logger_Log_works:
  assumes "\<forall>level. handler h level = level_handler lowest scopes level" "\<forall>k. sk_fault s k = None"
  shows "sk_written (logger_Log text_line h s r) =
      sk_written s @ (if lowest \<le> r_level r then priority_of (r_level r) @ text_line scopes r else [])"
    "sk_fault (logger_Log text_line h s r) = sk_fault s"
  using assms
  by (simp_all add: logger_Log_def priority_Enabled_def priority_Handle_def text_Enabled_def text_Handle_def
      level_handler_def priorityWriter_Write_def sink_Write_def)

text \<open>No line end is left in what the journal gets.\<close>

lemma replace_line_ends_clean: "NL \<notin> set (replace_line_ends s) \<and> CR \<notin> set (replace_line_ends s)"
  by (induction s rule: replace_line_ends.induct) auto

lemma replace_line_ends_id: "NL \<notin> set s \<Longrightarrow> CR \<notin> set s \<Longrightarrow> replace_line_ends s = s"
  by (induction s rule: replace_line_ends.induct) auto

section \<open>Properties\<close>

text \<open>
  C40. Under systemd every enabled record is written once, in order, with the priority of its level in front of
  its line, whatever attributes and groups the logger was extended with; records below the lowest level are
  not written. The error the process ends with is one line of priority 3 whatever line ends its message
  has.
\<close>

theorem journal_lines:
  assumes "newProcessLoggerWithOptions True options = Priority h" and "\<forall>k. sk_fault s k = None"
  shows "sk_written (foldl (logger_Log text_line (fold derive scs h)) s rs) = sk_written s @
      concat (map (\<lambda>r. priority_of (r_level r) @ text_line (filter (\<lambda>sc. \<not> scope_empty sc) scs) r)
        (filter (\<lambda>r. (case options of None \<Rightarrow> LevelInfo | Some l \<Rightarrow> l) \<le> r_level r) rs)) \<and>
    (\<exists>line. sk_written (writeProcessError quote True e s) = sk_written s @ ''<3>'' @ line @ [NL] \<and>
      NL \<notin> set line \<and> CR \<notin> set line)"
proof
  have h: "\<forall>level. handler (fold derive scs h) level =
      level_handler (case options of None \<Rightarrow> LevelInfo | Some l \<Rightarrow> l) (filter (\<lambda>sc. \<not> scope_empty sc) scs) level"
    using handler_derived [of h _ "[]"] handler_process [OF assms(1)] by simp
  show "sk_written (foldl (logger_Log text_line (fold derive scs h)) s rs) = sk_written s @
      concat (map (\<lambda>r. priority_of (r_level r) @ text_line (filter (\<lambda>sc. \<not> scope_empty sc) scs) r)
        (filter (\<lambda>r. (case options of None \<Rightarrow> LevelInfo | Some l \<Rightarrow> l) \<le> r_level r) rs))"
    using assms(2)
  proof (induction rs arbitrary: s)
    case (Cons r rs)
    from Cons.IH [of "logger_Log text_line (fold derive scs h) s r"] logger_Log_works [OF h Cons.prems, of text_line r] Cons.prems
    show ?case by simp
  qed simp
  show "\<exists>line. sk_written (writeProcessError quote True e s) = sk_written s @ ''<3>'' @ line @ [NL] \<and>
      NL \<notin> set line \<and> CR \<notin> set line"
    using assms(2) replace_line_ends_clean by (auto simp: writeProcessError_def sink_Write_def)
qed

theorem journal_lines_witness:
  "\<exists>h. newProcessLogger True = Priority h \<and>
     sk_written (foldl (logger_Log (\<lambda>_ r. r_message r @ [NL]) (fold derive [Attrs [(''a'', ''b'')]] h))
       \<lparr>sk_written = [], sk_calls = 0, sk_fault = (\<lambda>_. None)\<rparr>
       [\<lparr>r_level = 0, r_message = ''ready'', r_attrs = []\<rparr>, \<lparr>r_level = -4, r_message = ''detail'', r_attrs = []\<rparr>,
        \<lparr>r_level = 4, r_message = ''late'', r_attrs = []\<rparr>]) = ''<6>ready'' @ [NL] @ ''<4>late'' @ [NL]"
proof -
  obtain h where h: "newProcessLoggerWithOptions True None = Priority h"
    by (simp add: newProcessLoggerWithOptions_def Let_def)
  let ?s = "\<lparr>sk_written = [], sk_calls = 0, sk_fault = (\<lambda>_. None)\<rparr>"
  have "\<forall>k. sk_fault ?s k = None" by simp
  note journal_lines [OF h this, THEN conjunct1]
  then have "sk_written (foldl (logger_Log (\<lambda>_ r. r_message r @ [NL]) (fold derive [Attrs [(''a'', ''b'')]] h)) ?s
       [\<lparr>r_level = 0, r_message = ''ready'', r_attrs = []\<rparr>, \<lparr>r_level = -4, r_message = ''detail'', r_attrs = []\<rparr>,
        \<lparr>r_level = 4, r_message = ''late'', r_attrs = []\<rparr>]) = ''<6>ready'' @ [NL] @ ''<4>late'' @ [NL]"
    by (simp only:) (simp add: LevelInfo_def priority_of_def)
  with h show ?thesis by (simp only: newProcessLogger_def) blast
qed

end
