(* ===== verification/Wiring.thy ===== *)
theory Wiring
  imports Hosts_Lock Logging
begin

text \<open>
  How the process puts its parts together (\<open>cmd/sdhm/run.go\<close>): the lock around everything, the
  construction of the daemon from the command's configuration, and the regeneration of the hosts file.
\<close>

section \<open>Construction\<close>

text \<open>The store as the daemon sees it, through the interface \<open>daemon.HostStore\<close>.\<close>

definition HostStore_of ::
  "((renderedEndpoint \<Rightarrow> renderedEndpoint \<Rightarrow> int) \<Rightarrow> renderedEndpoint list \<Rightarrow> renderedEndpoint list) \<Rightarrow> Store \<Rightarrow> HostStore" where
  "HostStore_of srt s = \<lparr>st_Prepare = Prepare s, st_Apply = Apply srt s\<rparr>"

definition JoinHostPort :: "string \<Rightarrow> string \<Rightarrow> string" where
  "JoinHostPort host port =
     (if CHR '':'' \<in> set host then ''['' @ host @ '']:'' @ port else host @ '':'' @ port)"

text \<open>
  The functions that build the parts. A value is what the constructor returns; the tracker and the handler
  are built by \<open>NewTracker\<close> and served by \<open>handle_health\<close> on its snapshots, so only their
  place in the process shows here.
\<close>

record daemonWiring =
  lockHostsFile :: "string \<Rightarrow> locks \<Rightarrow> (go_error + string) \<times> locks"
  unlockHostsFile :: "string \<Rightarrow> locks \<Rightarrow> err \<times> locks"
  newDocker :: "go_error + NetworkSource iface"
  newStore :: "string \<Rightarrow> string \<Rightarrow> string \<Rightarrow> string \<Rightarrow> HostStore iface"
  newHealthServer :: "string \<Rightarrow> HealthServer iface"
  wr_runtime :: runtime

definition productionDaemonWiring ::
  "lockOps \<Rightarrow> nat \<Rightarrow> go_error + NetworkSource \<Rightarrow> fileOps \<Rightarrow> go_error + string \<Rightarrow>
     ((renderedEndpoint \<Rightarrow> renderedEndpoint \<Rightarrow> int) \<Rightarrow> renderedEndpoint list \<Rightarrow> renderedEndpoint list) \<Rightarrow>
     (string \<Rightarrow> HealthServer) \<Rightarrow> runtime \<Rightarrow> daemonWiring" where
  "productionDaemonWiring lops pid docker_New fops os_Hostname srt health_NewServer rt =
     \<lparr>lockHostsFile = acquireHostsLock lops pid, unlockHostsFile = closeLock lops,
      newDocker = map_sum id (\<lambda>client. Value KPointer (Some client)) docker_New,
      newStore = (\<lambda>hosts_path backup_path section_name network.
        Value KPointer (Some (HostStore_of srt (NewStore fops os_Hostname hosts_path backup_path section_name network)))),
      newHealthServer = (\<lambda>addr. Value KPointer (Some (health_NewServer addr))),
      wr_runtime = rt\<rparr>"

definition daemon_config_of :: "command_Config \<Rightarrow> daemon_Config" where
  "daemon_config_of cfg =
     \<lparr>dc_Networks = Networks cfg, dc_DefaultNetwork = DefaultNetwork cfg, dc_PeriodicInterval = PeriodicInterval cfg,
      dc_DebounceDelay = DebounceDelay cfg, dc_MaxDebounceDelay = MaxDebounceDelay cfg\<rparr>"

section \<open>The two commands\<close>

definition joinHostsLockClose :: "daemonWiring \<Rightarrow> err \<Rightarrow> string \<Rightarrow> string \<Rightarrow> locks \<Rightarrow> err \<times> locks" where
  "joinHostsLockClose wiring primary lock hosts_path lks =
     (case unlockHostsFile wiring lock lks of
        (Some e, lks) \<Rightarrow>
          (errors_Join [primary, Some (Wrapf [Lit ''close hosts lock for '', Quoted hosts_path, Lit '': ''] e [])], lks)
      | (None, lks) \<Rightarrow> (primary, lks))"

text \<open>What runs while the lock is held; \<open>None\<close> when the run has not returned with the given fuel.\<close>

definition runLocked :: "ctx \<Rightarrow> command_Config \<Rightarrow> daemonWiring \<Rightarrow> nat \<Rightarrow> process \<Rightarrow> (err \<times> process) option" where
  "runLocked parent cfg wiring fuel p =
     (case newDocker wiring of
        Inl e \<Rightarrow> Some (Some (wrap ''create Docker source: '' e), p)
      | Inr source \<Rightarrow>
          (let store = newStore wiring (HostsFile cfg) (BackupFile cfg) (SectionName cfg) (DefaultNetwork cfg);
               p = p\<lparr>p_tracker := NewTracker\<rparr>;
               server = newHealthServer wiring (JoinHostPort (HealthAddr cfg) (Itoa (HealthPort cfg)))
           in case New (wr_runtime wiring) (daemon_config_of cfg) source store False server False of
                Inl e \<Rightarrow>
                  (let constructionErr = wrap ''construct daemon: '' e in
                   case src_Close (the (content source)) (instant p) of
                     (closeErr, n) \<Rightarrow>
                       Some (errors_Join [Some constructionErr,
                           map_option (wrap ''close Docker source after failed daemon construction: '') closeErr],
                         called CallClose n p))
              | Inr d \<Rightarrow>
                  (case Run d parent fuel p of
                     None \<Rightarrow> None
                   | Some (Some e, p) \<Rightarrow> Some (Some e, p)
                   | Some (None, p) \<Rightarrow> Some (None, logged (Info ''SDHM stopped'' []) p))))"

definition runDaemonWith ::
  "ctx \<Rightarrow> command_Config \<Rightarrow> daemonWiring \<Rightarrow> nat \<Rightarrow> process \<times> locks \<Rightarrow> (err \<times> process \<times> locks) option" where
  "runDaemonWith parent cfg wiring fuel = (\<lambda>(p, lks).
     case lockHostsFile wiring (HostsFile cfg) lks of
       (Inl e, lks) \<Rightarrow>
         Some (Some (Wrapf [Lit ''acquire hosts lock for '', Quoted (HostsFile cfg), Lit '': ''] e []), p, lks)
     | (Inr lock, lks) \<Rightarrow>
         (case runLocked parent cfg wiring fuel p of
            None \<Rightarrow> None
          | Some (result, p) \<Rightarrow>
              (case joinHostsLockClose wiring result lock (HostsFile cfg) lks of
                 (result, lks) \<Rightarrow> Some (result, p, lks))))"

definition rootWarning :: "int \<Rightarrow> process \<Rightarrow> process" where
  "rootWarning euid p = (if euid \<noteq> 0 then logged (Warn ''SDHM should run as root to modify the hosts file'' []) p else p)"

definition logStartup :: "string \<Rightarrow> command_Config \<Rightarrow> process \<Rightarrow> process" where
  "logStartup version cfg p =
     logged (Info ''starting SDHM''
       [(''version'', LogText version), (''networks'', LogTexts (Networks cfg)), (''default_network'', LogText (DefaultNetwork cfg)),
        (''interval'', LogDuration (PeriodicInterval cfg)),
        (''health_addr'', LogText (JoinHostPort (HealthAddr cfg) (Itoa (HealthPort cfg))))]) p"

definition runDaemon ::
  "string \<Rightarrow> int \<Rightarrow> ctx \<Rightarrow> command_Config \<Rightarrow> daemonWiring \<Rightarrow> nat \<Rightarrow> process \<times> locks \<Rightarrow> (err \<times> process \<times> locks) option" where
  "runDaemon version euid parent cfg wiring fuel = (\<lambda>(p, lks).
     runDaemonWith parent cfg wiring fuel (logStartup version cfg (rootWarning euid p), lks))"

definition regenerateHostsWith ::
  "ctx \<Rightarrow> RegenerateConfig \<Rightarrow> daemonWiring \<Rightarrow> (string \<Rightarrow> string \<Rightarrow> string \<Rightarrow> string \<Rightarrow> Store) \<Rightarrow> world \<times> locks \<Rightarrow>
     err \<times> world \<times> locks" where
  "regenerateHostsWith c cfg wiring new_store = (\<lambda>(w, lks).
     case lockHostsFile wiring (rc_HostsFile cfg) lks of
       (Inl e, lks) \<Rightarrow> (Some (Wrapf [Lit ''acquire hosts lock for '', Quoted (rc_HostsFile cfg), Lit '': ''] e []), w, lks)
     | (Inr lock, lks) \<Rightarrow>
         (case Regenerate (new_store (rc_HostsFile cfg) (rc_BackupFile cfg) (rc_SectionName cfg) []) c w of
            (e, w) \<Rightarrow>
              (case joinHostsLockClose wiring (map_option (wrap ''regenerate hosts file: '') e) lock (rc_HostsFile cfg) lks of
                 (result, lks) \<Rightarrow> (result, w, lks))))"

definition regenerateHosts ::
  "int \<Rightarrow> ctx \<Rightarrow> RegenerateConfig \<Rightarrow> daemonWiring \<Rightarrow> (string \<Rightarrow> string \<Rightarrow> string \<Rightarrow> string \<Rightarrow> Store) \<Rightarrow> process \<times> locks \<Rightarrow>
     err \<times> process \<times> locks" where
  "regenerateHosts euid c cfg wiring new_store = (\<lambda>(p, lks).
     let p = logged (Info ''regenerating hosts file'' [(''path'', LogText (rc_HostsFile cfg))]) (rootWarning euid p)
     in case regenerateHostsWith c cfg wiring new_store (p_world p, lks) of
          (Some e, w, lks) \<Rightarrow> (Some e, p\<lparr>p_world := w\<rparr>, lks)
        | (None, w, lks) \<Rightarrow>
            (None, logged (Info ''hosts file regenerated'' [(''path'', LogText (rc_HostsFile cfg))]) (p\<lparr>p_world := w\<rparr>), lks))"

text \<open>The end of \<open>main\<close>: the exit code, and what was written to the standard error stream.\<close>

definition main_exit :: "(string \<Rightarrow> string) \<Rightarrow> bool \<Rightarrow> err \<Rightarrow> sink \<Rightarrow> int \<times> sink" where
  "main_exit quote journal executed stderr =
     (case executed of None \<Rightarrow> (0, stderr) | Some e \<Rightarrow> (1, writeProcessError quote journal e stderr))"

section \<open>Commands under the lock\<close>

lemma joinHostsLockClose_locks:
  "joinHostsLockClose wiring res lock h lks = (r, lks') \<Longrightarrow> \<exists>e. unlockHostsFile wiring lock lks = (e, lks')"
  by (auto simp: joinHostsLockClose_def split: option.splits prod.splits)

lemma runDaemonWith_locks:
  assumes "runDaemonWith parent cfg wiring fuel (p, lks) = Some (r, p', lks')"
  shows "(\<exists>e. lockHostsFile wiring (HostsFile cfg) lks = (Inl e, lks')) \<and> p' = p \<and> r \<noteq> None \<or>
    (\<exists>lock l1 e. lockHostsFile wiring (HostsFile cfg) lks = (Inr lock, l1) \<and> unlockHostsFile wiring lock l1 = (e, lks'))"
  using assms joinHostsLockClose_locks
  by (fastforce simp: runDaemonWith_def split: prod.splits sum.splits option.splits)

lemma regenerateHostsWith_locks:
  assumes "regenerateHostsWith c cfg wiring new_store (w, lks) = (r, w', lks')"
  shows "(\<exists>e. lockHostsFile wiring (rc_HostsFile cfg) lks = (Inl e, lks')) \<and> w' = w \<and> r \<noteq> None \<or>
    (\<exists>lock l1 e. lockHostsFile wiring (rc_HostsFile cfg) lks = (Inr lock, l1) \<and> unlockHostsFile wiring lock l1 = (e, lks'))"
  using assms joinHostsLockClose_locks
  by (fastforce simp: regenerateHostsWith_def split: prod.splits sum.splits)

section \<open>Accepted configurations\<close>

lemma validateConfigLoop_iff:
  "validateConfigLoop def seen found ns = Inr b \<longleftrightarrow>
     list_all normal_network ns \<and> distinct ns \<and> set ns \<inter> seen = {} \<and> b = (found \<or> def \<in> set ns)"
  by (induction def seen found ns rule: validateConfigLoop.induct) (auto simp: normal_network_def)

lemma validateConfig_iff:
  "validateConfig cfg = None \<longleftrightarrow>
     validateNetworks (dc_Networks cfg) (dc_DefaultNetwork cfg) = None \<and>
     0 < dc_PeriodicInterval cfg \<and> 0 < dc_DebounceDelay cfg \<and> dc_DebounceDelay cfg \<le> dc_MaxDebounceDelay cfg"
proof (cases "validateConfigLoop (dc_DefaultNetwork cfg) {} False (dc_Networks cfg)")
  case (Inl e)
  then have "\<not> (list_all normal_network (dc_Networks cfg) \<and> distinct (dc_Networks cfg))"
    using validateConfigLoop_iff [of "dc_DefaultNetwork cfg" "{}" False "dc_Networks cfg"] by auto
  with Inl show ?thesis by (auto simp: validateConfig_def validateNetworks_iff)
next
  case (Inr b)
  with validateConfigLoop_iff [of "dc_DefaultNetwork cfg" "{}" False "dc_Networks cfg" b]
  show ?thesis by (auto simp: validateConfig_def validateNetworks_iff)
qed

lemma rootOptions_config_valid: "rootOptions_config opts changed = Inr cfg \<Longrightarrow> Validate cfg = None"
  by (auto simp: rootOptions_config_def Let_def split: sum.splits option.splits if_splits prod.splits)

lemma normal_network_renders: "normal_network n \<Longrightarrow> validateNetwork n = None"
  by (auto simp: normal_network_def validateNetwork_def validateHostnamePart_def AnyRune_def delimiter_rune_def
      invalidNetworkRune_def list_ex_iff)

end
