(* ===== verification/Main_Program.thy ===== *)
theory Main_Program
  imports Wiring
begin

text \<open>
  The program (\<open>cmd/sdhm/main.go\<close>) and its command tree (\<open>command/root.go\<close>). Cobra is third-party: what it makes
  of the arguments, given the version and the flags of the tree with their defaults, is a parameter.
\<close>

section \<open>The command tree\<close>

text \<open>
  The arguments ask for the version or for help, which cobra prints itself; they are refused; or they select one of
  the two commands with its options, and for the root command whether the default network was given.
\<close>

datatype invocation = Printed string | Misused go_error | RootCommand rootOptions bool | RegenerateCommand regenerateOptions

type_synonym cobra = "string \<Rightarrow> rootOptions \<Rightarrow> regenerateOptions \<Rightarrow> string list \<Rightarrow> invocation"

record 'w command_tree =
  ct_Version :: string
  ct_flags :: rootOptions
  ct_RunE :: "rootOptions \<Rightarrow> bool \<Rightarrow> 'w \<Rightarrow> err \<times> 'w"
  ct_regenerate_flags :: regenerateOptions
  ct_regenerate_RunE :: "regenerateOptions \<Rightarrow> 'w \<Rightarrow> err \<times> 'w"

definition newRegenerateCommand ::
  "(RegenerateConfig \<Rightarrow> 'w \<Rightarrow> err \<times> 'w) option \<Rightarrow> regenerateOptions \<times> (regenerateOptions \<Rightarrow> 'w \<Rightarrow> err \<times> 'w)" where
  "newRegenerateCommand regenerate = (regenerate_flags, newRegenerateCommand_RunE regenerate)"

definition NewRoot ::
  "string \<Rightarrow> (command_Config \<Rightarrow> 'w \<Rightarrow> err \<times> 'w) option \<Rightarrow> (RegenerateConfig \<Rightarrow> 'w \<Rightarrow> err \<times> 'w) option \<Rightarrow> 'w command_tree" where
  "NewRoot vers run regenerate =
     \<lparr>ct_Version = vers, ct_flags = root_flags, ct_RunE = NewRoot_RunE run,
      ct_regenerate_flags = fst (newRegenerateCommand regenerate), ct_regenerate_RunE = snd (newRegenerateCommand regenerate)\<rparr>"

definition ExecuteContext :: "cobra \<Rightarrow> 'w command_tree \<Rightarrow> string list \<Rightarrow> 'w \<Rightarrow> err \<times> 'w" where
  "ExecuteContext parse tree args w =
     (case parse (ct_Version tree) (ct_flags tree) (ct_regenerate_flags tree) args of
        Printed t \<Rightarrow> (None, w)
      | Misused e \<Rightarrow> (Some e, w)
      | RootCommand opts changed \<Rightarrow> ct_RunE tree opts changed w
      | RegenerateCommand opts \<Rightarrow> ct_regenerate_RunE tree opts w)"

section \<open>The program\<close>

definition version :: string where "version = ''0.0.0-dev''"

text \<open>
  The commands act on the process and the locks; after a daemon that has not returned with the given fuel there is no
  such state. The context is the one the signals cancel.
\<close>

type_synonym machine_state = "(process \<times> locks) option"

definition run_command ::
  "int \<Rightarrow> ctx \<Rightarrow> daemonWiring \<Rightarrow> nat \<Rightarrow> command_Config \<Rightarrow> machine_state \<Rightarrow> err \<times> machine_state" where
  "run_command euid c wiring fuel cfg m =
     (case Option.bind m (runDaemon version euid c cfg wiring fuel) of
        None \<Rightarrow> (None, None)
      | Some (e, p, lks) \<Rightarrow> (e, Some (p, lks)))"

definition regenerate_command ::
  "int \<Rightarrow> ctx \<Rightarrow> daemonWiring \<Rightarrow> (string \<Rightarrow> string \<Rightarrow> string \<Rightarrow> string \<Rightarrow> Store) \<Rightarrow> RegenerateConfig \<Rightarrow> machine_state \<Rightarrow>
     err \<times> machine_state" where
  "regenerate_command euid c wiring new_store cfg m =
     (case map_option (regenerateHosts euid c cfg wiring new_store) m of
        None \<Rightarrow> (None, None)
      | Some (e, p, lks) \<Rightarrow> (e, Some (p, lks)))"

definition sdhm_main ::
  "cobra \<Rightarrow> (string \<Rightarrow> string) \<Rightarrow> (string \<Rightarrow> string) \<Rightarrow> int \<Rightarrow> ctx \<Rightarrow> daemonWiring \<Rightarrow>
     (string \<Rightarrow> string \<Rightarrow> string \<Rightarrow> string \<Rightarrow> Store) \<Rightarrow> nat \<Rightarrow> string list \<Rightarrow> process \<times> locks \<Rightarrow> sink \<Rightarrow>
     (int \<times> (process \<times> locks) \<times> sink) option" where
  "sdhm_main parse Getenv quote euid c wiring new_store fuel args m stderr =
     (let root = NewRoot version (Some (run_command euid c wiring fuel)) (Some (regenerate_command euid c wiring new_store))
      in case ExecuteContext parse root args (Some m) of
           (e, None) \<Rightarrow> None
         | (e, Some m) \<Rightarrow>
             (case main_exit quote (journalStreamPresent Getenv) e stderr of (code, stderr) \<Rightarrow> Some (code, m, stderr)))"

section \<open>How the program ends\<close>

text \<open>What the arguments amount to: nothing to do, a refusal, or a configuration to run.\<close>

datatype request = NoRequest | RefusedRequest go_error | DaemonRequest command_Config | RegenerateRequest RegenerateConfig

definition request_of :: "cobra \<Rightarrow> string list \<Rightarrow> request" where
  "request_of parse args =
     (case parse version root_flags regenerate_flags args of
        Printed t \<Rightarrow> NoRequest
      | Misused e \<Rightarrow> RefusedRequest e
      | RootCommand opts changed \<Rightarrow> (case rootOptions_config opts changed of Inl e \<Rightarrow> RefusedRequest e | Inr cfg \<Rightarrow> DaemonRequest cfg)
      | RegenerateCommand opts \<Rightarrow> (case regenerateOptions_config opts of Inl e \<Rightarrow> RefusedRequest e | Inr cfg \<Rightarrow> RegenerateRequest cfg))"

text \<open>The last words: a line on the standard error stream, and one line only for the journal.\<close>

definition last_words :: "bool \<Rightarrow> string \<Rightarrow> bool" where
  "last_words journal out \<longleftrightarrow> (\<exists>text. out = text @ [NL] \<and>
     (if journal then take 3 text = ''<3>'' \<and> NL \<notin> set text \<and> CR \<notin> set text else True))"

lemma main_exit_words:
  assumes "main_exit quote journal e stderr = (code, stderr')" "\<forall>k. sk_fault stderr k = None"
  shows "(code = 0 \<longleftrightarrow> e = None) \<and>
    (if code = 0 then stderr' = stderr
     else code = 1 \<and> (\<exists>out. sk_written stderr' = sk_written stderr @ out \<and> last_words journal out))"
  using assms replace_line_ends_clean
  by (auto simp: main_exit_def writeProcessError_def sink_Write_def last_words_def numeral_eq_Suc split: option.splits if_splits)

lemma main_execute:
  assumes "ExecuteContext parse (NewRoot version (Some (run_command euid c wiring fuel)) (Some (regenerate_command euid c wiring new_store)))
      args (Some (p, lks)) = (e, Some (p', lks'))"
  shows "case request_of parse args of
      NoRequest \<Rightarrow> e = None \<and> p' = p \<and> lks' = lks
    | RefusedRequest x \<Rightarrow> e = Some x \<and> p' = p \<and> lks' = lks
    | DaemonRequest cfg \<Rightarrow> runDaemon version euid c cfg wiring fuel (p, lks) = Some (e, p', lks')
    | RegenerateRequest cfg \<Rightarrow> regenerateHosts euid c cfg wiring new_store (p, lks) = (e, p', lks')"
  using assms
  by (auto simp: ExecuteContext_def NewRoot_def newRegenerateCommand_def NewRoot_RunE_def newRegenerateCommand_RunE_def
      run_command_def regenerate_command_def request_of_def split: invocation.splits sum.splits option.splits prod.splits)

lemma regenerateHosts_ways:
  assumes "regenerateHosts euid c cfg wiring new_store (p, lks) = (e, p', lks')"
  shows "p_world p' = p_world p \<and> e \<noteq> None \<or>
    (\<exists>e1. Regenerate (new_store (rc_HostsFile cfg) (rc_BackupFile cfg) (rc_SectionName cfg) []) c (p_world p) = (e1, p_world p') \<and>
      (e = None \<longrightarrow> e1 = None))"
proof -
  have w: "p_world (logged x (rootWarning euid p)) = p_world p" for x by (simp add: logged_def rootWarning_def)
  have none: "e1 = None" if "joinHostsLockClose wiring (map_option f e1) lock h l = (None, l')" for f lock h l l' and e1 :: err
    using that by (auto simp: joinHostsLockClose_def errors_Join_def split: option.splits prod.splits if_splits)
  from assms w none show ?thesis
    by (auto simp: regenerateHosts_def regenerateHostsWith_def Let_def logged_def split: prod.splits sum.splits option.splits)
qed

lemma main_execute_request:
  assumes "sdhm_main parse Getenv quote euid c wiring new_store fuel args (p, lks) stderr = Some (code, (p', lks'), stderr')"
  obtains e where "main_exit quote (journalStreamPresent Getenv) e stderr = (code, stderr')"
    and "case request_of parse args of
      NoRequest \<Rightarrow> e = None \<and> p' = p \<and> lks' = lks
    | RefusedRequest x \<Rightarrow> e = Some x \<and> p' = p \<and> lks' = lks
    | DaemonRequest cfg \<Rightarrow> runDaemon version euid c cfg wiring fuel (p, lks) = Some (e, p', lks')
    | RegenerateRequest cfg \<Rightarrow> regenerateHosts euid c cfg wiring new_store (p, lks) = (e, p', lks')"
proof -
  from assms obtain e where "ExecuteContext parse
      (NewRoot version (Some (run_command euid c wiring fuel)) (Some (regenerate_command euid c wiring new_store)))
      args (Some (p, lks)) = (e, Some (p', lks'))" "main_exit quote (journalStreamPresent Getenv) e stderr = (code, stderr')"
    by (auto simp: sdhm_main_def Let_def split: prod.splits option.splits)
  with main_execute that show thesis by blast
qed

end
