(* ===== verification/Docker.thy ===== *)
theory Docker
  imports Daemon "HOL-Library.Product_Lexorder"
begin

text \<open>
  The Docker source of the daemon (\<open>docker/client.go\<close>): \<open>Ping\<close> and \<open>Snapshot\<close> of the client. The Moby client behind it is third-party code: its calls are the fields of \<open>apiClient\<close>, and
  \<open>errdefs.IsNotFound\<close> is a parameter.
\<close>

section \<open>The client\<close>

record EndpointSettings =
  es_IPAddress :: addr
  es_GlobalIPv6Address :: addr
  es_Aliases :: "string list"

text \<open>
  \<open>Container.NetworkSettings\<close> of an inspection: nil, or a map from network names to pointers, which may be
  nil.
\<close>

record ContainerInspectResult =
  cr_NetworkSettings :: "(string \<Rightarrow> EndpointSettings option option) option"

text \<open>
  The calls start at an instant and, but for the inspections, return with the instant they end at. The
  inspections of one snapshot run in parallel; \<open>c_inspect_at\<close> is the instant at which the runtime makes
  the \<open>i\<close>-th of them, and \<open>c_inspected\<close> when the last is done.
\<close>

record ContainerListOptions =
  lo_All :: bool
  lo_Filters :: "(string \<times> string list) list"

record apiClient =
  api_Ping :: "ctx \<Rightarrow> nat \<Rightarrow> err \<times> nat"
  api_ContainerList :: "ctx \<Rightarrow> ContainerListOptions \<Rightarrow> nat \<Rightarrow> (go_error + string list) \<times> nat"
  api_ContainerInspect :: "ctx \<Rightarrow> string \<Rightarrow> nat \<Rightarrow> go_error + ContainerInspectResult"
  api_Close :: "nat \<Rightarrow> err \<times> nat"

record Client =
  c_api :: apiClient
  c_IsNotFound :: "go_error \<Rightarrow> bool"
  c_inspect_at :: "nat \<Rightarrow> nat \<Rightarrow> nat"
  c_inspected :: "nat \<Rightarrow> nat"

definition newClient :: "(go_error \<Rightarrow> bool) \<Rightarrow> (nat \<Rightarrow> nat \<Rightarrow> nat) \<Rightarrow> (nat \<Rightarrow> nat) \<Rightarrow> apiClient \<Rightarrow> Client" where
  "newClient IsNotFound inspect_at inspected api =
     \<lparr>c_api = api, c_IsNotFound = IsNotFound, c_inspect_at = inspect_at, c_inspected = inspected\<rparr>"

text \<open>The Moby client for the default host, or why there is none, is a parameter.\<close>

definition docker_New ::
  "go_error + apiClient \<Rightarrow> (go_error \<Rightarrow> bool) \<Rightarrow> (nat \<Rightarrow> nat \<Rightarrow> nat) \<Rightarrow> (nat \<Rightarrow> nat) \<Rightarrow> go_error + Client" where
  "docker_New mobyclient_New IsNotFound inspect_at inspected =
     (case mobyclient_New of
        Inl e \<Rightarrow> Inl (wrap ''creating Docker client: '' e)
      | Inr api \<Rightarrow> Inr (newClient IsNotFound inspect_at inspected api))"

definition docker_Ping :: "Client \<Rightarrow> ctx \<Rightarrow> nat \<Rightarrow> err \<times> nat" where
  "docker_Ping cl c n =
     (case api_Ping (c_api cl) c n of (e, n) \<Rightarrow> (map_option (wrap ''pinging Docker daemon: '') e, n))"

definition requireNetworks :: "string list \<Rightarrow> err" where
  "requireNetworks networks =
     (if networks = [] then Some (errors_New ''at least one Docker network is required'') else None)"

text \<open>The loop of \<open>normalizeAliases\<close>; the aliases seen are those collected.\<close>

fun normalizeLoop :: "string list \<Rightarrow> string list \<Rightarrow> string list" where
  "normalizeLoop normalized [] = normalized"
| "normalizeLoop normalized (alias # rest) =
     (if alias = [] then normalizeLoop normalized rest
      else if alias \<in> set normalized then normalizeLoop normalized rest
      else normalizeLoop (normalized @ [alias]) rest)"

definition normalizeAliases :: "string list \<Rightarrow> string list" where
  "normalizeAliases aliases = sort (normalizeLoop [] aliases)"

text \<open>The endpoint of a container on one network, if it has one with an address and an alias.\<close>

definition networkEndpoint :: "(string \<Rightarrow> EndpointSettings option option) \<Rightarrow> string \<Rightarrow> endpoint list" where
  "networkEndpoint nets networkName =
     (case nets networkName of
        None \<Rightarrow> []
      | Some None \<Rightarrow> []
      | Some (Some settings) \<Rightarrow>
          (let ip = (if \<not> Is4 (es_IPAddress settings) then es_GlobalIPv6Address settings else es_IPAddress settings)
           in if \<not> Is4 (es_IPAddress settings) \<and> \<not> Is6 ip then []
              else let aliases = normalizeAliases (es_Aliases settings)
                   in if aliases = [] then [] else [\<lparr>Network = networkName, IP = ip, Aliases = aliases\<rparr>]))"

definition containerEndpoints :: "string list \<Rightarrow> ContainerInspectResult \<Rightarrow> endpoint list" where
  "containerEndpoints networks inspected =
     (case cr_NetworkSettings inspected of
        None \<Rightarrow> []
      | Some nets \<Rightarrow> concat (map (networkEndpoint nets) networks))"

text \<open>The loop over the containers: a container that is gone is skipped, any other error ends the snapshot.\<close>

fun collectEndpoints ::
  "(go_error \<Rightarrow> bool) \<Rightarrow> string list \<Rightarrow> (string \<times> (go_error + ContainerInspectResult)) list \<Rightarrow> endpoint list \<Rightarrow>
     go_error + endpoint list" where
  "collectEndpoints notFound networks [] endpoints = Inr endpoints"
| "collectEndpoints notFound networks ((ID, outcome) # rest) endpoints =
     (case outcome of
        Inl e \<Rightarrow>
          if notFound e then collectEndpoints notFound networks rest endpoints
          else Inl (Wrapf [Lit ''inspecting Docker container '', Quoted ID, Lit '': ''] e [])
      | Inr inspected \<Rightarrow> collectEndpoints notFound networks rest (endpoints @ containerEndpoints networks inspected))"

fun networkOrderLoop :: "int \<Rightarrow> (string \<Rightarrow> int option) \<Rightarrow> string list \<Rightarrow> string \<Rightarrow> int option" where
  "networkOrderLoop i order [] = order"
| "networkOrderLoop i order (network # rest) =
     networkOrderLoop (i + 1) (if order network = None then order(network \<mapsto> i) else order) rest"

text \<open>The lookup in \<open>networkOrder\<close>, with the zero value for other networks.\<close>

definition networkOrder :: "string list \<Rightarrow> string \<Rightarrow> int" where
  "networkOrder networks name = (case networkOrderLoop 0 (\<lambda>_. None) networks name of None \<Rightarrow> 0 | Some i \<Rightarrow> i)"

definition snapshot_cmp :: "string list \<Rightarrow> endpoint \<Rightarrow> endpoint \<Rightarrow> int" where
  "snapshot_cmp networks a b =
     (let order = networkOrder networks (Network a) - networkOrder networks (Network b)
      in if order \<noteq> 0 then order
         else let address = addr_Compare (IP a) (IP b)
              in if address \<noteq> 0 then address else cmp_Compare (Aliases a) (Aliases b))"

definition inspectOutcomes :: "Client \<Rightarrow> ctx \<Rightarrow> nat \<Rightarrow> string list \<Rightarrow> (string \<times> (go_error + ContainerInspectResult)) list" where
  "inspectOutcomes cl c n items =
     map (\<lambda>i. (items ! i, api_ContainerInspect (c_api cl) c (items ! i) (c_inspect_at cl n i))) [0..<length items]"

text \<open>Only running containers are listed, and only those on the networks.\<close>

definition list_options :: "string list \<Rightarrow> ContainerListOptions" where
  "list_options networks = \<lparr>lo_All = False, lo_Filters = [(''network'', networks)]\<rparr>"

definition docker_Snapshot ::
  "((endpoint \<Rightarrow> endpoint \<Rightarrow> int) \<Rightarrow> endpoint list \<Rightarrow> endpoint list) \<Rightarrow>
     Client \<Rightarrow> ctx \<Rightarrow> string list \<Rightarrow> nat \<Rightarrow> (go_error + endpoint list) \<times> nat" where
  "docker_Snapshot SortFunc cl c networks n =
     (case requireNetworks networks of
        Some e \<Rightarrow> (Inl e, n)
      | None \<Rightarrow>
          (case api_ContainerList (c_api cl) c (list_options networks) n of
             (Inl e, n) \<Rightarrow> (Inl (wrap ''listing Docker containers: '' e), n)
           | (Inr items, n) \<Rightarrow>
               (case collectEndpoints (c_IsNotFound cl) networks (inspectOutcomes cl c n items) [] of
                  Inl e \<Rightarrow> (Inl e, c_inspected cl n)
                | Inr endpoints \<Rightarrow> (Inr (SortFunc (snapshot_cmp networks) endpoints), c_inspected cl n))))"

section \<open>Aliases\<close>

lemma normalizeLoop_spec:
  assumes "distinct normalized" "[] \<notin> set normalized"
  shows "distinct (normalizeLoop normalized as) \<and> set (normalizeLoop normalized as) = set normalized \<union> (set as - {[]})"
  using assms by (induction normalized as rule: normalizeLoop.induct) auto

lemma normalizeAliases_spec:
  "sorted_wrt (<) (normalizeAliases as)" "set (normalizeAliases as) = set as - {[]}"
  using normalizeLoop_spec [of "[]" as] by (simp_all add: normalizeAliases_def strict_sorted_iff)

section \<open>What a snapshot holds\<close>

definition well_formed :: "string list \<Rightarrow> endpoint \<Rightarrow> bool" where
  "well_formed networks ep \<longleftrightarrow> Network ep \<in> set networks \<and> IsValid (IP ep) \<and>
     Aliases ep \<noteq> [] \<and> sorted_wrt (<) (Aliases ep) \<and> [] \<notin> set (Aliases ep)"

lemma networkEndpoint_well_formed:
  "ep \<in> set (networkEndpoint nets name) \<Longrightarrow> name \<in> set networks \<Longrightarrow> well_formed networks ep"
  using normalizeAliases_spec
  by (auto simp: networkEndpoint_def well_formed_def Let_def IsValid_def split: option.splits if_splits)

lemma containerEndpoints_well_formed: "ep \<in> set (containerEndpoints networks r) \<Longrightarrow> well_formed networks ep"
  using networkEndpoint_well_formed by (auto simp: containerEndpoints_def split: option.splits)

definition outcome_endpoints :: "string list \<Rightarrow> string \<times> (go_error + ContainerInspectResult) \<Rightarrow> endpoint list" where
  "outcome_endpoints networks x = (case snd x of Inl _ \<Rightarrow> [] | Inr r \<Rightarrow> containerEndpoints networks r)"

definition gone_or_inspected :: "Client \<Rightarrow> string \<times> (go_error + ContainerInspectResult) \<Rightarrow> bool" where
  "gone_or_inspected cl x \<longleftrightarrow> (case snd x of Inl e \<Rightarrow> c_IsNotFound cl e | Inr _ \<Rightarrow> True)"

text \<open>The loop succeeds exactly when every failed inspection is of a container that is gone.\<close>

lemma collectEndpoints_iff:
  "collectEndpoints nf networks xs acc = Inr eps \<longleftrightarrow>
     list_all (\<lambda>x. case snd x of Inl e \<Rightarrow> nf e | Inr _ \<Rightarrow> True) xs \<and>
     eps = acc @ concat (map (outcome_endpoints networks) xs)"
  by (induction nf networks xs acc rule: collectEndpoints.induct)
     (auto simp: outcome_endpoints_def split: sum.splits)

lemma networkOrderLoop_keep: "order x = Some j \<Longrightarrow> networkOrderLoop i order ns x = Some j"
proof (induction i order ns rule: networkOrderLoop.induct)
  case (2 i order network rest)
  then have "(if order network = None then order(network \<mapsto> i) else order) x = Some j" by auto
  with 2(1) show ?case by simp
qed simp

text \<open>Different networks of the list have different places in it.\<close>

lemma networkOrderLoop_new:
  "order x = None \<Longrightarrow> x \<in> set ns \<Longrightarrow> \<exists>j\<ge>i. networkOrderLoop i order ns x = Some j \<and> ns ! nat (j - i) = x \<and> nat (j - i) < length ns"
proof (induction i order ns rule: networkOrderLoop.induct)
  case (2 i order network rest)
  show ?case
  proof (cases "x = network")
    case True
    then show ?thesis using 2 networkOrderLoop_keep [of "order(network \<mapsto> i)" x i "i + 1" rest] by auto
  next
    case False
    let ?order = "if order network = None then order(network \<mapsto> i) else order"
    from False 2(2,3) have "?order x = None" "x \<in> set rest" by auto
    from 2(1) [OF this] obtain j where j: "i + 1 \<le> j" "networkOrderLoop (i + 1) ?order rest x = Some j"
      "rest ! nat (j - (i + 1)) = x" "nat (j - (i + 1)) < length rest" by blast
    moreover have "nat (j - i) = Suc (nat (j - (i + 1)))" using j(1) by simp
    ultimately show ?thesis by auto
  qed
qed simp

lemma networkOrder_inj:
  assumes "a \<in> set networks" "b \<in> set networks" "networkOrder networks a = networkOrder networks b"
  shows "a = b"
proof -
  obtain i j where "networkOrderLoop 0 (\<lambda>_. None) networks a = Some i" "networks ! nat i = a"
    "networkOrderLoop 0 (\<lambda>_. None) networks b = Some j" "networks ! nat j = b"
    using networkOrderLoop_new [of "\<lambda>_. None" a networks 0] networkOrderLoop_new [of "\<lambda>_. None" b networks 0] assms(1,2) by auto
  with assms(3) show ?thesis by (simp add: networkOrder_def)
qed

lemma weak_order_minus: "weak_order (\<lambda>a b. f a - f b :: int)"
  by (auto simp: weak_order_def)

lemma weak_order_snapshot_cmp: "weak_order (snapshot_cmp networks)"
proof -
  have eq: "snapshot_cmp networks = (\<lambda>a b. if networkOrder networks (Network a) - networkOrder networks (Network b) \<noteq> 0
      then networkOrder networks (Network a) - networkOrder networks (Network b)
      else if addr_Compare (IP a) (IP b) \<noteq> 0 then addr_Compare (IP a) (IP b) else cmp_Compare (Aliases a) (Aliases b))"
    by (simp add: fun_eq_iff snapshot_cmp_def Let_def)
  show ?thesis
    unfolding eq by (intro weak_order_lex weak_order_minus weak_order_key [OF weak_order_addr_Compare] weak_order_key [OF weak_order_cmp_Compare])
qed

text \<open>The order of a snapshot: position of the network, address, aliases.\<close>

definition snapshot_key :: "string list \<Rightarrow> endpoint \<Rightarrow> int \<times> addr \<times> string list" where
  "snapshot_key networks ep = (networkOrder networks (Network ep), IP ep, Aliases ep)"

lemma snapshot_cmp_le: "snapshot_cmp networks a b \<le> 0 \<longleftrightarrow> snapshot_key networks a \<le> snapshot_key networks b"
  by (auto simp: snapshot_cmp_def snapshot_key_def Let_def less_eq_addr_def less_addr_def addr_Compare_0_iff cmp_Compare_def)

text \<open>Endpoints that compare as equal are equal.\<close>

lemma snapshot_cmp_0:
  assumes "snapshot_cmp networks a b = 0" "Network a \<in> set networks" "Network b \<in> set networks"
  shows "a = b"
proof -
  from assms(1) have "networkOrder networks (Network a) = networkOrder networks (Network b)" "IP a = IP b" "Aliases a = Aliases b"
    by (auto simp: snapshot_cmp_def Let_def addr_Compare_0_iff split: if_splits)
  with networkOrder_inj [OF assms(2,3)] show ?thesis by simp
qed

lemma docker_Snapshot_Inr:
  "docker_Snapshot srt cl c networks n = (Inr eps, m) \<longleftrightarrow>
     networks \<noteq> [] \<and> (\<exists>items n1. api_ContainerList (c_api cl) c (list_options networks) n = (Inr items, n1) \<and> m = c_inspected cl n1 \<and>
       list_all (gone_or_inspected cl) (inspectOutcomes cl c n1 items) \<and>
       eps = srt (snapshot_cmp networks) (concat (map (outcome_endpoints networks) (inspectOutcomes cl c n1 items))))"
proof -
  have "docker_Snapshot srt cl c networks n = (Inr eps, m) \<longleftrightarrow>
     networks \<noteq> [] \<and> (\<exists>items n1. api_ContainerList (c_api cl) c (list_options networks) n = (Inr items, n1) \<and> m = c_inspected cl n1 \<and>
       (\<exists>es. collectEndpoints (c_IsNotFound cl) networks (inspectOutcomes cl c n1 items) [] = Inr es \<and>
          eps = srt (snapshot_cmp networks) es))"
    by (auto simp: docker_Snapshot_def requireNetworks_def split: prod.splits sum.splits)
  then show ?thesis by (simp add: collectEndpoints_iff gone_or_inspected_def [abs_def])
qed

text \<open>What a successful snapshot consists of.\<close>

lemma Snapshot_facts:
  assumes "slices_sort srt" and "docker_Snapshot srt cl c networks n = (Inr eps, m)"
  shows "\<exists>items n1. api_ContainerList (c_api cl) c (list_options networks) n = (Inr items, n1) \<and>
    list_all (gone_or_inspected cl) (inspectOutcomes cl c n1 items) \<and>
    mset eps = mset (concat (map (outcome_endpoints networks) (inspectOutcomes cl c n1 items))) \<and>
    sorted (map (snapshot_key networks) eps) \<and> list_all (well_formed networks) eps"
proof -
  from assms(2) obtain items n1 where s: "api_ContainerList (c_api cl) c (list_options networks) n = (Inr items, n1)"
    "list_all (gone_or_inspected cl) (inspectOutcomes cl c n1 items)"
    "eps = srt (snapshot_cmp networks) (concat (map (outcome_endpoints networks) (inspectOutcomes cl c n1 items)))"
    by (auto simp: docker_Snapshot_Inr)
  let ?all = "concat (map (outcome_endpoints networks) (inspectOutcomes cl c n1 items))"
  have "mset eps = mset ?all" unfolding s(3) by (rule slices_sort.perm [OF assms(1)])
  moreover have "sorted (map (snapshot_key networks) eps)"
    using slices_sort.sorts [OF assms(1) weak_order_snapshot_cmp] by (simp add: s(3) snapshot_cmp_le sorted_map)
  moreover have "well_formed networks ep" if "ep \<in> set ?all" for ep
    using that containerEndpoints_well_formed by (auto simp: outcome_endpoints_def split: sum.splits)
  then have "list_all (well_formed networks) eps"
    using s(3) slices_sort.set_SortFunc [OF assms(1)] by (auto simp: list_all_iff)
  ultimately show ?thesis using s by blast
qed

lemma outcome_found:
  assumes "ep \<in> set (concat (map (outcome_endpoints networks) (inspectOutcomes cl c n items)))"
  shows "\<exists>ID m r. api_ContainerInspect (c_api cl) c ID m = Inr r \<and> ep \<in> set (containerEndpoints networks r)"
proof -
  from assms obtain i where i: "ep \<in> set (outcome_endpoints networks
      (items ! i, api_ContainerInspect (c_api cl) c (items ! i) (c_inspect_at cl n i)))" by (auto simp: inspectOutcomes_def)
  show ?thesis
  proof (cases "api_ContainerInspect (c_api cl) c (items ! i) (c_inspect_at cl n i)")
    case (Inr r)
    with i show ?thesis by (auto simp: outcome_endpoints_def)
  qed (use i in \<open>simp add: outcome_endpoints_def\<close>)
qed

section \<open>Properties\<close>

text \<open>
  C31. A snapshot is complete or it fails: it succeeds exactly when there are networks, the running containers on
  them could be listed and every container whose inspection failed is gone. It then holds exactly the endpoints of all
  inspected containers on the configured networks, ordered by network, address and aliases; each has a valid address
  and a strictly increasing, non-empty list of non-empty aliases, so only the characters of its names can keep it
  from being rendered.
\<close>

theorem Snapshot_spec:
  assumes "slices_sort srt"
  shows "let listed = api_ContainerList (c_api cl) c \<lparr>lo_All = False, lo_Filters = [(''network'', networks)]\<rparr> n
    in case docker_Snapshot srt cl c networks n of
      (Inr eps, m) \<Rightarrow> networks \<noteq> [] \<and> (\<exists>items n1. listed = (Inr items, n1) \<and>
        list_all (gone_or_inspected cl) (inspectOutcomes cl c n1 items) \<and>
        mset eps = mset (concat (map (outcome_endpoints networks) (inspectOutcomes cl c n1 items))) \<and>
        sorted (map (snapshot_key networks) eps) \<and> list_all (well_formed networks) eps)
    | (Inl e, m) \<Rightarrow> networks = [] \<or>
        (case listed of
           (Inl _, _) \<Rightarrow> True
         | (Inr items, n1) \<Rightarrow> \<not> list_all (gone_or_inspected cl) (inspectOutcomes cl c n1 items))"
proof -
  obtain r m where r: "docker_Snapshot srt cl c networks n = (r, m)" by fastforce
  show ?thesis
  proof (cases r)
    case (Inl e)
    with r docker_Snapshot_Inr [of srt cl c networks n] show ?thesis
      by (auto simp: Let_def list_options_def split: sum.splits prod.splits)
  next
    case (Inr eps)
    from r Inr have "networks \<noteq> []" by (simp add: docker_Snapshot_Inr)
    with Inr Snapshot_facts [OF assms r [unfolded Inr]] r show ?thesis by (simp add: Let_def list_options_def)
  qed
qed

text \<open>
  C32. A snapshot is canonical: it depends neither on the order in which Docker lists the containers, nor on
  when each inspection runs, nor on how the sort breaks ties, only on which containers there are and what
  their inspections say.
\<close>

theorem Snapshot_canonical:
  assumes "slices_sort srt" and "slices_sort srt'"
    and "docker_Snapshot srt cl c networks n = (Inr eps, m)" and "docker_Snapshot srt' cl' c' networks n' = (Inr eps', m')"
    and "api_ContainerList (c_api cl) c (list_options networks) n = (Inr items, n1)"
    and "api_ContainerList (c_api cl') c' (list_options networks) n' = (Inr items', n1')"
    and "mset (concat (map (outcome_endpoints networks) (inspectOutcomes cl c n1 items))) =
      mset (concat (map (outcome_endpoints networks) (inspectOutcomes cl' c' n1' items')))"
  shows "eps = eps'"
proof (rule sorted_wrt_mset_unique [where P = "\<lambda>a b. snapshot_cmp networks a b \<le> 0"])
  let ?all = "concat (map (outcome_endpoints networks) (inspectOutcomes cl c n1 items))"
  let ?all' = "concat (map (outcome_endpoints networks) (inspectOutcomes cl' c' n1' items'))"
  have e: "eps = srt (snapshot_cmp networks) ?all" "eps' = srt' (snapshot_cmp networks) ?all'"
    using assms(3-6) by (auto simp: docker_Snapshot_Inr)
  show "sorted_wrt (\<lambda>a b. snapshot_cmp networks a b \<le> 0) eps" "sorted_wrt (\<lambda>a b. snapshot_cmp networks a b \<le> 0) eps'"
    unfolding e using slices_sort.sorts [OF assms(1) weak_order_snapshot_cmp] slices_sort.sorts [OF assms(2) weak_order_snapshot_cmp] by auto
  from assms(7) show "mset eps = mset eps'"
    unfolding e by (simp add: slices_sort.perm [OF assms(1)] slices_sort.perm [OF assms(2)])
  fix x y
  assume "x \<in> set eps" "y \<in> set eps" "snapshot_cmp networks x y \<le> 0" "snapshot_cmp networks y x \<le> 0"
  moreover have "Network z \<in> set networks" if "z \<in> set eps" for z
    using that containerEndpoints_well_formed slices_sort.set_SortFunc [OF assms(1)]
    by (auto simp: e(1) outcome_endpoints_def well_formed_def split: sum.splits)
  ultimately show "x = y"
    using snapshot_cmp_0 [of networks x y] weak_order_0 [OF weak_order_snapshot_cmp, of networks x y] by simp
qed

section \<open>A worked client\<close>

text \<open>Docker lists the given containers; all but two are gone when they are inspected.\<close>

definition ex_inspected :: "addr \<Rightarrow> string \<Rightarrow> ContainerInspectResult" where
  "ex_inspected ip name = \<lparr>cr_NetworkSettings = Some [''saltbox'' \<mapsto>
     Some \<lparr>es_IPAddress = ip, es_GlobalIPv6Address = AddrZero, es_Aliases = [name, [], ''app'', name]\<rparr>]\<rparr>"

definition ex_client :: "string list \<Rightarrow> Client" where
  "ex_client listed = \<lparr>c_api = \<lparr>api_Ping = (\<lambda>_ n. (None, n)), api_ContainerList = (\<lambda>_ _ n. (Inr listed, n)),
       api_ContainerInspect = (\<lambda>_ ID _.
         if ID = ''c1'' then Inr (ex_inspected (V4 0xAC120002) ''web'')
         else if ID = ''c2'' then Inr (ex_inspected (V4 0xAC120003) ''db'')
         else Inl (errors_New ''No such container'')),
       api_Close = (\<lambda>n. (None, n))\<rparr>,
     c_IsNotFound = (\<lambda>_. True), c_inspect_at = (\<lambda>n i. n + i), c_inspected = (\<lambda>n. n + 1)\<rparr>"

definition ex_snapshot :: "endpoint list" where
  "ex_snapshot = [\<lparr>Network = ''saltbox'', IP = V4 0xAC120002, Aliases = [''app'', ''web'']\<rparr>,
     \<lparr>Network = ''saltbox'', IP = V4 0xAC120003, Aliases = [''app'', ''db'']\<rparr>]"

lemma ex_found:
  "concat (map (outcome_endpoints [''saltbox'']) (inspectOutcomes (ex_client items) c n [''c2'', ''gone'', ''c1''])) = rev ex_snapshot"
proof -
  have "normalizeAliases [''db'', [], ''app'', ''db''] = [''app'', ''db'']"
    "normalizeAliases [''web'', [], ''app'', ''web''] = [''app'', ''web'']" by code_simp+
  then show ?thesis
    by (simp add: ex_client_def inspectOutcomes_def upt_rec outcome_endpoints_def containerEndpoints_def networkEndpoint_def
      ex_inspected_def ex_snapshot_def)
qed

lemma ex_taken: "docker_Snapshot insertionSort (ex_client [''c2'', ''gone'', ''c1'']) c [''saltbox''] 0 = (Inr ex_snapshot, 1)"
proof -
  have "insertionSort (snapshot_cmp [''saltbox'']) (rev ex_snapshot) = ex_snapshot"
    by (simp add: ex_snapshot_def insertionSort_def snapshot_cmp_def addr_Compare_def Let_def)
  moreover have "list_all (gone_or_inspected (ex_client [''c2'', ''gone'', ''c1'']))
      (inspectOutcomes (ex_client [''c2'', ''gone'', ''c1'']) c 0 [''c2'', ''gone'', ''c1''])"
    by (simp add: ex_client_def inspectOutcomes_def upt_rec gone_or_inspected_def)
  moreover have "api_ContainerList (c_api (ex_client [''c2'', ''gone'', ''c1''])) c (list_options [''saltbox'']) 0 = (Inr [''c2'', ''gone'', ''c1''], 0)"
    "c_inspected (ex_client [''c2'', ''gone'', ''c1'']) 0 = 1" by (simp_all add: ex_client_def)
  ultimately show ?thesis by (simp add: docker_Snapshot_Inr ex_found)
qed

theorem Snapshot_spec_witness: "list_all (well_formed [''saltbox'']) ex_snapshot"
  using Snapshot_spec [OF go_insertion.slices_sort_axioms, where cl = "ex_client [''c2'', ''gone'', ''c1'']"
      and c = "\<lambda>_. None" and networks = "[''saltbox'']" and n = 0] ex_taken [of "\<lambda>_. None"]
  by (auto simp: Let_def)

theorem Snapshot_canonical_witness:
  "fst (docker_Snapshot insertionSort (ex_client [''c1'', ''c2'']) (\<lambda>_. None) [''saltbox''] 5) = Inr ex_snapshot"
proof -
  have "\<exists>eps m. docker_Snapshot insertionSort (ex_client [''c1'', ''c2'']) (\<lambda>_. None) [''saltbox''] 5 = (Inr eps, m)"
    by (simp add: docker_Snapshot_Inr ex_client_def inspectOutcomes_def upt_rec gone_or_inspected_def)
  then obtain eps m where t: "docker_Snapshot insertionSort (ex_client [''c1'', ''c2'']) (\<lambda>_. None) [''saltbox''] 5 = (Inr eps, m)"
    by blast
  have "eps = ex_snapshot"
  proof (rule Snapshot_canonical [OF go_insertion.slices_sort_axioms go_insertion.slices_sort_axioms t ex_taken [of "\<lambda>_. None"]])
    show "api_ContainerList (c_api (ex_client [''c1'', ''c2''])) (\<lambda>_. None) (list_options [''saltbox'']) 5 = (Inr [''c1'', ''c2''], 5)"
      by (simp add: ex_client_def)
    show "api_ContainerList (c_api (ex_client [''c2'', ''gone'', ''c1''])) (\<lambda>_. None) (list_options [''saltbox'']) 0 = (Inr [''c2'', ''gone'', ''c1''], 0)"
      by (simp add: ex_client_def)
  qed (simp add: ex_client_def inspectOutcomes_def upt_rec outcome_endpoints_def)
  with t show ?thesis by simp
qed

end
