(* ===== verification/Machines.thy ===== *)
theory Machines
  imports Main
begin

text \<open>
  Runs of machines with labelled steps: the sequences of steps that goroutines, the environment and other
  processes can make, in the order in which they are made. An invariant may speak of the labels so far; the
  locale \<open>machine\<close> lifts one from steps to runs.
\<close>

inductive runs :: "('a \<Rightarrow> 's \<Rightarrow> 's \<Rightarrow> bool) \<Rightarrow> 'a list \<Rightarrow> 's \<Rightarrow> 's \<Rightarrow> bool" for step where
  start: "runs step [] s s"
| move: "runs step as s s' \<Longrightarrow> step a s' s'' \<Longrightarrow> runs step (as @ [a]) s s''"

lemma runs_append: "runs step bs s' s'' \<Longrightarrow> runs step as s s' \<Longrightarrow> runs step (as @ bs) s s''"
  by (induction rule: runs.induct) (auto simp flip: append_assoc intro: runs.move)

lemma runs_first: "step a s s' \<Longrightarrow> runs step as s' s'' \<Longrightarrow> runs step (a # as) s s''"
  using runs_append [of step as s' s'' "[a]" s] runs.move [OF runs.start] by fastforce

locale machine =
  fixes step :: "'a \<Rightarrow> 's \<Rightarrow> 's \<Rightarrow> bool" and inv :: "'a list \<Rightarrow> 's \<Rightarrow> bool"
  assumes keeps: "step a s s' \<Longrightarrow> inv as s \<Longrightarrow> inv (as @ [a]) s'"
begin

lemma run_keeps: "runs step as s s' \<Longrightarrow> inv bs s \<Longrightarrow> inv (bs @ as) s'"
  by (induction rule: runs.induct) (auto simp flip: append_assoc intro: keeps)

lemma run_inv: "runs step as s s' \<Longrightarrow> inv [] s \<Longrightarrow> inv as s'"
  using run_keeps [of as s s' "[]"] by simp

end

text \<open>The states of a machine at the instants of a clock: any number of steps between two instants.\<close>

definition timeline :: "('a \<Rightarrow> 's \<Rightarrow> 's \<Rightarrow> bool) \<Rightarrow> (nat \<Rightarrow> 's) \<Rightarrow> bool" where
  "timeline step st \<longleftrightarrow> (\<forall>n. \<exists>as. runs step as (st n) (st (Suc n)))"

lemma timeline_run: "timeline step st \<Longrightarrow> m \<le> n \<Longrightarrow> \<exists>as. runs step as (st m) (st n)"
proof (induction n)
  case 0
  then show ?case using runs.start [of step "st 0"] by auto
next
  case (Suc n)
  show ?case
  proof (cases "m = Suc n")
    case True
    then show ?thesis using runs.start [of step "st m"] by auto
  next
    case False
    with Suc obtain as where as: "runs step as (st m) (st n)" by auto
    from Suc.prems(1) obtain bs where "runs step bs (st n) (st (Suc n))" unfolding timeline_def by blast
    from runs_append [OF this as] show ?thesis by blast
  qed
qed

text \<open>The same with a record of the steps: \<open>hist n\<close> holds those between the instants \<open>k\<close> and \<open>n\<close>.\<close>

definition chronicle :: "('a \<Rightarrow> 's \<Rightarrow> 's \<Rightarrow> bool) \<Rightarrow> (nat \<Rightarrow> 'a list) \<Rightarrow> (nat \<Rightarrow> 's) \<Rightarrow> nat \<Rightarrow> bool" where
  "chronicle step hist st k \<longleftrightarrow> hist k = [] \<and>
     (\<forall>n\<ge>k. \<exists>as. hist (Suc n) = hist n @ as \<and> runs step as (st n) (st (Suc n)))"

lemma chronicle_run:
  assumes "chronicle step hist st k" "k \<le> m" "m \<le> n"
  shows "\<exists>as. hist n = hist m @ as \<and> runs step as (st m) (st n)"
  using assms(3)
proof (induction n rule: dec_induct)
  case base
  then show ?case using runs.start by fastforce
next
  case (step n)
  then obtain as where as: "hist n = hist m @ as" "runs step as (st m) (st n)" by blast
  obtain bs where "hist (Suc n) = hist n @ bs" "runs step bs (st n) (st (Suc n))"
    using assms(1,2) step(1) unfolding chronicle_def by (meson order_trans)
  with as runs_append [of step bs "st n" "st (Suc n)" as "st m"] show ?case by auto
qed

lemma chronicle_start: "chronicle step hist st k \<Longrightarrow> k \<le> n \<Longrightarrow> runs step (hist n) (st k) (st n)"
  using chronicle_run [of step hist st k k n] by (auto simp: chronicle_def)

end
