(* ===== verification/Docker_Events.thy ===== *)
theory Docker_Events
  imports Docker Machines
begin

text \<open>
  The event stream of the Docker client (\<open>docker/client.go\<close>, \<open>Events\<close> and \<open>Close\<close>). One goroutine
  per stream takes messages from the two channels of the Moby client and forwards them to two channels of
  its own. It is a machine that makes one step per channel operation; the Moby client, the consumer and the
  context move in between, in any order.
\<close>

section \<open>The forwarder\<close>

record Message =
  m_Action :: string
  m_Attributes :: "string \<Rightarrow> string option"

definition attribute :: "Message \<Rightarrow> string \<Rightarrow> string" where
  "attribute msg key = (case m_Attributes msg key of None \<Rightarrow> [] | Some v \<Rightarrow> v)"

definition mapEvent :: "Message \<Rightarrow> Event" where
  "mapEvent msg =
     \<lparr>ev_Action = m_Action msg, ev_ContainerID = attribute msg ''container'', ev_Network = attribute msg ''name''\<rparr>"

text \<open>A channel with its capacity, what it holds, and whether it is closed.\<close>

record 'a channel =
  ch_cap :: nat
  ch_held :: "'a list"
  ch_closed :: bool

definition make_chan :: "nat \<Rightarrow> 'a channel" where
  "make_chan cap = \<lparr>ch_cap = cap, ch_held = [], ch_closed = False\<rparr>"

definition receive :: "'a channel \<Rightarrow> 'a recv" where
  "receive ch = (case ch_held ch of x # _ \<Rightarrow> Received x | [] \<Rightarrow> if ch_closed ch then Closed else NotReady)"

definition rest_of :: "'a channel \<Rightarrow> 'a channel" where
  "rest_of ch = ch\<lparr>ch_held := tl (ch_held ch)\<rparr>"

text \<open>
  Where the goroutine is: at the check of the context at the top of the loop, at the check for an error of
  the source, at the \<open>select\<close>, at the \<open>select\<close> that sends an event, at the last check for an error after
  the messages have ended, at the \<open>select\<close> of \<open>forwardError\<close>, and at the two deferred closings.
\<close>

datatype place = Top | CheckError | Select | Sending Event | LastError | Forwarding go_error
  | CloseErrors | CloseEvents | Finished | Panicked

record stream =
  at :: place
  cancelled :: bool
  messages :: "Message channel"
  source_errors :: "err channel"
  mappedEvents :: "Event channel"
  mappedErrors :: "go_error channel"

definition forwardError :: "err \<Rightarrow> stream \<Rightarrow> stream" where
  "forwardError e s = s\<lparr>at := (case e of None \<Rightarrow> CloseErrors | Some e \<Rightarrow> Forwarding e)\<rparr>"

text \<open>The error of a receive from the source; a closed channel gives \<open>nil\<close>.\<close>

definition sourceErrorReady :: "stream \<Rightarrow> (err \<times> stream) option" where
  "sourceErrorReady s =
     (case receive (source_errors s) of
        NotReady \<Rightarrow> None
      | Closed \<Rightarrow> Some (None, s)
      | Received e \<Rightarrow> Some (e, s\<lparr>source_errors := rest_of (source_errors s)\<rparr>))"

text \<open>
  The steps the goroutine can make. A \<open>select\<close> makes one step for each of its ready cases and none when it
  has to wait; sending on a closed channel and closing it again panic.
\<close>

definition send_event :: "Event \<Rightarrow> stream \<Rightarrow> stream list" where
  "send_event ev s =
     (if ch_closed (mappedEvents s) then [s\<lparr>at := Panicked\<rparr>]
      else if length (ch_held (mappedEvents s)) < ch_cap (mappedEvents s)
      then [s\<lparr>at := Top, mappedEvents := (mappedEvents s)\<lparr>ch_held := ch_held (mappedEvents s) @ [ev]\<rparr>\<rparr>]
      else [])"

definition send_error :: "go_error \<Rightarrow> stream \<Rightarrow> stream list" where
  "send_error e s =
     (if ch_closed (mappedErrors s) then [s\<lparr>at := Panicked\<rparr>]
      else if length (ch_held (mappedErrors s)) < ch_cap (mappedErrors s)
      then [s\<lparr>at := CloseErrors, mappedErrors := (mappedErrors s)\<lparr>ch_held := ch_held (mappedErrors s) @ [e]\<rparr>\<rparr>]
      else [])"

definition leave :: "stream \<Rightarrow> stream list" where
  "leave s = (if cancelled s then [s\<lparr>at := CloseErrors\<rparr>] else [])"

definition take_message :: "stream \<Rightarrow> stream list" where
  "take_message s =
     (case receive (messages s) of
        NotReady \<Rightarrow> []
      | Closed \<Rightarrow> [s\<lparr>at := LastError\<rparr>]
      | Received msg \<Rightarrow> [s\<lparr>at := Sending (mapEvent msg), messages := rest_of (messages s)\<rparr>])"

definition take_error :: "stream \<Rightarrow> stream list" where
  "take_error s = (case sourceErrorReady s of None \<Rightarrow> [] | Some (e, s) \<Rightarrow> [forwardError e s])"

definition forward_steps :: "stream \<Rightarrow> stream list" where
  "forward_steps s =
     (case at s of
        Top \<Rightarrow> if cancelled s then leave s else [s\<lparr>at := CheckError\<rparr>]
      | CheckError \<Rightarrow>
          (case sourceErrorReady s of Some (e, s) \<Rightarrow> [forwardError e s] | None \<Rightarrow> [s\<lparr>at := Select\<rparr>])
      | Select \<Rightarrow> leave s @ take_message s @ take_error s
      | Sending ev \<Rightarrow> send_event ev s @ leave s
      | LastError \<Rightarrow>
          (case sourceErrorReady s of Some (e, s) \<Rightarrow> [forwardError e s] | None \<Rightarrow> [s\<lparr>at := CloseErrors\<rparr>])
      | Forwarding e \<Rightarrow> send_error e s @ leave s
      | CloseErrors \<Rightarrow>
          [if ch_closed (mappedErrors s) then s\<lparr>at := Panicked\<rparr>
           else s\<lparr>at := CloseEvents, mappedErrors := (mappedErrors s)\<lparr>ch_closed := True\<rparr>\<rparr>]
      | CloseEvents \<Rightarrow>
          [if ch_closed (mappedEvents s) then s\<lparr>at := Panicked\<rparr>
           else s\<lparr>at := Finished, mappedEvents := (mappedEvents s)\<lparr>ch_closed := True\<rparr>\<rparr>]
      | Finished \<Rightarrow> []
      | Panicked \<Rightarrow> [])"

definition failedEventStream :: "go_error \<Rightarrow> stream" where
  "failedEventStream e =
     \<lparr>at = Finished, cancelled = False, messages = make_chan 0, source_errors = make_chan 0,
      mappedEvents = (make_chan 0)\<lparr>ch_closed := True\<rparr>,
      mappedErrors = (make_chan 1)\<lparr>ch_held := [e], ch_closed := True\<rparr>\<rparr>"

text \<open>The filters of the subscription, and a stream whose goroutine has just been started on it.\<close>

definition event_filters :: "string list \<Rightarrow> (string \<times> string list) list" where
  "event_filters networks = [(''type'', [''network'']), (''event'', [''connect'', ''disconnect'']), (''network'', networks)]"

definition docker_Events ::
  "((string \<times> string list) list \<Rightarrow> Message channel \<times> err channel) \<Rightarrow> string list \<Rightarrow> stream" where
  "docker_Events api_Events networks =
     (case requireNetworks networks of
        Some e \<Rightarrow> failedEventStream e
      | None \<Rightarrow>
          (case api_Events (event_filters networks) of
             (msgs, errs) \<Rightarrow>
               \<lparr>at = Top, cancelled = False, messages = msgs, source_errors = errs,
                mappedEvents = make_chan 1, mappedErrors = make_chan 1\<rparr>))"

text \<open>
  The goroutine on its own until it ends, at most \<open>fuel\<close> steps; \<open>pick\<close> is the choice among ready cases.
  \<open>Close\<close> returns when the goroutines of all streams have ended; it is \<open>None\<close> while one has not.
\<close>

fun run_forwarder :: "nat \<Rightarrow> (nat \<Rightarrow> nat) \<Rightarrow> stream \<Rightarrow> stream option" where
  "run_forwarder 0 pick s = (if at s = Finished then Some s else None)"
| "run_forwarder (Suc fuel) pick s =
     (if at s = Finished then Some s
      else if forward_steps s = [] then None
      else run_forwarder fuel pick (forward_steps s ! (pick fuel mod length (forward_steps s))))"

definition docker_Close :: "Client \<Rightarrow> nat \<Rightarrow> (nat \<Rightarrow> nat) \<Rightarrow> stream list \<Rightarrow> nat \<Rightarrow> (err \<times> nat \<times> stream list) option" where
  "docker_Close cl fuel pick streams n =
     (case api_Close (c_api cl) n of
        (e, n) \<Rightarrow>
          (case those (map (run_forwarder fuel pick) streams) of
             None \<Rightarrow> None
           | Some streams \<Rightarrow> Some (map_option (wrap ''closing Docker client: '') e, n, streams)))"

section \<open>Interleaving\<close>

text \<open>
  A sender that waits on a channel of the source is represented by what it offers, so the queues of the
  source are not bounded.
\<close>

datatype act = Forward | Cancel | Offer Message | EndMessages | OfferError err | EndErrors
  | GotEvent Event | GotError go_error

inductive stream_step :: "act \<Rightarrow> stream \<Rightarrow> stream \<Rightarrow> bool" where
  forward: "s' \<in> set (forward_steps s) \<Longrightarrow> stream_step Forward s s'"
| cancel: "stream_step Cancel s (s\<lparr>cancelled := True\<rparr>)"
| offer: "\<not> ch_closed (messages s) \<Longrightarrow>
    stream_step (Offer msg) s (s\<lparr>messages := (messages s)\<lparr>ch_held := ch_held (messages s) @ [msg]\<rparr>\<rparr>)"
| end_messages: "stream_step EndMessages s (s\<lparr>messages := (messages s)\<lparr>ch_closed := True\<rparr>\<rparr>)"
| offer_error: "\<not> ch_closed (source_errors s) \<Longrightarrow>
    stream_step (OfferError e) s (s\<lparr>source_errors := (source_errors s)\<lparr>ch_held := ch_held (source_errors s) @ [e]\<rparr>\<rparr>)"
| end_errors: "stream_step EndErrors s (s\<lparr>source_errors := (source_errors s)\<lparr>ch_closed := True\<rparr>\<rparr>)"
| got_event: "receive (mappedEvents s) = Received ev \<Longrightarrow>
    stream_step (GotEvent ev) s (s\<lparr>mappedEvents := rest_of (mappedEvents s)\<rparr>)"
| got_error: "receive (mappedErrors s) = Received e \<Longrightarrow>
    stream_step (GotError e) s (s\<lparr>mappedErrors := rest_of (mappedErrors s)\<rparr>)"

abbreviation stream_run :: "act list \<Rightarrow> stream \<Rightarrow> stream \<Rightarrow> bool" where
  "stream_run \<equiv> runs stream_step"

inductive_cases forward_stepE: "stream_step Forward s s'"

fun offered :: "act list \<Rightarrow> Message list" where
  "offered [] = []"
| "offered (Offer msg # as) = msg # offered as"
| "offered (_ # as) = offered as"

fun got_events :: "act list \<Rightarrow> Event list" where
  "got_events [] = []"
| "got_events (GotEvent ev # as) = ev # got_events as"
| "got_events (_ # as) = got_events as"

fun offered_errors :: "act list \<Rightarrow> err list" where
  "offered_errors [] = []"
| "offered_errors (OfferError e # as) = e # offered_errors as"
| "offered_errors (_ # as) = offered_errors as"

fun got_errors :: "act list \<Rightarrow> go_error list" where
  "got_errors [] = []"
| "got_errors (GotError e # as) = e # got_errors as"
| "got_errors (_ # as) = got_errors as"

lemma offered_append [simp]: "offered (as @ bs) = offered as @ offered bs"
  by (induction as rule: offered.induct) simp_all

lemma got_events_append [simp]: "got_events (as @ bs) = got_events as @ got_events bs"
  by (induction as rule: got_events.induct) simp_all

lemma offered_errors_append [simp]: "offered_errors (as @ bs) = offered_errors as @ offered_errors bs"
  by (induction as rule: offered_errors.induct) simp_all

lemma got_errors_append [simp]: "got_errors (as @ bs) = got_errors as @ got_errors bs"
  by (induction as rule: got_errors.induct) simp_all

lemmas forward_defs = forward_steps_def leave_def send_event_def send_error_def take_message_def take_error_def
  sourceErrorReady_def forwardError_def rest_of_def receive_def

section \<open>Invariants\<close>

text \<open>The channels are closed by the deferred calls and by nothing else, the one for errors first.\<close>

definition orderly :: "stream \<Rightarrow> bool" where
  "orderly s \<longleftrightarrow> at s \<noteq> Panicked \<and>
     (ch_closed (mappedErrors s) \<longleftrightarrow> at s \<in> {CloseEvents, Finished}) \<and> (ch_closed (mappedEvents s) \<longleftrightarrow> at s = Finished)"

text \<open>The steps of the goroutine, one rule per effect.\<close>

lemma forward_stepsE:
  assumes "s' \<in> set (forward_steps s)" "orderly s"
  obtains
    (on) p where "s' = s\<lparr>at := p\<rparr>" "(at s, p) \<in> {(Top, CheckError), (CheckError, Select), (Select, LastError)}"
      "p = LastError \<longrightarrow> ch_closed (messages s)"
  | (quit) "s' = s\<lparr>at := CloseErrors\<rparr>" "at s \<in> {Top, CheckError, Select, LastError}"
      "cancelled s \<or> receive (source_errors s) = Closed \<or> at s = LastError"
  | (dropped) x where "s' = s\<lparr>at := CloseErrors\<rparr>" "cancelled s" "at s = x" "(\<exists>ev. x = Sending ev) \<or> (\<exists>e. x = Forwarding e)"
  | (message) msg ms where "at s = Select" "ch_held (messages s) = msg # ms"
      "s' = s\<lparr>at := Sending (mapEvent msg), messages := (messages s)\<lparr>ch_held := ms\<rparr>\<rparr>"
  | (failed) e es where "at s \<in> {CheckError, Select, LastError}" "ch_held (source_errors s) = e # es"
      "s' = s\<lparr>at := (case e of None \<Rightarrow> CloseErrors | Some e \<Rightarrow> Forwarding e), source_errors := (source_errors s)\<lparr>ch_held := es\<rparr>\<rparr>"
  | (sent) ev where "at s = Sending ev" "s' = s\<lparr>at := Top, mappedEvents := (mappedEvents s)\<lparr>ch_held := ch_held (mappedEvents s) @ [ev]\<rparr>\<rparr>"
      "length (ch_held (mappedEvents s)) < ch_cap (mappedEvents s)"
  | (sent_error) e where "at s = Forwarding e"
      "s' = s\<lparr>at := CloseErrors, mappedErrors := (mappedErrors s)\<lparr>ch_held := ch_held (mappedErrors s) @ [e]\<rparr>\<rparr>"
      "length (ch_held (mappedErrors s)) < ch_cap (mappedErrors s)"
  | (close_errors) "at s = CloseErrors" "s' = s\<lparr>at := CloseEvents, mappedErrors := (mappedErrors s)\<lparr>ch_closed := True\<rparr>\<rparr>"
  | (close_events) "at s = CloseEvents" "s' = s\<lparr>at := Finished, mappedEvents := (mappedEvents s)\<lparr>ch_closed := True\<rparr>\<rparr>"
proof (cases "at s")
  case Top
  with assms on quit show ?thesis by (auto simp: forward_defs split: if_splits)
next
  case CheckError
  with assms(1) on quit failed show ?thesis
    by (cases "ch_held (source_errors s)") (auto simp: forward_defs split: if_splits)
next
  case Select
  from assms(1) consider "s' \<in> set (leave s)" | "s' \<in> set (take_message s)" | "s' \<in> set (take_error s)"
    by (auto simp: forward_steps_def Select)
  then show ?thesis
  proof cases
    case 1
    with Select quit show ?thesis by (auto simp: leave_def split: if_splits)
  next
    case 2
    with Select on message show ?thesis
      by (cases "ch_held (messages s)") (auto simp: forward_defs split: if_splits)
  next
    case 3
    with Select quit failed show ?thesis
      by (cases "ch_held (source_errors s)") (auto simp: forward_defs split: if_splits)
  qed
next
  case (Sending ev)
  with assms sent dropped show ?thesis by (auto simp: orderly_def forward_defs split: if_splits)
next
  case LastError
  with assms(1) quit failed show ?thesis
    by (cases "ch_held (source_errors s)") (auto simp: forward_defs split: if_splits)
next
  case (Forwarding e)
  with assms sent_error dropped show ?thesis by (auto simp: orderly_def forward_defs split: if_splits)
next
  case CloseErrors
  with assms close_errors show ?thesis by (auto simp: orderly_def forward_defs split: if_splits)
next
  case CloseEvents
  with assms close_events show ?thesis by (auto simp: orderly_def forward_defs split: if_splits)
next
  case Finished
  with assms(1) show ?thesis by (simp add: forward_steps_def)
next
  case Panicked
  with assms(2) show ?thesis by (simp add: orderly_def)
qed

lemma orderly_forward:
  assumes "s' \<in> set (forward_steps s)" "orderly s"
  shows "orderly s'"
  using assms by (cases rule: forward_stepsE) (use assms(2) in \<open>auto simp: orderly_def split: option.splits\<close>)

lemma orderly_step: "stream_step a s s' \<Longrightarrow> orderly s \<Longrightarrow> orderly s'"
  by (induction rule: stream_step.induct) (auto simp: rest_of_def orderly_def dest: orderly_forward)

text \<open>What was taken from the source and has not reached the channel of events.\<close>

definition in_hand :: "stream \<Rightarrow> Event list \<Rightarrow> bool" where
  "in_hand s lost \<longleftrightarrow>
     (case at s of
        Sending ev \<Rightarrow> lost = [ev]
      | CloseErrors \<Rightarrow> lost = [] \<or> length lost = 1 \<and> cancelled s
      | CloseEvents \<Rightarrow> lost = [] \<or> length lost = 1 \<and> cancelled s
      | Finished \<Rightarrow> lost = [] \<or> length lost = 1 \<and> cancelled s
      | _ \<Rightarrow> lost = [])"

definition accounted :: "Message list \<Rightarrow> act list \<Rightarrow> stream \<Rightarrow> Event list \<Rightarrow> bool" where
  "accounted first as s lost \<longleftrightarrow> in_hand s lost \<and>
     map mapEvent (first @ offered as) = got_events as @ ch_held (mappedEvents s) @ lost @ map mapEvent (ch_held (messages s))"

lemma accounted_forward:
  assumes "s' \<in> set (forward_steps s)" "orderly s" "accounted first as s lost"
  shows "\<exists>lost. accounted first (as @ [Forward]) s' lost"
  using assms(1,2)
proof (cases rule: forward_stepsE)
  case (message msg ms)
  with assms(3) show ?thesis by (auto simp: accounted_def in_hand_def intro!: exI [of _ "[mapEvent msg]"])
next
  case (sent ev)
  with assms(3) show ?thesis by (auto simp: accounted_def in_hand_def intro!: exI [of _ "[]"])
qed (use assms(3) in \<open>auto simp: accounted_def in_hand_def split: option.splits intro!: exI [of _ lost]\<close>)

lemma receive_Received: "receive ch = Received x \<longleftrightarrow> (\<exists>xs. ch_held ch = x # xs)"
  by (auto simp: receive_def split: list.splits if_splits)

lemma accounted_step:
  assumes "stream_step a s s'" "orderly s" "accounted first as s lost"
  shows "\<exists>lost. accounted first (as @ [a]) s' lost"
  using assms
proof (induction rule: stream_step.induct)
  case (forward s' s)
  then show ?case by (rule accounted_forward)
qed (auto simp: accounted_def in_hand_def rest_of_def receive_Received split: place.splits)

text \<open>At most one error is taken from the source, and it is forwarded unless the context is done.\<close>

definition in_doubt :: "stream \<Rightarrow> go_error list" where
  "in_doubt s = (case at s of Forwarding e \<Rightarrow> [e] | _ \<Rightarrow> [])"

definition ending :: "place \<Rightarrow> bool" where
  "ending p \<longleftrightarrow> (case p of CloseErrors \<Rightarrow> True | CloseEvents \<Rightarrow> True | Finished \<Rightarrow> True | Forwarding _ \<Rightarrow> True | _ \<Rightarrow> False)"

definition error_accounted :: "err list \<Rightarrow> act list \<Rightarrow> stream \<Rightarrow> err list \<Rightarrow> bool" where
  "error_accounted first as s taken \<longleftrightarrow>
     first @ offered_errors as = taken @ ch_held (source_errors s) \<and> length taken \<le> 1 \<and> (ending (at s) \<or> taken = []) \<and>
     (let sent = got_errors as @ ch_held (mappedErrors s) @ in_doubt s
      in map Some sent = filter (\<lambda>e. e \<noteq> None) taken \<or> cancelled s \<and> sent = [])"

lemma error_accounted_forward:
  assumes "s' \<in> set (forward_steps s)" "orderly s" "error_accounted first as s taken"
  shows "\<exists>taken. error_accounted first (as @ [Forward]) s' taken"
  using assms(1,2)
proof (cases rule: forward_stepsE)
  case (failed e es)
  with assms(3) show ?thesis
    by (cases e) (auto simp: error_accounted_def in_doubt_def ending_def Let_def intro!: exI [of _ "[e]"])
next
  case (dropped x)
  have "a = [] \<and> b = []" if "map Some a @ map Some b @ [Some z] = filter (\<lambda>e. \<exists>y. e = Some y) taken" "length taken \<le> Suc 0"
    for a b and z :: go_error
  proof -
    have "length (filter (\<lambda>e. \<exists>y. e = Some y) taken) \<le> Suc 0" using that(2) by (rule le_trans [OF length_filter_le])
    moreover have "length a + length b + 1 = length (filter (\<lambda>e. \<exists>y. e = Some y) taken)"
      using arg_cong [OF that(1), of length] by simp
    ultimately have "length a + length b + 1 \<le> Suc 0" by (rule ord_eq_le_trans [rotated])
    then show ?thesis by simp
  qed
  with dropped assms(3) show ?thesis
    by (auto simp: error_accounted_def in_doubt_def ending_def Let_def intro!: exI [of _ taken])
qed (use assms(3) in \<open>auto simp: error_accounted_def in_doubt_def ending_def Let_def intro!: exI [of _ taken]\<close>)

lemma error_accounted_step:
  assumes "stream_step a s s'" "orderly s" "error_accounted first as s taken"
  shows "\<exists>taken. error_accounted first (as @ [a]) s' taken"
  using assms
proof (induction rule: stream_step.induct)
  case (forward s' s)
  then show ?case by (rule error_accounted_forward)
qed (auto simp: error_accounted_def in_doubt_def rest_of_def receive_Received Let_def
    intro!: exI [of _ taken])

text \<open>The goroutine ends for a reason.\<close>

definition explained :: "err list \<Rightarrow> act list \<Rightarrow> stream \<Rightarrow> bool" where
  "explained first as s \<longleftrightarrow> (ending (at s) \<or> at s = LastError \<longrightarrow>
     cancelled s \<or> ch_closed (messages s) \<or> ch_closed (source_errors s) \<and> first @ offered_errors as = [] \<or>
     ch_held (source_errors s) \<noteq> first @ offered_errors as)"

lemma explained_forward:
  assumes "s' \<in> set (forward_steps s)" "orderly s" "error_accounted first as s taken" "explained first as s"
  shows "explained first (as @ [Forward]) s'"
  using assms(1,2)
proof (cases rule: forward_stepsE)
  case (failed e es)
  with assms(3) show ?thesis by (auto simp: explained_def error_accounted_def)
next
  case quit
  with assms(3,4) show ?thesis
    by (auto simp: explained_def error_accounted_def ending_def receive_def split: list.splits if_splits)
qed (use assms(4) in \<open>auto simp: explained_def ending_def\<close>)

lemma explained_step:
  assumes "stream_step a s s'" "orderly s" "error_accounted first as s taken" "explained first as s"
  shows "explained first (as @ [a]) s'"
  using assms
proof (induction rule: stream_step.induct)
  case (forward s' s)
  then show ?case by (rule explained_forward)
qed (auto simp: explained_def rest_of_def)

text \<open>All of them, for every state of a stream that was started on a subscription.\<close>

definition stream_inv :: "Message list \<Rightarrow> err list \<Rightarrow> act list \<Rightarrow> stream \<Rightarrow> bool" where
  "stream_inv msgs errs as s \<longleftrightarrow> orderly s \<and> (\<exists>lost. accounted msgs as s lost) \<and>
     (\<exists>taken. error_accounted errs as s taken) \<and> explained errs as s"

interpretation stream: machine stream_step "stream_inv msgs errs" for msgs errs
proof
  fix a s s' as
  assume "stream_step a s s'" "stream_inv msgs errs as s"
  then show "stream_inv msgs errs (as @ [a]) s'"
    unfolding stream_inv_def using orderly_step accounted_step error_accounted_step explained_step by metis
qed

lemma stream_run_inv:
  assumes "stream_run as s0 s" "at s0 = Top" "mappedEvents s0 = make_chan 1" "mappedErrors s0 = make_chan 1"
  shows "stream_inv (ch_held (messages s0)) (ch_held (source_errors s0)) as s"
proof (rule stream.run_inv [OF assms(1)])
  have "accounted (ch_held (messages s0)) [] s0 []" "error_accounted (ch_held (source_errors s0)) [] s0 []"
    "orderly s0" "explained (ch_held (source_errors s0)) [] s0"
    using assms(2-4)
    by (simp_all add: orderly_def accounted_def in_hand_def error_accounted_def in_doubt_def make_chan_def explained_def ending_def)
  then show "stream_inv (ch_held (messages s0)) (ch_held (source_errors s0)) [] s0" unfolding stream_inv_def by blast
qed

text \<open>A refused subscription: the channels stay closed, and its error is there until it is taken.\<close>

definition refused_inv :: "go_error \<Rightarrow> act list \<Rightarrow> stream \<Rightarrow> bool" where
  "refused_inv e as s \<longleftrightarrow> orderly s \<and> at s = Finished \<and> ch_held (mappedEvents s) = [] \<and>
     got_errors as @ ch_held (mappedErrors s) = [e]"

interpretation refused: machine stream_step "refused_inv e" for e
proof
  fix a s s' as
  assume "stream_step a s s'" "refused_inv e as s"
  then have "at s' = Finished \<and> ch_held (mappedEvents s') = [] \<and> got_errors (as @ [a]) @ ch_held (mappedErrors s') = [e]"
    by (induction rule: stream_step.induct) (auto simp: refused_inv_def forward_steps_def rest_of_def receive_Received)
  moreover have "orderly s'"
    using orderly_step [OF \<open>stream_step a s s'\<close>] \<open>refused_inv e as s\<close> by (simp add: refused_inv_def)
  ultimately show "refused_inv e (as @ [a]) s'" by (simp add: refused_inv_def)
qed

lemma failed_run: "stream_run as (failedEventStream e) s \<Longrightarrow> refused_inv e as s"
  by (erule refused.run_inv) (simp add: refused_inv_def failedEventStream_def orderly_def make_chan_def)

section \<open>The goroutine ends\<close>

text \<open>Steps left once the context is done.\<close>

definition steps_left :: "stream \<Rightarrow> nat" where
  "steps_left s =
     (case at s of CheckError \<Rightarrow> 6 | Select \<Rightarrow> 5 | Sending _ \<Rightarrow> 4 | LastError \<Rightarrow> 4 | Top \<Rightarrow> 3 | Forwarding _ \<Rightarrow> 3
      | CloseErrors \<Rightarrow> 2 | CloseEvents \<Rightarrow> 1 | Finished \<Rightarrow> 0 | Panicked \<Rightarrow> 0)"

lemma steps_left_forward:
  assumes "s' \<in> set (forward_steps s)" "orderly s" "cancelled s"
  shows "steps_left s' < steps_left s \<and> cancelled s'"
proof (cases "at s = Top")
  case True
  with assms show ?thesis by (simp add: forward_steps_def leave_def steps_left_def)
next
  case False
  from assms(1,2) show ?thesis
    by (cases rule: forward_stepsE) (use assms(3) False in \<open>auto simp: steps_left_def split: option.splits\<close>)
qed

text \<open>It never has to wait then.\<close>

lemma forward_enabled: "cancelled s \<Longrightarrow> orderly s \<Longrightarrow> at s \<noteq> Finished \<Longrightarrow> forward_steps s \<noteq> []"
  by (auto simp: forward_steps_def leave_def orderly_def split: place.splits option.splits)

lemma others_keep_place: "stream_step a s s' \<Longrightarrow> a \<noteq> Forward \<Longrightarrow> at s' = at s \<and> (cancelled s \<longrightarrow> cancelled s')"
  by (induction rule: stream_step.induct) auto

lemma cancelled_run:
  assumes "stream_run as s s'" "orderly s" "cancelled s"
  shows "orderly s' \<and> cancelled s' \<and> count_list as Forward + steps_left s' \<le> steps_left s"
  using assms
proof (induction rule: runs.induct)
  case (move as s s' a s'')
  then have i: "orderly s'" "cancelled s'" "count_list as Forward + steps_left s' \<le> steps_left s" by auto
  have o: "orderly s''" by (rule orderly_step [OF move(2) i(1)])
  show ?case
  proof (cases "a = Forward")
    case True
    with move(2) have "s'' \<in> set (forward_steps s')" by (auto elim: forward_stepE)
    with steps_left_forward [OF this i(1,2)] i o True show ?thesis by (auto simp: count_list_append)
  next
    case False
    with others_keep_place [OF move(2)] i o show ?thesis by (auto simp: steps_left_def count_list_append)
  qed
qed simp

lemma run_forwarder_ends:
  assumes "orderly s" "cancelled s" "steps_left s \<le> fuel"
  shows "\<exists>s'. run_forwarder fuel pick s = Some s' \<and> at s' = Finished"
  using assms
proof (induction fuel pick s rule: run_forwarder.induct)
  case (1 pick s)
  then show ?case by (auto simp: steps_left_def orderly_def split: place.splits)
next
  case (2 fuel pick s)
  show ?case
  proof (cases "at s = Finished")
    case False
    let ?s = "forward_steps s ! (pick fuel mod length (forward_steps s))"
    have ne: "forward_steps s \<noteq> []" by (rule forward_enabled [OF 2(3,2) False])
    then have "?s \<in> set (forward_steps s)" by simp
    with orderly_forward [OF this 2(2)] steps_left_forward [OF this 2(2,3)] 2(1) [OF False ne] 2(4) False ne
    show ?thesis by auto
  qed simp
qed

lemma those_map_Some: "(\<And>x. x \<in> set xs \<Longrightarrow> \<exists>y. f x = Some y) \<Longrightarrow> \<exists>ys. those (map f xs) = Some ys"
  by (induction xs) force+

lemma docker_Events_orderly: "stream_run as (docker_Events api_Events networks) s \<Longrightarrow> orderly s"
  using stream_run_inv [of as "docker_Events api_Events networks" s] failed_run
  by (cases networks) (auto simp: docker_Events_def requireNetworks_def stream_inv_def refused_inv_def split: prod.splits)

section \<open>Properties\<close>

text \<open>
  C33. The event stream loses nothing, invents nothing and keeps the order: at every moment, the messages of
  the source are those the consumer has got, followed by those that wait in the channel, at most one the
  goroutine holds, and those it has not taken. An event is given up only when the context is done. Of the
  errors only the first is taken, and unless the context is done it is given to the consumer, once, if it is
  not \<open>nil\<close>.
\<close>

theorem Events_delivered:
  assumes "stream_run as (docker_Events api_Events networks) s" and "networks \<noteq> []"
    and "api_Events (event_filters networks) = (make_chan a, make_chan b)"
  shows "\<exists>lost taken. map mapEvent (offered as) =
      got_events as @ ch_held (mappedEvents s) @ lost @ map mapEvent (ch_held (messages s)) \<and>
    (lost = [] \<or> (\<exists>ev. lost = [ev] \<and> (at s = Sending ev \<or> cancelled s))) \<and>
    offered_errors as = taken @ ch_held (source_errors s) \<and> length taken \<le> 1 \<and>
    (map Some (got_errors as @ ch_held (mappedErrors s) @ in_doubt s) = filter (\<lambda>e. e \<noteq> None) taken \<or>
     cancelled s \<and> got_errors as @ ch_held (mappedErrors s) @ in_doubt s = [])"
proof -
  have s0: "at (docker_Events api_Events networks) = Top" "mappedEvents (docker_Events api_Events networks) = make_chan 1"
    "mappedErrors (docker_Events api_Events networks) = make_chan 1" "ch_held (messages (docker_Events api_Events networks)) = []"
    "ch_held (source_errors (docker_Events api_Events networks)) = []"
    using assms(2,3) by (simp_all add: docker_Events_def requireNetworks_def) (simp_all add: make_chan_def)
  obtain lost taken where i: "accounted [] as s lost" "error_accounted [] as s taken"
    using stream_run_inv [OF assms(1) s0(1-3)] s0(4,5) by (auto simp: stream_inv_def)
  from i(1) have "lost = [] \<or> (\<exists>ev. lost = [ev] \<and> (at s = Sending ev \<or> cancelled s))"
    by (auto simp: accounted_def in_hand_def length_Suc_conv split: place.splits)
  with i show ?thesis by (auto simp: accounted_def error_accounted_def Let_def intro!: exI [of _ lost] exI [of _ taken])
qed

text \<open>
  The goroutine never panics on a closed channel, and whoever finds the channel of events closed does not
  have to wait for the channel of errors: it holds the error that ended the stream, or it is closed too.
  This also holds for the stream of a subscription that was refused.
\<close>

lemma Events_close_order:
  assumes "stream_run as (docker_Events api_Events networks) s"
  shows "at s \<noteq> Panicked \<and> (receive (mappedEvents s) = Closed \<longrightarrow> receive (mappedErrors s) \<noteq> NotReady)"
  using docker_Events_orderly [OF assms] by (auto simp: orderly_def receive_def split: list.splits if_splits)

text \<open>
  C36. Once the context of a stream is done its goroutine never waits and ends after at most six steps of its
  own, however the source and the consumer move in between, even if nobody reads the events. So \<open>Close\<close>,
  which waits for the goroutines of all streams, returns, with the error of the Moby client.
\<close>

theorem Close_returns:
  assumes "\<forall>s\<in>set streams. cancelled s \<and> (\<exists>as api_Events networks. stream_run as (docker_Events api_Events networks) s)"
  shows "list_all (\<lambda>s. \<forall>as' s'. stream_run as' s s' \<longrightarrow>
      count_list as' Forward \<le> 6 \<and> (at s' = Finished \<or> forward_steps s' \<noteq> [])) streams \<and>
    (\<exists>streams'. docker_Close cl 6 pick streams n =
       Some (map_option (wrap ''closing Docker client: '') (fst (api_Close (c_api cl) n)), snd (api_Close (c_api cl) n), streams'))"
proof
  have le: "steps_left s \<le> 6" for s by (simp add: steps_left_def split: place.splits)
  have c: "cancelled s" "orderly s" if "s \<in> set streams" for s using assms that docker_Events_orderly by blast+
  show "list_all (\<lambda>s. \<forall>as' s'. stream_run as' s s' \<longrightarrow>
      count_list as' Forward \<le> 6 \<and> (at s' = Finished \<or> forward_steps s' \<noteq> [])) streams"
    unfolding list_all_iff
  proof (intro ballI allI impI)
    fix s as' s'
    assume "s \<in> set streams" "stream_run as' s s'"
    with c cancelled_run [of as' s s'] le [of s] forward_enabled [of s']
    show "count_list as' Forward \<le> 6 \<and> (at s' = Finished \<or> forward_steps s' \<noteq> [])" by auto
  qed
  have "\<exists>streams'. those (map (run_forwarder 6 pick) streams) = Some streams'"
  proof (rule those_map_Some)
    fix s
    assume "s \<in> set streams"
    with run_forwarder_ends [OF c(2,1) le] show "\<exists>s'. run_forwarder 6 pick s = Some s'" by blast
  qed
  then show "\<exists>streams'. docker_Close cl 6 pick streams n =
      Some (map_option (wrap ''closing Docker client: '') (fst (api_Close (c_api cl) n)), snd (api_Close (c_api cl) n), streams')"
    by (auto simp: docker_Close_def split: prod.splits)
qed

section \<open>A worked stream\<close>

text \<open>
  A container is connected and disconnected; nobody reads, so the second event stays in the hand of the
  goroutine until the context is done. Then the source fails.
\<close>

definition a_message :: "string \<Rightarrow> Message" where
  "a_message action = \<lparr>m_Action = action, m_Attributes = [''container'' \<mapsto> ''c1'', ''name'' \<mapsto> ''saltbox'']\<rparr>"

definition ex_subscription :: stream where
  "ex_subscription = docker_Events (\<lambda>_. (make_chan 0, make_chan 1)) [''saltbox'']"

text \<open>The goroutine takes its only step, or the first of several.\<close>

fun played :: "act list \<Rightarrow> stream \<Rightarrow> stream option" where
  "played [] s = Some s"
| "played (Forward # as) s = (case forward_steps s of [] \<Rightarrow> None | s' # _ \<Rightarrow> played as s')"
| "played (Offer msg # as) s =
     (if ch_closed (messages s) then None
      else played as (s\<lparr>messages := (messages s)\<lparr>ch_held := ch_held (messages s) @ [msg]\<rparr>\<rparr>))"
| "played (Cancel # as) s = played as (s\<lparr>cancelled := True\<rparr>)"
| "played (GotEvent ev # as) s =
     (if receive (mappedEvents s) = Received ev then played as (s\<lparr>mappedEvents := rest_of (mappedEvents s)\<rparr>) else None)"
| "played (OfferError e # as) s =
     (if ch_closed (source_errors s) then None
      else played as (s\<lparr>source_errors := (source_errors s)\<lparr>ch_held := ch_held (source_errors s) @ [e]\<rparr>\<rparr>))"
| "played (_ # as) s = None"

lemma forward_first: "forward_steps s = s' # ss \<Longrightarrow> stream_step Forward s s'"
  by (simp add: stream_step.forward)

lemma played_run: "played as s = Some s' \<Longrightarrow> stream_run as s s'"
  by (induction as s rule: played.induct)
    (auto split: list.splits if_splits intro: runs.start runs_first forward_first stream_step.intros(2-))

definition ex_acts :: "act list" where
  "ex_acts = [Offer (a_message ''connect''), Offer (a_message ''disconnect'')] @ replicate 7 Forward @ [Cancel]"

definition ex_stopped :: stream where
  "ex_stopped = the (played ex_acts ex_subscription)"

lemma ex_stopped_run: "stream_run ex_acts ex_subscription ex_stopped"
proof (rule played_run)
  have "played ex_acts ex_subscription \<noteq> None" by code_simp
  then show "played ex_acts ex_subscription = Some ex_stopped" by (auto simp: ex_stopped_def)
qed

lemma ex_stopped_held:
  "ch_held (mappedEvents ex_stopped) = [mapEvent (a_message ''connect'')]" "ch_held (messages ex_stopped) = []"
  "cancelled ex_stopped"
  by code_simp+

theorem Events_delivered_witness:
  "\<exists>lost. map mapEvent [a_message ''connect'', a_message ''disconnect''] = mapEvent (a_message ''connect'') # lost \<and>
     (lost = [] \<or> (\<exists>ev. lost = [ev] \<and> (at ex_stopped = Sending ev \<or> cancelled ex_stopped)))"
  using Events_delivered [OF ex_stopped_run [unfolded ex_subscription_def]] ex_stopped_held
  by (auto simp: ex_acts_def numeral_eq_Suc)

theorem Close_returns_witness: "\<exists>streams'. docker_Close (ex_client [''c1'']) 6 (\<lambda>_. 0) [ex_stopped] 0 = Some (None, 0, streams')"
proof -
  have "\<forall>s\<in>set [ex_stopped]. cancelled s \<and> (\<exists>as api_Events networks. stream_run as (docker_Events api_Events networks) s)"
    using ex_stopped_run ex_stopped_held(3) by (auto simp: ex_subscription_def)
  from Close_returns [OF this, of "ex_client [''c1'']" "\<lambda>_. 0" 0] show ?thesis by (simp add: ex_client_def)
qed

end
