(* ===== verification/Docker_Daemon.thy ===== *)
theory Docker_Daemon
  imports Docker_Events Daemon_Theorems
begin

text \<open>
  The daemon on the event streams of the Docker client: what a receive from the two channels gives at an
  instant is what the forwarder of \<open>Docker_Events\<close> has put there by then, and what the daemon reports when a
  stream ends is what Docker said.
\<close>

section \<open>The channels of a stream\<close>

definition events_chan :: "(nat \<Rightarrow> stream) \<Rightarrow> Event chan" where
  "events_chan st n = receive (mappedEvents (st n))"

definition errors_chan :: "(nat \<Rightarrow> stream) \<Rightarrow> err chan" where
  "errors_chan st n =
     (case receive (mappedErrors (st n)) of NotReady \<Rightarrow> NotReady | Closed \<Rightarrow> Closed | Received e \<Rightarrow> Received (Some e))"

text \<open>What a stream that ended by itself was told by its source: the first error, or why it was refused.\<close>

definition verdict_of :: "string list \<Rightarrow> act list \<Rightarrow> err" where
  "verdict_of networks as =
     (case requireNetworks networks of Some e \<Rightarrow> Some e | None \<Rightarrow> (case offered_errors as of [] \<Rightarrow> None | e # _ \<Rightarrow> e))"

text \<open>
  What is documented of the Moby client: the channels it returns are open and empty, it does not close the one for
  messages, and it closes the one for errors only after an error.
\<close>

definition moby_stream :: "((string \<times> string list) list \<Rightarrow> Message channel \<times> err channel) \<Rightarrow> string list \<Rightarrow> act list \<Rightarrow> bool" where
  "moby_stream api_Events networks as \<longleftrightarrow>
     (\<exists>a b. api_Events (event_filters networks) = (make_chan a, make_chan b)) \<and> EndMessages \<notin> set as \<and>
     EndErrors \<notin> set (takeWhile (\<lambda>a. \<forall>e. a \<noteq> OfferError e) as)"

lemma no_error_offered: "offered_errors as = [] \<Longrightarrow> takeWhile (\<lambda>a. \<forall>e. a \<noteq> OfferError e) as = as"
  by (induction as rule: offered_errors.induct) auto

interpretation stream_open: machine stream_step
  "\<lambda>as s. (EndMessages \<notin> set as \<longrightarrow> \<not> ch_closed (messages s)) \<and> (EndErrors \<notin> set as \<longrightarrow> \<not> ch_closed (source_errors s))"
proof
  fix a s s' and as :: "act list"
  assume "stream_step a s s'"
    "(EndMessages \<notin> set as \<longrightarrow> \<not> ch_closed (messages s)) \<and> (EndErrors \<notin> set as \<longrightarrow> \<not> ch_closed (source_errors s))"
  then show "(EndMessages \<notin> set (as @ [a]) \<longrightarrow> \<not> ch_closed (messages s')) \<and>
      (EndErrors \<notin> set (as @ [a]) \<longrightarrow> \<not> ch_closed (source_errors s'))"
  proof (induction rule: stream_step.induct)
    case (forward s' s)
    then show ?case by (auto simp: forward_defs split: place.splits if_splits list.splits recv.splits option.splits)
  qed (simp_all add: rest_of_def)
qed

lemma docker_Events_started:
  assumes "networks \<noteq> []" "api_Events (event_filters networks) = (make_chan a, make_chan b)"
  shows "docker_Events api_Events networks = \<lparr>at = Top, cancelled = False, messages = make_chan a, source_errors = make_chan b,
    mappedEvents = make_chan 1, mappedErrors = make_chan 1\<rparr>"
  using assms by (simp add: docker_Events_def requireNetworks_def)

lemma ended_stream_verdict:
  assumes run: "stream_run as (docker_Events api_Events networks) s" and moby: "moby_stream api_Events networks as"
    and fin: "receive (mappedErrors s) \<noteq> NotReady" "\<not> cancelled s" "got_errors as = []"
  shows "receive (mappedErrors s) = (case verdict_of networks as of None \<Rightarrow> Closed | Some e \<Rightarrow> Received e)"
proof (cases "networks = []")
  case True
  then have "refused_inv (errors_New ''at least one Docker network is required'') as s"
    using failed_run run by (simp add: docker_Events_def requireNetworks_def)
  with True fin(3) show ?thesis by (simp add: refused_inv_def verdict_of_def requireNetworks_def receive_def)
next
  case False
  obtain a b where ab: "api_Events (event_filters networks) = (make_chan a, make_chan b)"
    and quiet: "EndMessages \<notin> set as" "EndErrors \<notin> set (takeWhile (\<lambda>a. \<forall>e. a \<noteq> OfferError e) as)" using moby by (auto simp: moby_stream_def)
  note s0 = docker_Events_started [of networks api_Events a b, OF False ab]
  have "stream_inv [] [] as s" using stream_run_inv [OF run] by (simp add: s0) (simp add: make_chan_def)
  then obtain taken where inv: "orderly s" "error_accounted [] as s taken" "explained [] as s"
    unfolding stream_inv_def by blast
  from inv(2) fin(2,3) have acc: "offered_errors as = taken @ ch_held (source_errors s)" "length taken \<le> 1"
    "map Some (ch_held (mappedErrors s) @ in_doubt s) = filter (\<lambda>e. e \<noteq> None) taken"
    by (auto simp: error_accounted_def Let_def)
  show ?thesis
  proof (cases "ch_held (mappedErrors s)")
    case (Cons y ys)
    with acc(2,3) have "taken = [Some y]" by (cases taken) (auto split: if_splits)
    with acc(1) Cons False show ?thesis by (simp add: verdict_of_def requireNetworks_def receive_def)
  next
    case Nil
    with fin(1) have "ch_closed (mappedErrors s)" by (simp add: receive_def split: if_splits)
    with inv(1) have end_at: "at s = CloseEvents \<or> at s = Finished" by (auto simp: orderly_def)
    have "\<not> ch_closed (messages s) \<and> (EndErrors \<notin> set as \<longrightarrow> \<not> ch_closed (source_errors s))"
      using stream_open.run_inv [OF run] quiet(1) by (simp add: s0) (simp add: make_chan_def)
    moreover have "EndErrors \<notin> set as" if "offered_errors as = []" using quiet(2) unfolding no_error_offered [OF that] .
    ultimately have "\<not> ch_closed (messages s)" "\<not> (ch_closed (source_errors s) \<and> offered_errors as = [])"
      by auto
    with inv(3) end_at fin(2) have "ch_held (source_errors s) \<noteq> offered_errors as" by (auto simp: explained_def ending_def)
    with acc(1,2) obtain x where x: "taken = [x]" by (cases taken) auto
    have "in_doubt s = []" using end_at by (auto simp: in_doubt_def)
    with acc(3) Nil x have "x = None" by (simp split: if_splits)
    with acc(1) x False Nil \<open>ch_closed (mappedErrors s)\<close> show ?thesis
      by (simp add: verdict_of_def requireNetworks_def receive_def)
  qed
qed

lemma error_waits:
  assumes "stream_run as s s'" "got_errors as = []" "receive (mappedErrors s) \<noteq> NotReady"
  shows "receive (mappedErrors s') \<noteq> NotReady"
  using assms
proof (induction rule: runs.induct)
  case (move as s s' a s'')
  then have "receive (mappedErrors s') \<noteq> NotReady" "\<forall>e. a \<noteq> GotError e" by auto
  with move(2) show ?case
    by (induction rule: stream_step.induct) 
      (auto simp: forward_defs split: place.splits if_splits list.splits recv.splits option.splits)
qed simp


section \<open>The client as the source of the daemon\<close>

text \<open>
  \<open>Client\<close> implements \<open>NetworkSource\<close>: \<open>streams n\<close> is the life of the stream that was opened at the instant \<open>n\<close>.
  \<open>Close\<close> returns the error of the Moby client, as \<open>docker_Close\<close> is shown to do.
\<close>

definition docker_source ::
  "((endpoint \<Rightarrow> endpoint \<Rightarrow> int) \<Rightarrow> endpoint list \<Rightarrow> endpoint list) \<Rightarrow> (nat \<Rightarrow> nat \<Rightarrow> stream) \<Rightarrow> Client \<Rightarrow> NetworkSource" where
  "docker_source SortFunc streams cl =
     \<lparr>src_Ping = docker_Ping cl, src_Snapshot = docker_Snapshot SortFunc cl,
      src_Events = (\<lambda>c networks n. ((Some (events_chan (streams n)), Some (errors_chan (streams n))), n)),
      src_Close = (\<lambda>n. case api_Close (c_api cl) n of (e, n) \<Rightarrow> (map_option (wrap ''closing Docker client: '') e, n))\<rparr>"

lemma docker_source_stream:
  assumes "src_Events (d_source d) = src_Events (docker_source srt streams cl)"
    and "\<forall>n. c n = None \<and> \<not> srv_Done (d_server d) None n"
  obtains n where "instant s < n" "n < instant (startStream d c s)" "events (startStream d c s) = Some (events_chan (streams n))"
    "eventErrors (startStream d c s) = Some (errors_chan (streams n))"
proof -
  have go: "stopReady d c s = (False, tick (tick s))" for s
    using assms(2) by (auto simp: stopReady_def loopStreamStopReady_def)
  define s1 where "s1 = cancelStream (tick (tick s))"
  let ?n = "instant s1"
  let ?s2 = "called CallEvents ?n (s1\<lparr>streamCancel := Some ?n, p_live := ?n # p_live s1,
    events := Some (events_chan (streams ?n)), eventErrors := Some (errors_chan (streams ?n))\<rparr>)"
  have i: "instant (tick p) = Suc (instant p)" for p :: loopState by (simp add: tick_def instant_def later_def)
  have up: "instant s < ?n" by (auto simp: s1_def i cancelStream_def instant_def called_def later_def split: option.splits)
      (auto simp: tick_def later_def)
  have "startStream d c s = (let s = tick (tick ?s2) in s\<lparr>stabilityTimer := resetLoopTimer (now_of d s) (stabilityTimer s)
      (streamStabilityDelay (d_timing d))\<rparr>)"
    by (simp add: startStream_def go assms(1) docker_source_def Let_def s1_def instant_def)
  then show thesis
    by (intro that [of ?n]) (use up in \<open>simp_all add: Let_def called_def tick_def instant_def later_def\<close>)
qed

section \<open>What the loop does with a stream\<close>

text \<open>A step that leaves the stream alone; the reconnection is not due while there is one.\<close>

definition same_stream :: "loopState \<Rightarrow> loopState \<Rightarrow> bool" where
  "same_stream s s' \<longleftrightarrow> events s' = events s \<and> eventErrors s' = eventErrors s \<and> reconnectTimer s' = reconnectTimer s"

definition unarmed :: "loopState \<Rightarrow> bool" where
  "unarmed s \<longleftrightarrow> events s = None \<and> eventErrors s = None \<or> reconnectTimer s = None"

lemma same_stream_unarmed: "same_stream s s' \<Longrightarrow> unarmed s \<Longrightarrow> unarmed s'"
  by (simp add: same_stream_def unarmed_def)

lemma same_stream_trans: "same_stream s s' \<Longrightarrow> same_stream s' s'' \<Longrightarrow> same_stream s s''"
  by (simp add: same_stream_def)

lemma frame_same_stream: "frame s s' \<Longrightarrow> same_stream s s'"
  by (simp add: same_stream_def loop_fields)

lemma same_stream_steps [simp]:
  "same_stream s (tick x) = same_stream s x" "same_stream s (track f x) = same_stream s x" "same_stream s (logged y x) = same_stream s x"
  "same_stream s (x\<lparr>lastStreamFailure := m\<rparr>) = same_stream s x" "same_stream s (x\<lparr>lastReconcileFailure := m\<rparr>) = same_stream s x"
  "same_stream s (x\<lparr>periodicTimer := t\<rparr>) = same_stream s x" "same_stream s (x\<lparr>debounceTimer := t\<rparr>) = same_stream s x"
  "same_stream s (x\<lparr>maximumTimer := t\<rparr>) = same_stream s x" "same_stream s (x\<lparr>retryTimer := t\<rparr>) = same_stream s x"
  "same_stream s (x\<lparr>stabilityTimer := t\<rparr>) = same_stream s x" "same_stream s (x\<lparr>retryDelay := n\<rparr>) = same_stream s x"
  "same_stream s (x\<lparr>reconnectDelay := n\<rparr>) = same_stream s x" "same_stream s (x\<lparr>pending := b\<rparr>) = same_stream s x"
  "same_stream s s"
  by (simp_all add: same_stream_def)

lemma stopReady_same: "stopReady d c s = (b, s') \<Longrightarrow> same_stream s s'"
  by (rule frame_same_stream) (rule stopReady_spec(1))

lemma recoverStream_same: "same_stream s (recoverStream d c ev s)"
proof -
  obtain b s1 where st: "stopReady d c s = (b, s1)" by fastforce
  from stopReady_same [OF st] show ?thesis by (simp add: recoverStream_def st Let_def split: bool.splits)
qed

lemma observeEvent_same: "same_stream s (observeEvent d c s)"
proof -
  obtain b s1 where st: "stopReady d c s = (b, s1)" by fastforce
  from same_stream_trans [OF stopReady_same [OF st] recoverStream_same] stopReady_same [OF st] show ?thesis
    by (simp add: observeEvent_def st Let_def split: bool.splits)
qed

lemma reconcilePending_same: "same_stream s (reconcilePending d c s)"
proof -
  define s0 where "s0 = s\<lparr>pending := False, periodicTimer := None, debounceTimer := None, maximumTimer := None, retryTimer := None\<rparr>"
  obtain e s1 where re: "reconcile d c s0 = (e, s1)" by fastforce
  obtain b s2 where st: "stopReady d c s1 = (b, s2)" by fastforce
  have "same_stream s s0" by (simp add: s0_def)
  moreover have "same_stream s0 s1" using reconcile_frame [OF re] by (auto intro: frame_same_stream)
  ultimately have s2: "same_stream s s2" using stopReady_same [OF st] by (blast intro: same_stream_trans)
  then have s3: "same_stream s (scheduleAfter d c s2)" by (simp add: scheduleAfter_def)
  have "same_stream s (retryAfter d e x)" if "same_stream s x" for x
    using that by (simp add: retryAfter_def Let_def split: option.splits)
  with s2 s3 show ?thesis
    by (simp add: reconcilePending_def s0_def [symmetric] re st Let_def split: bool.splits)
qed

lemma disconnectStream_none: "events (disconnectStream d c e s) = None" "eventErrors (disconnectStream d c e s) = None"
proof -
  let ?s = "(cancelStream s)\<lparr>events := None, eventErrors := None, stabilityTimer := None\<rparr>"
  obtain b s1 where st: "stopReady d c ?s = (b, s1)" by fastforce
  from stopReady_same [OF st] have "events s1 = None" "eventErrors s1 = None" by (auto simp: same_stream_def)
  then show "events (disconnectStream d c e s) = None" "eventErrors (disconnectStream d c e s) = None"
    by (auto simp: disconnectStream_def Let_def st split: bool.splits)
qed

lemma disconnectStream_unarmed: "unarmed (disconnectStream d c e s)"
  by (simp add: unarmed_def disconnectStream_none)

lemma startStream_unarmed:
  assumes "reconnectTimer s = None"
  shows "unarmed (startStream d c s)"
proof -
  have stop: "reconnectTimer s' = reconnectTimer s" if "stopReady d c s = (b, s')" for s s' b
    using stopReady_same [OF that] by (simp add: same_stream_def)
  show ?thesis using assms
    by (auto simp: startStream_def unarmed_def Let_def dest!: stop split: prod.splits bool.splits)
qed

text \<open>
  What a step of the \<open>select\<close> does with a stream whose reconnection is not due: it keeps it, or it gives it up
  with what it has read from the channel for errors three instants before the end of the step.
\<close>

definition given_up :: "Daemon \<Rightarrow> err chan \<Rightarrow> loopState \<Rightarrow> loopState \<Rightarrow> bool" where
  "given_up d errs s s' \<longleftrightarrow> events s' = None \<and> eventErrors s' = None \<and>
     (\<exists>e m. instant s \<le> m \<and> instant s' = m + 3 \<and> (errs m = Received e \<or> errs m = Closed \<and> e = None) \<and>
        (\<exists>t. p_tracker s' = Fail t ConcernDockerEvents (case e of None \<Rightarrow> eventStreamClosedMessage | Some e \<Rightarrow> error_text d e) (p_tracker s)))"


lemma disconnectStream_reports:
  assumes "lasting d c" "\<not> stopped d c (instant (disconnectStream d c e s))"
  shows "instant (disconnectStream d c e s) = instant s + 2"
    and "\<exists>t. p_tracker (disconnectStream d c e s) =
      Fail t ConcernDockerEvents (case e of None \<Rightarrow> eventStreamClosedMessage | Some e \<Rightarrow> error_text d e) (p_tracker s)"
proof -
  let ?s = "(cancelStream s)\<lparr>events := None, eventErrors := None, stabilityTimer := None\<rparr>"
  obtain b s1 where st: "stopReady d c ?s = (b, s1)" by fastforce
  have "\<not> b"
  proof
    assume b
    then have "disconnectStream d c e s = s1" using st by (simp add: disconnectStream_def Let_def)
    with stopReady_spec(5) [OF st assms(1) \<open>b\<close>] assms(2) show False by simp
  qed
  then have s1: "s1 = tick (tick ?s)" using st by (auto simp: stopReady_def loopStreamStopReady_def split: if_splits)
  have "p_tracker (cancelStream s) = p_tracker s" by (simp add: cancelStream_def split: option.splits)
  then have t: "p_tracker s1 = p_tracker s" "instant s1 = instant s + 2" by (simp_all add: s1)
  let ?msg = "case e of None \<Rightarrow> eventStreamClosedMessage | Some e \<Rightarrow> error_text d e"
  have "p_tracker (disconnectStream d c e s) = Fail (now_of d s1) ConcernDockerEvents ?msg (p_tracker s) \<and>
      instant (disconnectStream d c e s) = instant s + 2"
    using st \<open>\<not> b\<close> t by (auto simp: disconnectStream_def Let_def track_def logged_def instant_def now_of_def)
  then show "instant (disconnectStream d c e s) = instant s + 2"
    "\<exists>t. p_tracker (disconnectStream d c e s) = Fail t ConcernDockerEvents ?msg (p_tracker s)" by blast+
qed

lemma disconnected_given_up:
  assumes "lasting d c" "\<not> stopped d c (instant (disconnectStream d c e x))" "p_tracker x = p_tracker s"
    and "instant x = Suc m" "instant s \<le> m" "errs m = Received e \<or> errs m = Closed \<and> e = None"
  shows "given_up d errs s (disconnectStream d c e x)"
  unfolding given_up_def
  using disconnectStream_reports [OF assms(1,2)] assms(3-6) disconnectStream_none
  by (intro conjI exI [of _ e] exI [of _ m]) simp_all

lemma streamErrorReady_chan:
  "eventErrors s = Some errs \<Longrightarrow> streamErrorReady s =
     ((case errs (instant s) of Received e \<Rightarrow> (e, True) | Closed \<Rightarrow> (None, True) | NotReady \<Rightarrow> (None, False)), tick s)"
  by (simp add: streamErrorReady_def split: recv.splits)

lemma handleEvent_stream:
  assumes "lasting d c" "\<not> stopped d c (instant (handleEvent d c False x))" "eventErrors x = Some errs"
    and "p_tracker x = p_tracker s" "instant s \<le> instant x"
    and "instant x + 3 \<le> instant (handleEvent d c False x) \<Longrightarrow> errs (instant x) \<noteq> NotReady"
  shows "given_up d errs s (handleEvent d c False x)" and "instant (handleEvent d c False x) = instant x + 3"
proof -
  obtain e rdy where er: "(case errs (instant x) of Received e \<Rightarrow> (e, True) | Closed \<Rightarrow> (None, True) | NotReady \<Rightarrow> (None, False)) = (e, rdy)"
    by fastforce
  then have h: "handleEvent d c False x = disconnectStream d c e (tick x)"
    by (simp add: handleEvent_def streamErrorReady_chan [OF assms(3)])
  then show i: "instant (handleEvent d c False x) = instant x + 3"
    using disconnectStream_reports(1) [OF assms(1), of e "tick x"] assms(2) by simp
  have "errs (instant x) \<noteq> NotReady" by (rule assms(6)) (simp add: i)
  with er have "errs (instant x) = Received e \<or> errs (instant x) = Closed \<and> e = None" by (cases "errs (instant x)") auto
  with assms show "given_up d errs s (handleEvent d c False x)" unfolding h by (intro disconnected_given_up) simp_all
qed

lemma handleStability_stream:
  assumes "lasting d c" "\<not> stopped d c (instant (handleStability d c (tick s)))"
    and "events s = Some evs" "eventErrors s = Some errs"
    and "\<And>n. instant s \<le> n \<Longrightarrow> n + 4 \<le> instant (handleStability d c (tick s)) \<Longrightarrow> evs n = Closed \<Longrightarrow> errs (Suc n) \<noteq> NotReady"
  shows "same_stream s (handleStability d c (tick s)) \<or> given_up d errs s (handleStability d c (tick s))"
    and "instant s + 6 \<le> instant (handleStability d c (tick s))"
    and "errs (instant s + 3) \<noteq> NotReady \<Longrightarrow> given_up d errs s (handleStability d c (tick s))"
proof -
  let ?s = "(tick s)\<lparr>stabilityTimer := None\<rparr>"
  let ?r = "handleStability d c (tick s)"
  obtain b s1 where st: "stopReady d c ?s = (b, s1)" by fastforce
  have "\<not> b"
  proof
    assume b
    then have "?r = s1" using st by (simp add: handleStability_def Let_def)
    with stopReady_spec(5) [OF st assms(1) \<open>b\<close>] assms(2) show False by simp
  qed
  then have s1: "s1 = tick (tick ?s)" using st by (auto simp: stopReady_def loopStreamStopReady_def split: if_splits)
  have tr: "p_tracker (x\<lparr>stabilityTimer := t\<rparr>) = p_tracker x" for x :: loopState and t by simp
  have i1: "instant s1 = instant s + 3" "p_tracker s1 = p_tracker s" "events s1 = Some evs" "eventErrors s1 = Some errs"
    using assms(3,4) by (simp_all add: s1 tr)
  have same1: "same_stream s s1" by (simp add: s1)
  have r: "?r = (case streamErrorReady s1 of
             ((streamErr, True), s) \<Rightarrow> disconnectStream d c streamErr s
           | ((_, False), s) \<Rightarrow>
               (case (case events s of None \<Rightarrow> NotReady | Some ch \<Rightarrow> ch (instant s)) of
                  Closed \<Rightarrow> handleEvent d c False (tick s)
                | Received _ \<Rightarrow> observeEvent d c (tick s)
                | NotReady \<Rightarrow> recoverStream d c ''stable'' (tick s)))"
    using st \<open>\<not> b\<close> by (simp add: handleStability_def Let_def handleEvent_def split: prod.split bool.split option.split recv.split)
  consider (ready) e where "errs (instant s + 3) = Received e \<or> errs (instant s + 3) = Closed \<and> e = None" "?r = disconnectStream d c e (tick s1)"
    | (closed) "errs (instant s + 3) = NotReady" "evs (instant s + 4) = Closed" "?r = handleEvent d c False (tick (tick s1))"
    | (quiet) "errs (instant s + 3) = NotReady" "?r = observeEvent d c (tick (tick s1)) \<or> ?r = recoverStream d c ''stable'' (tick (tick s1))"
  proof (cases "errs (instant s + 3)")
    case NotReady
    then have "?r = (case evs (instant s + 4) of
                  Closed \<Rightarrow> handleEvent d c False (tick (tick s1))
                | Received _ \<Rightarrow> observeEvent d c (tick (tick s1))
                | NotReady \<Rightarrow> recoverStream d c ''stable'' (tick (tick s1)))"
      unfolding r streamErrorReady_chan [OF i1(4)] i1(1) by (simp add: i1 numeral_eq_Suc)
    with NotReady closed quiet show thesis by (cases "evs (instant s + 4)") simp_all
  qed (use ready r streamErrorReady_chan [OF i1(4)] i1(1) in simp_all)
  then have "(same_stream s ?r \<or> given_up d errs s ?r) \<and> instant s + 6 \<le> instant ?r \<and>
      (errs (instant s + 3) \<noteq> NotReady \<longrightarrow> given_up d errs s ?r)"
  proof cases
    case ready
    then have ns: "\<not> stopped d c (instant (disconnectStream d c e (tick s1)))" using assms(2) by simp
    have "given_up d errs s ?r"
      unfolding ready(2) using ready(1) i1 by (intro disconnected_given_up [OF assms(1) ns, of s "instant s + 3"]) simp_all
    moreover have "instant ?r = instant s + 6"
      unfolding ready(2) using disconnectStream_reports(1) [OF assms(1) ns] i1 by simp
    ultimately show ?thesis by simp
  next
    case closed
    let ?x = "tick (tick s1)"
    have x: "instant ?x = instant s + 5" "eventErrors ?x = Some errs" "p_tracker ?x = p_tracker s" using i1 by simp_all
    have ns: "\<not> stopped d c (instant (handleEvent d c False ?x))" using assms(2) closed(3) by simp
    have rdy: "errs (instant ?x) \<noteq> NotReady" if "instant ?x + 3 \<le> instant (handleEvent d c False ?x)"
      using assms(5) [of "instant s + 4"] closed that x(1) by (simp add: numeral_eq_Suc)
    have le: "instant s \<le> instant ?x" using x(1) by simp
    note given = handleEvent_stream [OF assms(1) ns x(2,3) le rdy]
    have "given_up d errs s ?r" "instant s + 6 \<le> instant ?r" using given x(1) unfolding closed(3) by simp_all
    then show ?thesis using closed(1) by simp
  next
    case quiet
    have "instant s + 6 \<le> instant ?r"
      using quiet(2) observeEvent_instant [of "tick (tick s1)" d c] recoverStream_debounce(4) [of "tick (tick s1)" d c "''stable''"] i1 by auto
    moreover have "same_stream s ?r"
      using quiet(2) same_stream_trans [OF same1] observeEvent_same [of "tick (tick s1)"] recoverStream_same [of "tick (tick s1)"]
      by (auto simp: same_stream_def)
    ultimately show ?thesis using quiet(1) by simp
  qed
  then show "same_stream s ?r \<or> given_up d errs s ?r" "instant s + 6 \<le> instant ?r"
    "errs (instant s + 3) \<noteq> NotReady \<Longrightarrow> given_up d errs s ?r" by blast+
qed


text \<open>The case the \<open>select\<close> takes, and whether it looks at the end of the stream.\<close>

definition chosen :: "Daemon \<Rightarrow> ctx \<Rightarrow> loopState \<Rightarrow> ready_case" where
  "chosen d c s = ready_cases d c s ! (rt_pick (d_runtime d) (instant s) mod length (ready_cases d c s))"

fun about_stream :: "ready_case \<Rightarrow> bool" where
  "about_stream (OnEvent ok) = (\<not> ok)"
| "about_stream (OnStreamError e ok) = True"
| "about_stream OnStability = True"
| "about_stream _ = False"

lemma select_step:
  assumes "lasting d c" "unarmed s" "events s = Some evs" "eventErrors s = Some errs"
    and "ready_cases d c s \<noteq> []" "take_case d c (chosen d c s) (tick s) = (ctl, s')" "\<not> stopped d c (instant s')"
    and order: "\<And>n. instant s \<le> n \<Longrightarrow> n + 4 \<le> instant s' \<Longrightarrow> evs n = Closed \<Longrightarrow> errs (Suc n) \<noteq> NotReady"
  shows "same_stream s s' \<or> given_up d errs s s'"
    and "about_stream (chosen d c s) \<Longrightarrow> (instant s + 6 \<le> instant s' \<Longrightarrow> errs (instant s + 3) \<noteq> NotReady) \<Longrightarrow> given_up d errs s s'"
proof -
  have k: "chosen d c s \<in> set (ready_cases d c s)" using assms(5) by (simp add: chosen_def)
  have "(same_stream s s' \<or> given_up d errs s s') \<and>
      (about_stream (chosen d c s) \<longrightarrow> (instant s + 6 \<le> instant s' \<longrightarrow> errs (instant s + 3) \<noteq> NotReady) \<longrightarrow> given_up d errs s s')"
  proof (cases "chosen d c s")
    case (OnEvent ok)
    with assms(6) have s': "s' = handleEvent d c ok (tick s)" by (simp add: take_case_def)
    show ?thesis
    proof (cases ok)
      case True
      with OnEvent s' observeEvent_same [of "tick s" d c] show ?thesis by (simp add: handleEvent_def same_stream_def)
    next
      case False
      with k OnEvent assms(3,4) have "evs (instant s) = Closed"
        by (auto simp: ready_cases_def split: recv.splits if_splits)
      then have "given_up d errs s (handleEvent d c False (tick s))"
        using order [of "instant s"] assms(1,4,7) s' False by (intro handleEvent_stream(1)) (simp_all add: numeral_eq_Suc)
      with s' False show ?thesis by simp
    qed
  next
    case (OnStreamError e ok)
    with k assms(3,4) have e: "errs (instant s) = Received e \<and> ok \<or> errs (instant s) = Closed \<and> e = None \<and> \<not> ok"
      by (auto simp: ready_cases_def split: recv.splits if_splits)
    with assms(6) OnStreamError have s': "s' = disconnectStream d c e (tick s)"
      by (auto simp: take_case_def handleStreamError_def)
    have "given_up d errs s s'"
      unfolding s' using assms(1,7) e s' by (intro disconnected_given_up [where m = "instant s"]) auto
    then show ?thesis by simp
  next
    case OnStability
    with assms(6) have s': "s' = handleStability d c (tick s)" by (simp add: take_case_def)
    note h = handleStability_stream [OF assms(1) assms(7) [unfolded s'] assms(3,4), folded s', OF order]
    from h show ?thesis by blast
  next
    case OnReconnect
    with k assms(2-4) have False
      by (cases "evs (instant s)"; cases "errs (instant s)"; simp add: ready_cases_def unarmed_def loopTimerChannel_def split: if_splits)
    then show ?thesis ..
  qed (use assms(6) in \<open>auto simp: take_case_def loopServerResult_def split: option.splits prod.splits\<close>)
  then show "same_stream s s' \<or> given_up d errs s s'"
    "about_stream (chosen d c s) \<Longrightarrow> (instant s + 6 \<le> instant s' \<Longrightarrow> errs (instant s + 3) \<noteq> NotReady) \<Longrightarrow> given_up d errs s s'"
    by blast+
qed

lemma take_case_unarmed:
  assumes "unarmed s" "take_case d c k s = (ctl, s')"
  shows "unarmed s'"
proof (cases k)
  case (OnEvent ok)
  with assms same_stream_unarmed [OF observeEvent_same assms(1)] disconnectStream_unarmed show ?thesis
    by (cases ok) (auto simp: take_case_def handleEvent_def split: prod.splits)
next
  case (OnStreamError e ok)
  with assms disconnectStream_unarmed show ?thesis by (auto simp: take_case_def handleStreamError_def split: if_splits)
next
  case OnStability
  let ?s = "s\<lparr>stabilityTimer := None\<rparr>"
  obtain b s1 where st: "stopReady d c ?s = (b, s1)" by fastforce
  obtain e rdy s2 where er: "streamErrorReady s1 = ((e, rdy), s2)" by (metis prod.exhaust)
  have "same_stream s ?s" by simp
  then have s1: "same_stream s s1" using stopReady_same [OF st] by (rule same_stream_trans)
  then have s2: "same_stream s (tick s2)"
    using frame_same_stream [OF streamErrorReady_frame [OF er]] by (auto intro: same_stream_trans)
  note same = same_stream_unarmed [OF same_stream_trans [OF s2] assms(1)]
  show ?thesis
    using OnStability assms(2) same_stream_unarmed [OF s1 assms(1)] disconnectStream_unarmed
      same [OF observeEvent_same] same [OF recoverStream_same]
    by (auto simp: take_case_def handleStability_def Let_def st er split: bool.splits option.splits recv.splits prod.splits)
next
  case OnReconnect
  let ?s = "s\<lparr>reconnectTimer := None\<rparr>"
  obtain b s1 where st: "stopReady d c ?s = (b, s1)" by fastforce
  have r: "reconnectTimer s1 = None" using stopReady_same [OF st] by (simp add: same_stream_def)
  then have "unarmed s1" by (simp add: unarmed_def)
  with OnReconnect assms(2) st startStream_unarmed [OF r] disconnectStream_unarmed show ?thesis
    by (auto simp: take_case_def Let_def split: bool.splits if_splits)
qed (use assms in \<open>auto simp: take_case_def loopServerResult_def unarmed_def split: option.splits prod.splits\<close>)

lemma loop_step_unarmed:
  assumes "unarmed s" "loop_step d c (ctl, s) = (ctl', s')"
  shows "unarmed s'"
proof -
  have t: "unarmed (tick s)" "unarmed (tick (tick s))" using assms(1) by (simp_all add: unarmed_def)
  show ?thesis
  proof (cases ctl)
    case Checking
    obtain r s1 where r: "loopStop d c s = (r, s1)" by fastforce
    with loopStop_tick [OF r] same_stream_unarmed [OF reconcilePending_same t(2)] t Checking assms(2)
    show ?thesis by (auto split: option.splits prod.splits if_splits)
  next
    case Waiting
    with take_case_unarmed [OF t(1)] t assms(2) show ?thesis by (auto split: list.splits)
  qed (use assms in simp)
qed

lemma loop_states_unarmed:
  assumes "reaches d c (Checking, loop_start d c e p) (ctl, s)"
  shows "unarmed s"
proof -
  have "reconnectTimer (newLoopState d e p) = None"
    by (simp add: newLoopState_def Let_def process.defs split: option.splits)
  from startStream_unarmed [OF this] disconnectStream_unarmed
  have start: "unarmed (loop_start d c e p)" by (simp add: loop_start_def Let_def)
  have "unarmed (snd y)" if "reaches d c (Checking, loop_start d c e p) y" for y
    using that
  proof (induction rule: reaches.induct)
    case (step y)
    then show ?case using loop_step_unarmed [of "snd y" d c "fst y"] by (metis prod.collapse)
  qed (simp add: start)
  from this [OF assms] show ?thesis by simp
qed


section \<open>What the daemon reports\<close>

definition verdict_text :: "Daemon \<Rightarrow> err \<Rightarrow> string" where
  "verdict_text d e = (case e of None \<Rightarrow> eventStreamClosedMessage | Some e \<Rightarrow> error_text d e)"

lemma errors_chan_ready: "errors_chan st n = NotReady \<longleftrightarrow> receive (mappedErrors (st n)) = NotReady"
  by (simp add: errors_chan_def split: recv.splits)

text \<open>A stream that was opened at the instant \<open>k\<close>, with what has happened to it up to each instant.\<close>

definition docker_stream ::
  "((string \<times> string list) list \<Rightarrow> Message channel \<times> err channel) \<Rightarrow> string list \<Rightarrow> (nat \<Rightarrow> act list) \<Rightarrow> (nat \<Rightarrow> stream) \<Rightarrow> nat \<Rightarrow> bool" where
  "docker_stream api_Events networks hist st k \<longleftrightarrow>
     chronicle stream_step hist st k \<and> st k = docker_Events api_Events networks \<and> (\<forall>n. moby_stream api_Events networks (hist n))"

lemma docker_stream_run:
  "docker_stream api_Events networks hist st k \<Longrightarrow> k \<le> n \<Longrightarrow> stream_run (hist n) (docker_Events api_Events networks) (st n)"
  using chronicle_start [of stream_step hist st k n] by (simp add: docker_stream_def)

lemma docker_stream_waits:
  assumes "docker_stream api_Events networks hist st k" "k \<le> m" "m \<le> n" "got_errors (hist n) = []" "errors_chan st m \<noteq> NotReady"
  shows "errors_chan st n \<noteq> NotReady"
proof -
  obtain as where as: "hist n = hist m @ as" "stream_run as (st m) (st n)"
    using chronicle_run [of stream_step hist st k m n] assms(1-3) by (auto simp: docker_stream_def)
  from error_waits [OF as(2)] as(1) assms(4,5) show ?thesis by (simp add: errors_chan_ready)
qed

lemma docker_stream_order:
  assumes "docker_stream api_Events networks hist st k" "k \<le> n" "events_chan st n = Closed" "got_errors (hist (Suc n)) = []"
  shows "errors_chan st (Suc n) \<noteq> NotReady"
proof -
  have "errors_chan st n \<noteq> NotReady"
    using Events_close_order [OF docker_stream_run [OF assms(1,2)]] assms(3) by (simp add: errors_chan_ready events_chan_def)
  with docker_stream_waits [OF assms(1,2) _ assms(4)] show ?thesis by simp
qed

lemma docker_stream_verdict:
  assumes "docker_stream api_Events networks hist st k" "k \<le> n" "got_errors (hist n) = []" "\<not> cancelled (st n)"
    and "errors_chan st n = Received e \<or> errors_chan st n = Closed \<and> e = None"
  shows "e = verdict_of networks (hist n)"
proof -
  have "receive (mappedErrors (st n)) \<noteq> NotReady" using assms(5) errors_chan_ready [of st n] by auto
  moreover have "moby_stream api_Events networks (hist n)" using assms(1) by (simp add: docker_stream_def)
  ultimately have "receive (mappedErrors (st n)) = (case verdict_of networks (hist n) of None \<Rightarrow> Closed | Some e \<Rightarrow> Received e)"
    using ended_stream_verdict [OF docker_stream_run [OF assms(1,2)]] assms(3,4) by blast
  with assms(5) show ?thesis by (auto simp: errors_chan_def split: option.splits)
qed

lemma given_up_verdict:
  assumes "docker_stream api_Events networks hist st k" "k \<le> instant s" "given_up d (errors_chan st) s s'"
    and "tracker_inv (Suc N) (p_tracker s)"
    and "\<forall>n. instant s \<le> n \<longrightarrow> n + 3 \<le> instant s' \<longrightarrow> got_errors (hist n) = [] \<and> \<not> cancelled (st n)"
  shows "\<exists>m\<ge>instant s. instant s' = m + 3 \<and> events s' = None \<and> eventErrors s' = None \<and>
    failing (p_tracker s') ConcernDockerEvents = Some (verdict_text d (verdict_of networks (hist m)))"
proof -
  obtain e m t where m: "instant s \<le> m" "instant s' = m + 3" "errors_chan st m = Received e \<or> errors_chan st m = Closed \<and> e = None"
    and t: "p_tracker s' = Fail t ConcernDockerEvents (case e of None \<Rightarrow> eventStreamClosedMessage | Some e \<Rightarrow> error_text d e) (p_tracker s)"
    using assms(3) unfolding given_up_def by blast
  have "got_errors (hist m) = []" "\<not> cancelled (st m)" using assms(5) m(1,2) by auto
  moreover have "k \<le> m" using assms(2) m(1) by simp
  ultimately have "e = verdict_of networks (hist m)" using docker_stream_verdict [OF assms(1) _ _ _ m(3)] by blast
  with m(1,2) t health.failing_fail [OF assms(4)] assms(3) show ?thesis
    by (intro exI [of _ m]) (simp add: all_concerns_def verdict_text_def given_up_def)
qed

lemma other_step_same:
  assumes "ctl \<noteq> Waiting" "loop_step d c (ctl, s) = (ctl', s')"
  shows "same_stream s s'"
proof (cases ctl)
  case Checking
  obtain r s1 where r: "loopStop d c s = (r, s1)" by fastforce
  have "same_stream s s1" using loopStop_tick [OF r] by simp
  with r Checking assms(2) same_stream_trans [OF _ reconcilePending_same] show ?thesis
    by (auto split: option.splits prod.splits if_splits)
qed (use assms in simp_all)

text \<open>
  C34. The failure Docker reported is the failure the daemon reports. While the loop listens to a stream of the Docker
  client whose context is not cancelled and whose error nobody else has taken, every step of the loop, whichever
  case its \<open>select\<close> takes, keeps listening, or gives the stream up and records a failure of the concern for Docker events with the
  text of the first error of the source, or of the error for which the subscription was refused; only if that error is \<open>nil\<close>
  does it say that the stream was closed. Once the error has arrived, or its channel is closed, the \<open>select\<close> can take its
  case, and it is reported by whichever of the three cases is taken that look at the end of a stream: the error, the closed channel
  of events, or the stability timer. This is for a daemon that is not stopping; \<open>m\<close> is the instant of the receive, and the last three instants of
  the step are the daemon's own cancellation of the stream and its check whether to stop.
\<close>

theorem docker_failure_reported:
  assumes "lasting d c" and "reaches d c (Checking, loop_start d c e p) (ctl, s)"
    and "docker_stream api_Events networks hist st k" and "k \<le> instant s"
    and "events s = Some (events_chan st)" and "eventErrors s = Some (errors_chan st)"
    and "loop_step d c (ctl, s) = (ctl', s')" and "\<not> stopped d c (instant s')"
    and "\<forall>n. instant s \<le> n \<longrightarrow> n + 3 \<le> instant s' \<longrightarrow> got_errors (hist n) = [] \<and> \<not> cancelled (st n)"
    and "tracker_inv (Suc N) (p_tracker s)"
  shows "let listening = (events s' = Some (events_chan st) \<and> eventErrors s' = Some (errors_chan st));
      reported = (\<exists>m\<ge>instant s. instant s' = m + 3 \<and> events s' = None \<and> eventErrors s' = None \<and>
        failing (p_tracker s') ConcernDockerEvents = Some (verdict_text d (verdict_of networks (hist m))))
    in (listening \<or> reported) \<and>
      (ctl = Waiting \<and> errors_chan st (instant s) \<noteq> NotReady \<longrightarrow>
        (\<exists>x ok. OnStreamError x ok \<in> set (ready_cases d c s)) \<and> (about_stream (chosen d c s) \<longrightarrow> reported))"
proof -
  let ?errs = "errors_chan st" and ?ks = "ready_cases d c s"
  have waiting: "(same_stream s s' \<or> given_up d ?errs s s') \<and>
      (?errs (instant s) \<noteq> NotReady \<longrightarrow> about_stream (chosen d c s) \<longrightarrow> given_up d ?errs s s')" if w: "ctl = Waiting"
  proof (cases "?ks = []")
    case True
    have "?errs (instant s) = NotReady"
      using True assms(6) by (auto simp: ready_cases_def split: recv.splits)
    with True assms(7) w show ?thesis by auto
  next
    case False
    then have "take_case d c (chosen d c s) (tick s) = (ctl', s')" using assms(7) w by (cases ?ks) (simp_all add: chosen_def)
    note step = select_step [OF assms(1) loop_states_unarmed [OF assms(2)] assms(5,6) False this assms(8)]
    have order: "?errs (Suc n) \<noteq> NotReady"
      if "instant s \<le> n" "n + 4 \<le> instant s'" "events_chan st n = Closed" for n
      using docker_stream_order [OF assms(3) _ that(3)] assms(4,9) that(1,2) by simp
    have waits: "?errs (instant s + 3) \<noteq> NotReady" if "?errs (instant s) \<noteq> NotReady" "instant s + 6 \<le> instant s'"
      using docker_stream_waits [OF assms(3,4), of "instant s + 3"] assms(9) that by simp
    from step(1) [OF order] step(2) [OF order] waits show ?thesis by blast
  qed
  have alone: "same_stream s s' \<or> given_up d ?errs s s'"
    using waiting other_step_same [OF _ assms(7)] by (cases "ctl = Waiting") simp_all
  note report = given_up_verdict [OF assms(3,4) _ assms(10,9)]
  have ready: "\<exists>x ok. OnStreamError x ok \<in> set (ready_cases d c s)" if "errors_chan st (instant s) \<noteq> NotReady"
    using that assms(6) by (cases "errors_chan st (instant s)") (auto simp: ready_cases_def)
  have kept: "events s' = Some (events_chan st) \<and> eventErrors s' = Some (errors_chan st)" if "same_stream s s'"
    using that assms(5,6) by (simp add: same_stream_def)
  show ?thesis unfolding Let_def using alone waiting report ready kept by blast
qed

section \<open>A worked failure\<close>

text \<open>Docker goes away after the daemon has opened its stream; the daemon then looks at it.\<close>

definition ex_failure :: "act list" where
  "ex_failure = OfferError (Some (Opaque ''unexpected EOF'')) # replicate 5 Forward"

definition ex_history :: "nat \<Rightarrow> act list" where
  "ex_history n = (if n \<le> 5 then [] else ex_failure)"

definition ex_failing :: "nat \<Rightarrow> stream" where
  "ex_failing n = (if n \<le> 5 then ex_subscription else the (played ex_failure ex_subscription))"

definition ex_follower :: Daemon where
  "ex_follower = (let d = ex_daemon no_store docker_down NotReady (\<lambda>_. False)
     in d\<lparr>d_source := (d_source d)\<lparr>src_Events := (\<lambda>c ns n. ((Some (events_chan ex_failing), Some (errors_chan ex_failing)), n))\<rparr>\<rparr>)"

lemma ex_failing_run: "stream_run ex_failure ex_subscription (ex_failing 6)"
proof (rule played_run)
  have "played ex_failure ex_subscription \<noteq> None" by code_simp
  then show "played ex_failure ex_subscription = Some (ex_failing 6)" by (auto simp: ex_failing_def)
qed

lemma ex_failing_stream:
  "docker_stream (\<lambda>_. (make_chan 0, make_chan 1)) [''saltbox''] ex_history ex_failing 2"
  unfolding docker_stream_def chronicle_def
proof (intro conjI allI impI)
  fix n :: nat
  show "\<exists>as. ex_history (Suc n) = ex_history n @ as \<and> stream_run as (ex_failing n) (ex_failing (Suc n))"
  proof (cases "n = 5")
    case True
    with ex_failing_run show ?thesis by (auto simp: ex_history_def ex_failing_def)
  next
    case False
    then show ?thesis using runs.start [of stream_step "ex_failing n"]
      by (intro exI [of _ "[]"]) (auto simp: ex_history_def ex_failing_def)
  qed
  show "moby_stream (\<lambda>_. (make_chan 0, make_chan 1)) [''saltbox''] (ex_history n)"
    by (auto simp: moby_stream_def ex_history_def ex_failure_def)
qed (simp_all add: ex_history_def ex_failing_def ex_subscription_def)

lemma ex_failing_ended: "\<not> cancelled (ex_failing n)" "got_errors (ex_history n) = []"
proof -
  have "\<not> cancelled (the (played ex_failure ex_subscription))" "\<not> cancelled ex_subscription" by code_simp+
  then show "\<not> cancelled (ex_failing n)" by (simp add: ex_failing_def)
  show "got_errors (ex_history n) = []" by (simp add: ex_history_def ex_failure_def numeral_eq_Suc)
qed

lemma ex_failing_closed: "events_chan ex_failing 7 = Closed" "errors_chan ex_failing 7 = Received (Some (Opaque ''unexpected EOF''))"
  by code_simp+

definition ex_listening :: loopState where
  "ex_listening = snd (loop_step ex_follower (\<lambda>_. None) (Checking, loop_start ex_follower (\<lambda>_. None) None ex_process))"

lemma ex_listening_state:
  "loop_step ex_follower (\<lambda>_. None) (Checking, loop_start ex_follower (\<lambda>_. None) None ex_process) = (Waiting, ex_listening)"
  "events ex_listening = Some (events_chan ex_failing)" "eventErrors ex_listening = Some (errors_chan ex_failing)"
  "instant ex_listening = 7" "p_tracker ex_listening = NewTracker" "\<not> pending ex_listening"
proof -
  have up: "srv_Done (d_server ex_follower) None n = False" for n
    by (simp add: ex_follower_def ex_daemon_def ex_server_def Let_def)
  have evs: "src_Events (d_source ex_follower) = (\<lambda>c ns n. ((Some (events_chan ex_failing), Some (errors_chan ex_failing)), n))"
    by (simp add: ex_follower_def Let_def)
  have stop: "stopReady ex_follower (\<lambda>_. None) s = (False, tick (tick s))" for s
    by (simp add: stopReady_def loopStreamStopReady_def up)
  have t: "p_tracker (tick s) = p_tracker s" "p_tracker (called k n s) = p_tracker s" for s :: loopState and k n
    by simp_all
  let ?new = "newLoopState ex_follower None ex_process"
  have new: "instant ?new = 0" "p_tracker ?new = NewTracker" "\<not> pending ?new" "streamCancel ?new = None"
    by (simp_all add: newLoopState_def Let_def process.defs instant_def ex_process_def ex_world_def)
  have start: "events (loop_start ex_follower (\<lambda>_. None) None ex_process) = Some (events_chan ex_failing)"
    "eventErrors (loop_start ex_follower (\<lambda>_. None) None ex_process) = Some (errors_chan ex_failing)"
    "instant (loop_start ex_follower (\<lambda>_. None) None ex_process) = 5"
    "p_tracker (loop_start ex_follower (\<lambda>_. None) None ex_process) = NewTracker"
    "\<not> pending (loop_start ex_follower (\<lambda>_. None) None ex_process)"
    using new by (simp_all add: loop_start_def startStream_def stop evs Let_def cancelStream_def)
  have "loopStop ex_follower (\<lambda>_. None) s = (None, tick (tick s))" for s :: loopState
    by (simp add: loopStop_def up)
  then have "loop_step ex_follower (\<lambda>_. None) (Checking, loop_start ex_follower (\<lambda>_. None) None ex_process) =
      (Waiting, tick (tick (loop_start ex_follower (\<lambda>_. None) None ex_process)))"
    using start(5) by simp
  with start show
  "loop_step ex_follower (\<lambda>_. None) (Checking, loop_start ex_follower (\<lambda>_. None) None ex_process) = (Waiting, ex_listening)"
  "events ex_listening = Some (events_chan ex_failing)" "eventErrors ex_listening = Some (errors_chan ex_failing)"
  "instant ex_listening = 7" "p_tracker ex_listening = NewTracker" "\<not> pending ex_listening"
    by (simp_all add: ex_listening_def)
qed

theorem docker_failure_reported_witness:
  "failing (p_tracker (snd (loop_step ex_follower (\<lambda>_. None) (Waiting, ex_listening)))) ConcernDockerEvents = Some ''unexpected EOF''"
proof -
  let ?c = "\<lambda>_ :: nat. None :: err"
  obtain ctl s' where step: "loop_step ex_follower ?c (Waiting, ex_listening) = (ctl, s')" by fastforce
  have up: "\<not> srv_Done (d_server ex_follower) None n" for n
    by (simp add: ex_follower_def ex_daemon_def ex_server_def Let_def)
  have last: "lasting ex_follower ?c" "\<not> stopped ex_follower ?c (instant s')" using up by (simp_all add: lasting_def stopped_def)
  have reach: "reaches ex_follower ?c (Checking, loop_start ex_follower ?c None ex_process) (Waiting, ex_listening)"
    using reaches.step [OF reaches.here, of ex_follower ?c "(Checking, loop_start ex_follower ?c None ex_process)"]
    by (simp only: ex_listening_state(1))
  have untouched: "\<forall>n. instant ex_listening \<le> n \<longrightarrow> n + 3 \<le> instant s' \<longrightarrow> got_errors (ex_history n) = [] \<and> \<not> cancelled (ex_failing n)"
    using ex_failing_ended by simp
  have inv: "tracker_inv (Suc 0) (p_tracker ex_listening)"
    using NewTracker_inv tracker_inv_mono by (fastforce simp: ex_listening_state(5))
  have k: "2 \<le> instant ex_listening" by (simp add: ex_listening_state(4))
  have "about_stream (chosen ex_follower ?c ex_listening)"
    using ex_failing_closed(1)
    by (simp add: chosen_def ready_cases_def ex_listening_state up)
      (simp add: ex_follower_def ex_daemon_def Let_def)
  moreover have "errors_chan ex_failing (instant ex_listening) \<noteq> NotReady" by (simp add: ex_listening_state(4) ex_failing_closed)
  ultimately obtain m where "instant ex_listening \<le> m" "failing (p_tracker s') ConcernDockerEvents =
      Some (verdict_text ex_follower (verdict_of [''saltbox''] (ex_history m)))"
    using docker_failure_reported [OF last(1) reach ex_failing_stream k ex_listening_state(2,3) step last(2) untouched inv]
    unfolding Let_def by blast
  then show ?thesis using step
    by (simp add: ex_listening_state(4) verdict_text_def verdict_of_def requireNetworks_def ex_history_def ex_failure_def error_text_def)
qed

end
