(* ===== verification/Docker_Inspect.thy ===== *)
theory Docker_Inspect
  imports Docker Machines
begin

text \<open>
  The concurrent inspections of a snapshot (\<open>docker/client.go\<close>, lines 80 to 91): the loop of \<open>Snapshot\<close> starts one
  goroutine per container in an \<open>errgroup.Group\<close> with a limit and waits for all of them; each stores its outcome
  in its own element of a slice. The group is third-party: when it lets another goroutine start is a
  parameter. The machine is shown to implement \<open>inspectOutcomes\<close>, which \<open>docker_Snapshot\<close> uses.
\<close>

section \<open>The machine\<close>

definition maxConcurrentInspects :: int where "maxConcurrentInspects = 8"

type_synonym inspectOutcome = "go_error + ContainerInspectResult"

text \<open>
  The index of the loop, the indices of the goroutines that run, the slice, an instant of the clock, and whether
  \<open>Wait\<close> has returned.
\<close>

record inspections =
  next_item :: nat
  inspecting :: "nat list"
  outcomes :: "inspectOutcome option list"
  in_clock :: nat
  waited :: bool

definition start_inspections :: "string list \<Rightarrow> nat \<Rightarrow> inspections" where
  "start_inspections items n =
     \<lparr>next_item = 0, inspecting = [], outcomes = replicate (length items) None, in_clock = n, waited = False\<rparr>"

datatype inspect_act = Go | Inspect nat | Wait | Pass

inductive inspect_step ::
  "(int \<Rightarrow> nat \<Rightarrow> bool) \<Rightarrow> Client \<Rightarrow> ctx \<Rightarrow> string list \<Rightarrow> inspect_act \<Rightarrow> inspections \<Rightarrow> inspections \<Rightarrow> bool"
  for may_go cl c items where
  go: "next_item s < length items \<Longrightarrow> may_go maxConcurrentInspects (length (inspecting s)) \<Longrightarrow>
    inspect_step may_go cl c items Go s (s\<lparr>inspecting := inspecting s @ [next_item s], next_item := Suc (next_item s)\<rparr>)"
| inspect: "i \<in> set (inspecting s) \<Longrightarrow>
    inspect_step may_go cl c items (Inspect i) s
      (s\<lparr>outcomes := (outcomes s)[i := Some (api_ContainerInspect (c_api cl) c (items ! i) (in_clock s))],
         inspecting := remove1 i (inspecting s)\<rparr>)"
| wait: "next_item s = length items \<Longrightarrow> inspecting s = [] \<Longrightarrow> \<not> waited s \<Longrightarrow>
    inspect_step may_go cl c items Wait s (s\<lparr>waited := True\<rparr>)"
| pass: "inspect_step may_go cl c items Pass s (s\<lparr>in_clock := Suc (in_clock s)\<rparr>)"

text \<open>What \<open>SetLimit\<close> is documented to do.\<close>

definition group_limits :: "(int \<Rightarrow> nat \<Rightarrow> bool) \<Rightarrow> bool" where
  "group_limits may_go \<longleftrightarrow> (\<forall>limit k. may_go limit k \<longleftrightarrow> int k < limit)"

section \<open>Invariant\<close>

definition called_at :: "Client \<Rightarrow> ctx \<Rightarrow> string list \<Rightarrow> nat \<Rightarrow> (nat \<Rightarrow> nat) \<Rightarrow> inspections \<Rightarrow> bool" where
  "called_at cl c items n at s \<longleftrightarrow>
     (\<forall>i < length items. n \<le> at i \<and> outcomes s ! i =
        (if i < next_item s \<and> i \<notin> set (inspecting s) then Some (api_ContainerInspect (c_api cl) c (items ! i) (at i)) else None))"

definition work :: "inspect_act list \<Rightarrow> nat" where
  "work as = length (filter (\<lambda>a. a \<noteq> Pass) as)"

definition inspect_inv :: "Client \<Rightarrow> ctx \<Rightarrow> string list \<Rightarrow> nat \<Rightarrow> inspect_act list \<Rightarrow> inspections \<Rightarrow> bool" where
  "inspect_inv cl c items n as s \<longleftrightarrow>
     next_item s \<le> length items \<and> distinct (inspecting s) \<and> set (inspecting s) \<subseteq> {..<next_item s} \<and>
     length (inspecting s) \<le> 8 \<and> length (outcomes s) = length items \<and> n \<le> in_clock s \<and>
     (\<exists>at. called_at cl c items n at s) \<and> (waited s \<longrightarrow> next_item s = length items \<and> inspecting s = []) \<and>
     work as + length (inspecting s) = 2 * next_item s + (if waited s then 1 else 0)"

lemma inspect_inv_step:
  assumes "inspect_step may_go cl c items a s s'" "group_limits may_go" "inspect_inv cl c items n as s"
  shows "inspect_inv cl c items n (as @ [a]) s'"
  using assms
proof (induction rule: inspect_step.induct)
  case (go s)
  then obtain at where "called_at cl c items n at s" by (auto simp: inspect_inv_def)
  then have "called_at cl c items n at (s\<lparr>inspecting := inspecting s @ [next_item s], next_item := Suc (next_item s)\<rparr>)"
    by (auto simp: called_at_def less_Suc_eq)
  with go show ?case by (auto simp: inspect_inv_def work_def group_limits_def maxConcurrentInspects_def)
next
  case (inspect i s)
  then obtain at where at: "called_at cl c items n at s" by (auto simp: inspect_inv_def)
  let ?s = "s\<lparr>outcomes := (outcomes s)[i := Some (api_ContainerInspect (c_api cl) c (items ! i) (in_clock s))],
    inspecting := remove1 i (inspecting s)\<rparr>"
  have "called_at cl c items n (at(i := in_clock s)) ?s"
    using at inspect by (auto simp: called_at_def inspect_inv_def nth_list_update)
  moreover have "Suc (length (inspecting s) - 1) = length (inspecting s)" using inspect(1) by (cases "inspecting s") auto
  ultimately show ?case
    using inspect by (auto simp: inspect_inv_def work_def length_remove1 dest: notin_set_remove1)
next
  case (wait s)
  then show ?case by (auto simp: inspect_inv_def work_def called_at_def)
next
  case (pass s)
  then show ?case by (auto simp: inspect_inv_def work_def called_at_def)
qed

interpretation inspection: machine "inspect_step may_go cl c items" "\<lambda>as s. group_limits may_go \<longrightarrow> inspect_inv cl c items n as s"
  for may_go cl c items n
  by unfold_locales (blast intro: inspect_inv_step)

lemma start_inv: "inspect_inv cl c items n [] (start_inspections items n)"
proof -
  have "called_at cl c items n (\<lambda>_. n) (start_inspections items n)" by (simp add: called_at_def start_inspections_def)
  then show ?thesis by (auto simp: inspect_inv_def start_inspections_def work_def)
qed

lemma inspections_inv:
  assumes "runs (inspect_step may_go cl c items) as (start_inspections items n) s" "group_limits may_go"
  shows "inspect_inv cl c items n as s"
  using inspection.run_inv [OF assms(1), of n] assms(2) start_inv by blast

lemma inspections_go_on:
  assumes "inspect_inv cl c items n as s" "group_limits may_go" "\<not> waited s"
  shows "\<exists>a s'. a \<noteq> Pass \<and> inspect_step may_go cl c items a s s'"
proof (cases "inspecting s")
  case Nil
  with assms show ?thesis
    using inspect_step.go [of s items may_go cl c] inspect_step.wait [of s items may_go cl c]
    by (cases "next_item s < length items") (fastforce simp: inspect_inv_def group_limits_def maxConcurrentInspects_def)+
next
  case (Cons i rest)
  then show ?thesis using inspect_step.inspect [of i s may_go cl c items] by fastforce
qed

section \<open>Properties\<close>

text \<open>
  C35. The inspections are bounded and complete: at most eight run at once, they are never stuck, and after at
  most two steps per container and one more \<open>Wait\<close> returns. Every container has then been inspected, at some
  instant after the start, and its outcome is in its place whatever the order in which the calls ended, which
  is what \<open>docker_Snapshot\<close> goes on with.
\<close>

theorem inspections_complete:
  assumes "runs (inspect_step may_go cl c items) as (start_inspections items n) s" and "group_limits may_go"
  shows "length (inspecting s) \<le> 8 \<and> work as \<le> 2 * length items + 1 \<and>
    (if waited s then \<exists>at. (\<forall>i. n \<le> at i) \<and>
       zip items (map the (outcomes s)) = inspectOutcomes (cl\<lparr>c_inspect_at := (\<lambda>_. at)\<rparr>) c n items
     else \<exists>a s'. a \<noteq> Pass \<and> inspect_step may_go cl c items a s s')"
proof -
  note inv = inspections_inv [OF assms]
  have "work as \<le> 2 * length items + 1" using inv by (auto simp: inspect_inv_def split: if_splits)
  moreover have "\<exists>at. (\<forall>i. n \<le> at i) \<and> zip items (map the (outcomes s)) = inspectOutcomes (cl\<lparr>c_inspect_at := (\<lambda>_. at)\<rparr>) c n items"
    if "waited s"
  proof -
    from inv obtain at where at: "called_at cl c items n at s" by (auto simp: inspect_inv_def)
    let ?at = "\<lambda>i. max n (at i)"
    have eq: "?at i = at i" if "i < length items" for i using at that by (simp add: called_at_def)
    have "zip items (map the (outcomes s)) = inspectOutcomes (cl\<lparr>c_inspect_at := (\<lambda>_. ?at)\<rparr>) c n items"
      using inv that at eq by (intro nth_equalityI) (auto simp: inspectOutcomes_def inspect_inv_def called_at_def)
    then show ?thesis by (intro exI [of _ ?at]) simp
  qed
  ultimately show ?thesis using inv inspections_go_on [OF inv assms(2)] by (auto simp: inspect_inv_def)
qed

text \<open>Two containers, inspected in the other order.\<close>

lemma ex_inspections:
  "\<exists>s. runs (inspect_step (\<lambda>l k. int k < l) (ex_client [''c1'', ''c2'']) (\<lambda>_. None) [''c1'', ''c2''])
     [Go, Go, Inspect 1, Pass, Inspect 0, Wait] (start_inspections [''c1'', ''c2''] 3) s \<and> waited s"
proof (rule exI, rule conjI)
  note ev = start_inspections_def maxConcurrentInspects_def
  show "runs (inspect_step (\<lambda>l k. int k < l) (ex_client [''c1'', ''c2'']) (\<lambda>_. None) [''c1'', ''c2''])
     [Go, Go, Inspect 1, Pass, Inspect 0, Wait] (start_inspections [''c1'', ''c2''] 3)
     \<lparr>next_item = 2, inspecting = [], outcomes = map (\<lambda>(i, n). Some (api_ContainerInspect (c_api (ex_client [''c1'', ''c2''])) (\<lambda>_. None)
        ([''c1'', ''c2''] ! i) n)) [(0, 4), (1, 3)], in_clock = 4, waited = True\<rparr>"
    by (rule runs_first, rule inspect_step.go, simp add: ev, simp add: ev)
      (rule runs_first, rule inspect_step.go, simp add: ev, simp add: ev,
       rule runs_first, rule inspect_step.inspect, simp add: ev,
       rule runs_first, rule inspect_step.pass,
       rule runs_first, rule inspect_step.inspect, simp add: ev,
       rule runs_first, rule inspect_step.wait, simp add: ev, simp add: ev, simp add: ev,
       simp add: ev numeral_2_eq_2 runs.start)
qed simp

theorem inspections_complete_witness:
  "\<exists>(s :: inspections) at. waited s \<and> zip [''c1'', ''c2''] (map the (outcomes s)) =
     inspectOutcomes ((ex_client [''c1'', ''c2''])\<lparr>c_inspect_at := (\<lambda>_. at)\<rparr>) (\<lambda>_. None) 3 [''c1'', ''c2'']"
proof -
  obtain s where s: "runs (inspect_step (\<lambda>l k. int k < l) (ex_client [''c1'', ''c2'']) (\<lambda>_. None) [''c1'', ''c2''])
     [Go, Go, Inspect 1, Pass, Inspect 0, Wait] (start_inspections [''c1'', ''c2''] 3) s" "waited s" using ex_inspections by blast
  have "group_limits (\<lambda>l k. int k < l)" by (simp add: group_limits_def)
  from inspections_complete [OF s(1) this] s(2) show ?thesis by auto
qed

end
