(* ===== verification/Health_Server.thy ===== *)
theory Health_Server
  imports Tracker
begin

text \<open>
  The HTTP server of the health endpoint (\<open>health/server.go\<close>). \<open>Start\<close> spawns a goroutine that serves and
  reports its end through a channel; \<open>Shutdown\<close> may be called by several goroutines and stops the server
  once. The calls are machines whose steps interleave in any order; each section under the mutex and each
  channel operation is one step.
\<close>

section \<open>The server\<close>

definition readHeaderTimeout :: int where "readHeaderTimeout = 5 * 1000000000"
definition readTimeout :: int where "readTimeout = 10 * 1000000000"
definition writeTimeout :: int where "writeTimeout = 10 * 1000000000"
definition idleTimeout :: int where "idleTimeout = 60 * 1000000000"

record httpServer =
  hs_Addr :: string
  hs_ReadHeaderTimeout :: int
  hs_ReadTimeout :: int
  hs_WriteTimeout :: int
  hs_IdleTimeout :: int

datatype once = NotRun | InRun | HasRun

record Server =
  httpServer_of :: httpServer
  done_closed :: bool
  listener :: "string option"
  sv_err :: err
  shutdownOnce :: once
  shutdownErr :: err

definition NewServer :: "string \<Rightarrow> Server" where
  "NewServer addr =
     \<lparr>httpServer_of = \<lparr>hs_Addr = addr, hs_ReadHeaderTimeout = readHeaderTimeout, hs_ReadTimeout = readTimeout,
        hs_WriteTimeout = writeTimeout, hs_IdleTimeout = idleTimeout\<rparr>,
      done_closed = False, listener = None, sv_err = None, shutdownOnce = NotRun, shutdownErr = None\<rparr>"

definition server_Done :: "Server \<Rightarrow> bool" where
  "server_Done sv = done_closed sv"

definition server_Err :: "Server \<Rightarrow> err" where
  "server_Err sv = sv_err sv"

definition server_Addr :: "Server \<Rightarrow> string option" where
  "server_Addr sv = listener sv"

text \<open>
  The goroutine of \<open>Start\<close>: in \<open>Serve\<close>, after it with the error it returned, after the error was stored, and
  ended; closing the channel a second time panics.
\<close>

datatype serving = Serving | Served go_error | Stored | Ended | ServePanic

fun serve_step :: "serving \<Rightarrow> Server \<Rightarrow> (serving \<times> Server) option" where
  "serve_step (Served e) sv =
     Some (Stored, sv\<lparr>sv_err := (if errors_Is e ErrServerClosed then None else Some e)\<rparr>)"
| "serve_step Stored sv = (if done_closed sv then Some (ServePanic, sv) else Some (Ended, sv\<lparr>done_closed := True\<rparr>))"
| "serve_step _ sv = None"

text \<open>
  A call of \<open>Shutdown\<close>: at the \<open>Once\<close>, in its function, at the two outer \<open>select\<close> statements, at the one in
  the branch of the context, and returned. The context carries its error once it is done.
\<close>

datatype shutdown_place = AtOnce | InOnce | AtFirst | AtSecond | AtLast | Returned err

record caller =
  sd_at :: shutdown_place
  cl_ctx :: err

definition returned :: "err \<Rightarrow> caller \<Rightarrow> caller" where
  "returned e c = c\<lparr>sd_at := Returned e\<rparr>"

text \<open>
  The steps a call can make; \<open>r\<close> is what \<open>http.Server.Shutdown\<close> returns. A caller that finds the \<open>Once\<close>
  in progress waits.
\<close>

definition shutdown_steps :: "err \<Rightarrow> caller \<Rightarrow> Server \<Rightarrow> (caller \<times> Server) list" where
  "shutdown_steps r c sv =
     (case sd_at c of
        AtOnce \<Rightarrow>
          (case shutdownOnce sv of
             NotRun \<Rightarrow> [(c\<lparr>sd_at := InOnce\<rparr>, sv\<lparr>shutdownOnce := InRun\<rparr>)]
           | InRun \<Rightarrow> []
           | HasRun \<Rightarrow> [(c\<lparr>sd_at := AtFirst\<rparr>, sv)])
      | InOnce \<Rightarrow> [(c\<lparr>sd_at := AtFirst\<rparr>, sv\<lparr>shutdownErr := r, shutdownOnce := HasRun\<rparr>)]
      | AtFirst \<Rightarrow> [(if done_closed sv then returned (shutdownErr sv) c else c\<lparr>sd_at := AtSecond\<rparr>, sv)]
      | AtSecond \<Rightarrow>
          (if done_closed sv then [(returned (shutdownErr sv) c, sv)] else []) @
          (if cl_ctx c \<noteq> None then [(c\<lparr>sd_at := AtLast\<rparr>, sv)] else [])
      | AtLast \<Rightarrow>
          [(if done_closed sv then returned (shutdownErr sv) c
            else if shutdownErr sv \<noteq> None then returned (shutdownErr sv) c
            else returned (cl_ctx c) c, sv)]
      | Returned e \<Rightarrow> [])"

section \<open>All goroutines together\<close>

record system =
  server :: Server
  goroutines :: "serving list"
  callers :: "caller list"
  stops :: nat     \<comment> \<open>calls of \<open>http.Server.Shutdown\<close> so far\<close>

text \<open>
  \<open>Start\<close> binds the listener, which reports its address, or fails and changes nothing. It is called once, as
  the daemon does: a second serving goroutine would close the channel again.
\<close>

definition Start :: "go_error + string \<Rightarrow> system \<Rightarrow> err \<times> system" where
  "Start listened s =
     (case listened of
        Inl e \<Rightarrow> (Some e, s)
      | Inr bound \<Rightarrow> (None, s\<lparr>server := (server s)\<lparr>listener := Some bound\<rparr>, goroutines := goroutines s @ [Serving]\<rparr>))"

definition Shutdown :: "system \<Rightarrow> system" where
  "Shutdown s = s\<lparr>callers := callers s @ [\<lparr>sd_at = AtOnce, cl_ctx = None\<rparr>]\<rparr>"

text \<open>
  \<open>http.Server.Serve\<close> always returns an error; as documented it is \<open>ErrServerClosed\<close> after a shutdown and only
  then.
\<close>

definition Serve_may_return :: "once \<Rightarrow> go_error \<Rightarrow> bool" where
  "Serve_may_return o1 e \<longleftrightarrow>
     (o1 = NotRun \<longrightarrow> \<not> errors_Is e ErrServerClosed) \<and> (o1 = HasRun \<longrightarrow> errors_Is e ErrServerClosed)"

inductive server_step :: "system \<Rightarrow> system \<Rightarrow> bool" where
  start: "goroutines s = [] \<Longrightarrow> server_step s (snd (Start listened s))"
| serve_returns: "i < length (goroutines s) \<Longrightarrow> goroutines s ! i = Serving \<Longrightarrow>
    Serve_may_return (shutdownOnce (server s)) e \<Longrightarrow>
    server_step s (s\<lparr>goroutines := (goroutines s)[i := Served e]\<rparr>)"
| serve: "i < length (goroutines s) \<Longrightarrow> serve_step (goroutines s ! i) (server s) = Some (g, sv) \<Longrightarrow>
    server_step s (s\<lparr>server := sv, goroutines := (goroutines s)[i := g]\<rparr>)"
| shutdown: "server_step s (Shutdown s)"
| caller: "i < length (callers s) \<Longrightarrow> (c, sv) \<in> set (shutdown_steps r (callers s ! i) (server s)) \<Longrightarrow>
    server_step s (s\<lparr>server := sv, callers := (callers s)[i := c],
      stops := (if sd_at (callers s ! i) = InOnce then Suc (stops s) else stops s)\<rparr>)"
| ctx_done: "i < length (callers s) \<Longrightarrow> cl_ctx (callers s ! i) = None \<Longrightarrow>
    server_step s (s\<lparr>callers := (callers s)[i := (callers s ! i)\<lparr>cl_ctx := Some e\<rparr>]\<rparr>)"

inductive server_reachable :: "string \<Rightarrow> system \<Rightarrow> bool" for addr where
  fresh: "server_reachable addr \<lparr>server = NewServer addr, goroutines = [], callers = [], stops = 0\<rparr>"
| step: "server_reachable addr s \<Longrightarrow> server_step s s' \<Longrightarrow> server_reachable addr s'"

section \<open>Invariant\<close>

definition serving_inv :: "Server \<Rightarrow> serving list \<Rightarrow> bool" where
  "serving_inv sv gs \<longleftrightarrow>
     (case gs of
        [] \<Rightarrow> \<not> done_closed sv \<and> sv_err sv = None
      | [Serving] \<Rightarrow> \<not> done_closed sv \<and> sv_err sv = None
      | [Served e] \<Rightarrow> \<not> done_closed sv \<and> sv_err sv = None \<and> (errors_Is e ErrServerClosed \<longrightarrow> shutdownOnce sv \<noteq> NotRun)
      | [Stored] \<Rightarrow> \<not> done_closed sv \<and> (sv_err sv = None \<longrightarrow> shutdownOnce sv \<noteq> NotRun)
      | [Ended] \<Rightarrow> done_closed sv \<and> (sv_err sv = None \<longrightarrow> shutdownOnce sv \<noteq> NotRun)
      | _ \<Rightarrow> False)"

definition once_inv :: "Server \<Rightarrow> caller list \<Rightarrow> nat \<Rightarrow> bool" where
  "once_inv sv cs n \<longleftrightarrow>
     count (mset (map sd_at cs)) InOnce = (if shutdownOnce sv = InRun then 1 else 0) \<and>
     n = (if shutdownOnce sv = HasRun then 1 else 0) \<and> (shutdownOnce sv = HasRun \<or> shutdownErr sv = None)"

definition caller_inv :: "Server \<Rightarrow> caller \<Rightarrow> bool" where
  "caller_inv sv c \<longleftrightarrow>
     (case sd_at c of
        AtOnce \<Rightarrow> True
      | InOnce \<Rightarrow> True
      | AtFirst \<Rightarrow> shutdownOnce sv = HasRun
      | AtSecond \<Rightarrow> shutdownOnce sv = HasRun
      | AtLast \<Rightarrow> shutdownOnce sv = HasRun \<and> cl_ctx c \<noteq> None
      | Returned v \<Rightarrow> shutdownOnce sv = HasRun \<and>
          (done_closed sv \<and> v = shutdownErr sv \<or>
           cl_ctx c \<noteq> None \<and> v = (if shutdownErr sv \<noteq> None then shutdownErr sv else cl_ctx c)))"

definition server_inv :: "system \<Rightarrow> bool" where
  "server_inv s \<longleftrightarrow> serving_inv (server s) (goroutines s) \<and> once_inv (server s) (callers s) (stops s) \<and>
     list_all (caller_inv (server s)) (callers s)"

lemma serving_inv_single: "serving_inv sv gs \<Longrightarrow> i < length gs \<Longrightarrow> i = 0 \<and> (\<exists>g. gs = [g])"
  by (auto simp: serving_inv_def split: list.splits serving.splits)

lemma server_inv_serve:
  assumes "server_inv s" "i < length (goroutines s)" "serve_step (goroutines s ! i) (server s) = Some (g, sv)"
  shows "server_inv (s\<lparr>server := sv, goroutines := (goroutines s)[i := g]\<rparr>)"
proof -
  obtain g0 where g0: "i = 0" "goroutines s = [g0]" using serving_inv_single [of "server s" "goroutines s" i] assms(1,2) by (auto simp: server_inv_def)
  with assms show ?thesis
    by (cases g0) (auto simp: server_inv_def serving_inv_def once_inv_def caller_inv_def list_all_iff split: if_splits shutdown_place.splits)
qed

lemma server_inv_caller:
  assumes "server_inv s" "i < length (callers s)" "(c, sv) \<in> set (shutdown_steps r (callers s ! i) (server s))"
  shows "server_inv (s\<lparr>server := sv, callers := (callers s)[i := c],
      stops := (if sd_at (callers s ! i) = InOnce then Suc (stops s) else stops s)\<rparr>)"
proof -
  let ?c = "callers s ! i"
  have inv: "serving_inv (server s) (goroutines s)" "once_inv (server s) (callers s) (stops s)"
    "\<forall>c\<in>set (callers s). caller_inv (server s) c" using assms(1) by (auto simp: server_inv_def list_all_iff)
  have ci: "caller_inv (server s) ?c" using inv(3) assms(2) by simp
  have busy: "shutdownOnce (server s) = InRun" if "sd_at ?c = InOnce"
  proof -
    have "?c \<in> set (callers s)" using assms(2) by simp
    then have "count (mset (map sd_at (callers s))) (sd_at ?c) \<noteq> 0" by (auto simp: count_eq_zero_iff)
    with inv(2) that show ?thesis by (auto simp: once_inv_def split: if_splits)
  qed
  have "serving_inv sv (goroutines s)"
    using inv(1) assms(3) by (auto simp: shutdown_steps_def serving_inv_def returned_def split: shutdown_place.splits once.splits if_splits list.splits serving.splits)
  moreover have "once_inv sv ((callers s)[i := c]) (if sd_at ?c = InOnce then Suc (stops s) else stops s)"
    using inv(2) assms(2,3) ci busy
    by (auto simp: shutdown_steps_def once_inv_def returned_def map_update mset_update caller_inv_def split: shutdown_place.splits once.splits if_splits)
  moreover have "caller_inv sv c"
    using ci assms(3) by (auto simp: shutdown_steps_def caller_inv_def returned_def split: shutdown_place.splits once.splits if_splits)
  moreover have "caller_inv sv c'" if "c' \<in> set (callers s)" for c'
    using bspec [OF inv(3) that] assms(3) busy
    by (auto simp: shutdown_steps_def caller_inv_def split: shutdown_place.splits once.splits if_splits)
  ultimately show ?thesis
    by (auto simp: server_inv_def list_all_iff dest: set_update_subset_insert [THEN subsetD])
qed

lemma server_inv_step: "server_step s s' \<Longrightarrow> server_inv s \<Longrightarrow> server_inv s'"
proof (induction rule: server_step.induct)
  case (start s listened)
  then show ?case
    by (cases listened) (auto simp: Start_def server_inv_def serving_inv_def once_inv_def caller_inv_def list_all_iff split: shutdown_place.splits)
next
  case (serve_returns i s e)
  then obtain g0 where "i = 0" "goroutines s = [g0]"
    using serving_inv_single [of "server s" "goroutines s" i] by (auto simp: server_inv_def)
  with serve_returns show ?case by (auto simp: server_inv_def serving_inv_def Serve_may_return_def)
next
  case (serve i s g sv)
  then show ?case using server_inv_serve by blast
next
  case (shutdown s)
  then show ?case by (simp add: Shutdown_def server_inv_def once_inv_def caller_inv_def)
next
  case (caller i s c sv r)
  then show ?case using server_inv_caller by blast
next
  case (ctx_done i s e)
  let ?c = "(callers s ! i)\<lparr>cl_ctx := Some e\<rparr>"
  have "caller_inv (server s) (callers s ! i)" using ctx_done by (simp add: server_inv_def list_all_iff)
  with ctx_done(2) have "caller_inv (server s) ?c" by (auto simp: caller_inv_def split: shutdown_place.splits)
  moreover have "map sd_at ((callers s)[i := ?c]) = map sd_at (callers s)"
    using ctx_done(1) by (simp add: map_update list_update_same_conv)
  ultimately show ?case
    using ctx_done(3) by (auto simp: server_inv_def once_inv_def list_all_iff dest: set_update_subset_insert [THEN subsetD])
qed

lemma server_reachable_inv: "server_reachable addr s \<Longrightarrow> server_inv s"
proof (induction rule: server_reachable.induct)
  case fresh
  show ?case by (simp add: server_inv_def serving_inv_def once_inv_def NewServer_def)
qed (rule server_inv_step)

text \<open>After the goroutine has ended nothing touches its result.\<close>

lemma done_ended: "serving_inv sv gs \<Longrightarrow> done_closed sv \<longleftrightarrow> gs = [Ended]"
  by (auto simp: serving_inv_def split: list.splits serving.splits)

lemma done_stays:
  assumes "server_step s s'" "server_inv s" "done_closed (server s)"
  shows "done_closed (server s') \<and> sv_err (server s') = sv_err (server s)"
  using assms
proof (induction rule: server_step.induct)
  case (serve i s g sv)
  then have "goroutines s = [Ended]" using done_ended by (auto simp: server_inv_def)
  with serve show ?case by simp
next
  case (caller i s c sv r)
  then show ?case by (auto simp: shutdown_steps_def split: shutdown_place.splits once.splits if_splits)
qed (auto simp: Start_def Shutdown_def server_inv_def serving_inv_def)

text \<open>What a returned call may report.\<close>

definition result_sound :: "Server \<Rightarrow> caller \<Rightarrow> bool" where
  "result_sound sv c \<longleftrightarrow>
     (case sd_at c of
        Returned None \<Rightarrow> server_Done sv \<and> shutdownErr sv = None
      | Returned (Some e) \<Rightarrow> shutdownErr sv = Some e \<or> shutdownErr sv = None \<and> cl_ctx c = Some e
      | _ \<Rightarrow> True)"

lemma caller_result_sound: "caller_inv sv c \<Longrightarrow> result_sound sv c"
  by (auto simp: caller_inv_def result_sound_def server_Done_def split: shutdown_place.splits option.splits if_splits)

section \<open>Properties\<close>

text \<open>
  C37. However its calls interleave, the server is stopped at most once and its goroutine never closes the
  channel twice. The channel is closed exactly when the goroutine has ended, the error is then final, and it
  is \<open>nil\<close> only if a shutdown was asked for. Every call of \<open>Shutdown\<close> that returns has the result of the one
  shutdown, or its context was done before the goroutine ended, and then that result if it is an error and
  the error of the context otherwise; so \<open>nil\<close> means that the server is down and was stopped cleanly.
\<close>

theorem server_shutdown_sound:
  assumes "server_reachable addr s"
  shows "stops s \<le> 1 \<and> ServePanic \<notin> set (goroutines s) \<and> (server_Done (server s) \<longleftrightarrow> goroutines s = [Ended]) \<and>
    (\<forall>s'. server_step s s' \<and> server_Done (server s) \<longrightarrow> server_Done (server s') \<and> server_Err (server s') = server_Err (server s)) \<and>
    (server_Done (server s) \<and> server_Err (server s) = None \<longrightarrow> shutdownOnce (server s) \<noteq> NotRun) \<and>
    list_all (result_sound (server s)) (callers s)"
proof -
  note inv = server_reachable_inv [OF assms]
  then have s: "serving_inv (server s) (goroutines s)" and o1: "once_inv (server s) (callers s) (stops s)"
    and c: "list_all (caller_inv (server s)) (callers s)" by (simp_all add: server_inv_def)
  have "ServePanic \<notin> set (goroutines s)" "server_Done (server s) \<longleftrightarrow> goroutines s = [Ended]"
    "server_Done (server s) \<and> server_Err (server s) = None \<longrightarrow> shutdownOnce (server s) \<noteq> NotRun"
    using s by (auto simp: serving_inv_def server_Done_def server_Err_def split: list.splits serving.splits)
  moreover have "stops s \<le> 1" using o1 by (simp add: once_inv_def)
  moreover have "list_all (result_sound (server s)) (callers s)"
    using c caller_result_sound by (auto simp: list_all_iff)
  ultimately show ?thesis using done_stays [OF _ inv] by (auto simp: server_Done_def server_Err_def)
qed

section \<open>A worked shutdown\<close>

text \<open>The server is started, shut down, and its goroutine ends before the call looks at the channel.\<close>

definition ex_down :: system where
  "ex_down = \<lparr>server = (NewServer '':8080'')\<lparr>listener := Some ''127.0.0.1:8080'', shutdownOnce := HasRun, done_closed := True\<rparr>,
     goroutines = [Ended], callers = [\<lparr>sd_at = Returned None, cl_ctx = None\<rparr>], stops = 1\<rparr>"

definition ex_system :: "once \<Rightarrow> bool \<Rightarrow> serving \<Rightarrow> shutdown_place \<Rightarrow> nat \<Rightarrow> system" where
  "ex_system on closed g at_place n =
     \<lparr>server = (NewServer '':8080'')\<lparr>listener := Some ''127.0.0.1:8080'', shutdownOnce := on, done_closed := closed\<rparr>,
      goroutines = [g], callers = [\<lparr>sd_at = at_place, cl_ctx = None\<rparr>], stops = n\<rparr>"

lemma ex_down_reachable: "server_reachable '':8080'' ex_down"
proof -
  let ?s0 = "\<lparr>server = NewServer '':8080'', goroutines = [], callers = [], stops = 0\<rparr> :: system"
  let ?s1 = "snd (Start (Inr ''127.0.0.1:8080'') ?s0)"
  let ?closed = "Served (Sentinel ErrServerClosed)"
  have steps: "server_step ?s0 ?s1" "server_step ?s1 (Shutdown ?s1)" by (simp_all add: server_step.start server_step.shutdown)
  have eq: "Shutdown ?s1 = ex_system NotRun False Serving AtOnce 0"
    by (simp add: Shutdown_def Start_def ex_system_def NewServer_def)
  have calls: "server_step (ex_system NotRun False Serving AtOnce 0) (ex_system InRun False Serving InOnce 0)"
    "server_step (ex_system InRun False Serving InOnce 0) (ex_system HasRun False Serving AtFirst 1)"
    "server_step (ex_system HasRun True Ended AtFirst 1) (ex_system HasRun True Ended (Returned None) 1)"
    using server_step.caller [of 0 "ex_system NotRun False Serving AtOnce 0" _ _ None]
      server_step.caller [of 0 "ex_system InRun False Serving InOnce 0" _ _ None]
      server_step.caller [of 0 "ex_system HasRun True Ended AtFirst 1" _ _ None]
    by (simp_all add: ex_system_def shutdown_steps_def returned_def NewServer_def)
  have serves: "server_step (ex_system HasRun False Serving AtFirst 1) (ex_system HasRun False ?closed AtFirst 1)"
    "server_step (ex_system HasRun False ?closed AtFirst 1) (ex_system HasRun False Stored AtFirst 1)"
    "server_step (ex_system HasRun False Stored AtFirst 1) (ex_system HasRun True Ended AtFirst 1)"
    using server_step.serve_returns [of 0 "ex_system HasRun False Serving AtFirst 1" "Sentinel ErrServerClosed"]
      server_step.serve [of 0 "ex_system HasRun False ?closed AtFirst 1"]
      server_step.serve [of 0 "ex_system HasRun False Stored AtFirst 1"]
    by (simp_all add: ex_system_def Serve_may_return_def NewServer_def)
  have "server_reachable '':8080'' (ex_system HasRun True Ended (Returned None) 1)"
    using server_reachable.fresh steps [unfolded eq] calls serves by (meson server_reachable.step)
  then show ?thesis by (simp add: ex_system_def ex_down_def)
qed

theorem server_shutdown_sound_witness:
  "server_reachable '':8080'' ex_down \<and> stops ex_down \<le> 1 \<and> server_Done (server ex_down) \<and> shutdownErr (server ex_down) = None"
  using server_shutdown_sound [OF ex_down_reachable] ex_down_reachable by (simp add: ex_down_def NewServer_def)

end
