(* ===== verification/Health_Daemon.thy ===== *)
theory Health_Daemon
  imports Health_Server Machines Daemon
begin

text \<open>
  The health server as the daemon sees it: what the daemon finds in the channel \<open>Done()\<close> and in \<open>Err()\<close> at an
  instant is the state of the machine of \<open>Health_Server\<close> at that instant. The life of the server depends on when the
  daemon asks it to stop, hence the argument \<open>nat option\<close>.
\<close>

definition health_server ::
  "(nat \<Rightarrow> err \<times> nat) \<Rightarrow> (ctx \<Rightarrow> nat \<Rightarrow> err \<times> nat) \<Rightarrow> (nat option \<Rightarrow> nat \<Rightarrow> system) \<Rightarrow> HealthServer" where
  "health_server started shut st =
     \<lparr>srv_Start = started, srv_Done = (\<lambda>asked n. server_Done (server (st asked n))),
      srv_Err = (\<lambda>asked n. server_Err (server (st asked n))), srv_Shutdown = shut\<rparr>"

abbreviation server_life :: "string \<Rightarrow> (nat \<Rightarrow> system) \<Rightarrow> bool" where
  "server_life addr st \<equiv> timeline (\<lambda>_ :: unit. server_step) st \<and> server_reachable addr (st 0)"

text \<open>The invariant and the end of the goroutine persist through runs.\<close>

interpretation serving: machine "\<lambda>_ :: unit. server_step" "\<lambda>_ s. server_inv s"
  by unfold_locales (rule server_inv_step)

interpretation ended: machine "\<lambda>_ :: unit. server_step" "\<lambda>_ s. server_inv s \<and> server_Done (server s) \<and> sv_err (server s) = e" for e
  by unfold_locales (auto simp: server_Done_def dest: done_stays server_inv_step)

lemma server_life_inv: "server_life addr st \<Longrightarrow> server_inv (st n)"
  using timeline_run [of "\<lambda>_. server_step" st 0 n] serving.run_inv server_reachable_inv by blast

text \<open>A closed channel stays closed, and its error is final.\<close>

lemma health_server_lasts:
  assumes "server_life addr (st asked)" "n \<le> m" "srv_Done (health_server started shut st) asked n"
  shows "srv_Done (health_server started shut st) asked m \<and>
    srv_Err (health_server started shut st) asked m = srv_Err (health_server started shut st) asked n"
proof -
  obtain as where "runs (\<lambda>_ :: unit. server_step) as (st asked n) (st asked m)" using timeline_run assms(1,2) by blast
  then have "server_inv (st asked m) \<and> server_Done (server (st asked m)) \<and> sv_err (server (st asked m)) = sv_err (server (st asked n))"
    by (rule ended.run_keeps) (use assms(3) server_life_inv [OF assms(1)] in \<open>simp add: health_server_def\<close>)
  then show ?thesis by (simp add: health_server_def server_Err_def)
qed

text \<open>A server that ends without having been asked to has an error.\<close>

lemma health_server_unasked:
  assumes "server_life addr (st asked)" "shutdownOnce (server (st asked n)) = NotRun" "srv_Done (health_server started shut st) asked n"
  shows "srv_Err (health_server started shut st) asked n \<noteq> None"
  using assms server_life_inv [OF assms(1), of n]
  by (auto simp: health_server_def server_Done_def server_Err_def server_inv_def serving_inv_def split: list.splits serving.splits)

end
