(* ===== verification/Spec2Isabelle.thy ===== *)
theory Spec2Isabelle
  imports Main_Program Docker_Daemon Docker_Inspect Health_Daemon Health_Handler
begin

text \<open>
  \<^bold>\<open>SDHM\<close>, a daemon that keeps a section of the hosts file in step with the containers of Docker networks.

  \<^bold>\<open>The program.\<close> \<open>cmd/sdhm\<close> parses the command line (\<open>command\<close>), takes a lock on the hosts file and runs the
  daemon (\<open>daemon\<close>) or regenerates the file. The daemon serves its health (\<open>health\<close>), subscribes to the
  events of Docker (\<open>docker\<close>), and on events, failures and at intervals takes a snapshot of all endpoints and gives
  it to the store (\<open>hosts\<close>), which renders it between two marker lines of the hosts file.

  \<^bold>\<open>The theories and what they model.\<close>

  \<^item> \<open>Sdhm_Prelude\<close>, \<open>Go_Text\<close>, \<open>Net_Addr\<close>, \<open>Go_Path\<close>, \<open>Go_Parse\<close>: errors as values, contexts, shared list lemmas,
    and what the source uses of the Go library: runes and strings on bytes, \<open>netip.Addr\<close>, \<open>path/filepath\<close>, durations and
    numbers.
  \<^item> \<open>Markers\<close> (\<open>hosts/markers.go\<close>) and \<open>Render\<close> (\<open>hosts/render.go\<close>): pure functions on byte strings; the offsets of the
    scan are naturals. The lens laws of the section are the locale \<open>section_lens\<close>, what \<open>slices.SortFunc\<close> promises
    is the locale \<open>slices_sort\<close>.
  \<^item> \<open>File_Ops\<close> (\<open>hosts/fileops.go\<close>), \<open>Replace\<close>, \<open>Atomic_File\<close>, \<open>Store\<close>, \<open>Store_Apply\<close>, \<open>Store_Prepare\<close>, \<open>Store_Theorems\<close>
    (\<open>hosts/store.go\<close>): a Unix file system with inodes, directory entries as processes see them and as the disk
    holds them, and a trace of all states, so that a claim about every instant is one about the trace, and a
    power failure leaves what is on the disk. \<open>fileOps\<close> says which calls fail and what other processes do in between.
    Replacing a file has the contract \<open>file_replacer\<close>; the store has the contract \<open>host_store\<close>.
  \<^item> \<open>Tracker\<close>, \<open>Health_Handler\<close>, \<open>Health_Server\<close> (\<open>health\<close>): the tracker is a record with its 64-bit identifiers as
    words and the contract \<open>concern_tracker\<close>; the server is a step relation on the states of its goroutine and of the
    concurrent calls of \<open>Shutdown\<close>.
  \<^item> \<open>Machines\<close>: runs of machines with labelled steps, and how an invariant of the steps (the locale \<open>machine\<close>)
    becomes one of the runs; goroutines are such machines.
  \<^item> \<open>Docker\<close>, \<open>Docker_Events\<close>, \<open>Docker_Inspect\<close> (\<open>docker/client.go\<close>): the client, snapshots as functions of what the
    Moby client returns, the goroutine of an event stream as a machine with one step per channel operation, and the
    concurrent inspections of a snapshot as a machine that implements the function the snapshot uses.
  \<^item> \<open>Daemon\<close> (\<open>daemon\<close>), with \<open>Daemon_Loop\<close> (invariants), \<open>Daemon_Effects\<close> (effects as a step relation that all
    operations refine), \<open>Daemon_Debounce\<close>, \<open>Daemon_Stop\<close>, \<open>Daemon_Run\<close> and \<open>Daemon_Theorems\<close>: the state of the loop is
    the record \<open>loopState\<close>, with the fields of the code. Channels, contexts, the server and the clock are functions
    of an instant, and every look at one of them takes time. \<open>Docker_Daemon\<close> and \<open>Health_Daemon\<close> say which functions the
    channels of a stream and the health server are, namely the states of their machines at that instant.
  \<^item> \<open>Config\<close> (\<open>command\<close>), \<open>Hosts_Lock\<close>, \<open>Logging\<close>, \<open>Wiring\<close> (\<open>cmd/sdhm\<close>): options, parsers and validation; the lock and its
    contract \<open>hosts_lock\<close>; log lines and priorities; the composition of the parts and the two commands.
  \<^item> \<open>Main_Program\<close> (\<open>cmd/sdhm/main.go\<close>, \<open>command/root.go\<close>): the command tree and the program, from the arguments to the
    exit code.
  \<^item> This theory: the environment of a process, and what holds of the parts together.

  \<^bold>\<open>What the lemmas show.\<close> Markers: the scan by offsets equals a reading line by line, hence the lens laws. Rendering:
  the body has one line per endpoint, depends on their set only, and reads back as the endpoints unless the zone of
  an IPv6 address, which the code renders unchecked, holds a delimiter byte (\<open>clean_zone\<close>; \<open>zone_is_not_validated\<close>). Store: \<open>Apply\<close>, \<open>Prepare\<close> and
  \<open>Regenerate\<close> are atomic at every instant and through power failures, success means done and durable, and no
  sequence of calls touches a byte outside the section. Health: the bounded history and the active concerns are
  consistent under every sequence of reports. Docker: snapshots are complete and canonical, their inspections are
  bounded in number and all made, the event stream neither loses nor reorders events and always ends, and the
  error that ended it is the one the daemon reports. Daemon: reconciliation is always scheduled, events are not
  starved by further events, runs end, clean up, and end without an error only when asked to. Together: the
  program keeps the hosts file intact from the arguments to the disk, or replaces it as a whole when told to
  regenerate it; after a successful reconciliation the section holds one line for every endpoint Docker reported; and the exit code
  and the last line on the standard error stream say whether the command failed.

  \<^bold>\<open>Bounds and fuel.\<close> Loops over data are structural. The loop of the daemon and the wait for the server at the end
  have fuel: if the context is done from the instant \<open>N\<close> on, \<open>N + 2\<close> steps are enough, because every step takes at
  least one instant, and \<open>B\<close> rounds are enough when the server is down \<open>B\<close> instants after its shutdown; \<open>Run_terminates\<close>
  says so, and all other claims hold for every fuel with which a run returns. The goroutine of an event stream has
  at most six steps left when its context is done, so \<open>Close\<close> has fuel six. The inspections of a snapshot take two
  steps per container and one more. Durations are integers of
  nanoseconds; where the code could leave 64 bits the parsers refuse, and the delays are shown to stay in
  range.

  \<^bold>\<open>What the environment is.\<close> Other processes may edit the file system before any call; what is proved of the
  store assumes that they leave it alone from some point on (\<open>quiet\<close>: during the call, for \<open>replaceFileIfUnchanged_conflict\<close>
  only from the check of the target on), since neither the code nor the model detects an edit between that check and the rename.
  Directory entries reach the disk when the directory is synced and at no other time; a rename that the kernel writes back earlier
  is the same new file seen sooner. The lock of a hosts file is a table by the path of the lock file, while \<open>flock\<close> locks the inode:
  two names of one lock file are two locks here. When the server is done, the watcher's cancellation is seen as \<open>Canceled\<close> even if
  the context of the caller had ended before with another error.

  \<^bold>\<open>Not modelled.\<close> The flag parser, help texts and version template of cobra: what cobra makes of the arguments is a
  parameter. \<open>signal.NotifyContext\<close>: the context is the one the signals cancel. The constructor of the Moby client,
  which is a parameter, like all calls of that client; \<open>errgroup\<close>, of which only the documented limit is used; the
  HTTP protocol and the multiplexer, so that only the response of the handler is modelled; the text format of
  \<open>log/slog\<close>; the error texts of the operating system. Mutexes are represented by the granularity of steps.
\<close>

section \<open>The environment of a process\<close>

text \<open>
  What the process may rely on: the clock of the machine does not go back, a done context stays done, a
  closed \<open>Done()\<close> channel stays closed, and a cancelled context stays cancelled.
\<close>

definition sound_env :: "runtime \<Rightarrow> ctx \<Rightarrow> HealthServer \<Rightarrow> bool" where
  "sound_env rt parent srv \<longleftrightarrow>
     (\<forall>n m. n \<le> m \<longrightarrow> rt_time rt n \<le> rt_time rt m \<and> (rt_watch rt n \<longrightarrow> rt_watch rt m) \<and>
       (parent n \<noteq> None \<longrightarrow> parent m \<noteq> None) \<and> (srv_Done srv None n \<longrightarrow> srv_Done srv None m))"

lemma sound_env_sane:
  assumes "sound_env rt parent (d_server d)" "d_runtime d = rt" "d_timing d = defaultTiming" "validateConfig (d_config d) = None"
  shows "sane d (run_ctx d parent)"
proof -
  have "lasting d (run_ctx d parent)" "steady_clock d"
    using assms(1,2) unfolding lasting_def steady_clock_def sound_env_def run_ctx_def by (auto split: if_splits; blast)+
  with assms(3,4) show ?thesis by (simp add: sane_def validateConfig_iff defaultTiming_def second_def)
qed

text \<open>The health server of the program is one the daemon may rely on, whatever its goroutines and callers do.\<close>

lemma health_server_sound_env:
  assumes "server_life addr (st None)"
    and "\<And>n m. n \<le> m \<Longrightarrow> rt_time rt n \<le> rt_time rt m \<and> (rt_watch rt n \<longrightarrow> rt_watch rt m) \<and> (parent n \<noteq> None \<longrightarrow> parent m \<noteq> None)"
  shows "sound_env rt parent (health_server started shut st)"
  using health_server_lasts [where addr = addr and st = st and asked = None, OF assms(1)] assms(2) by (simp add: sound_env_def)

lemma New_accepts:
  assumes "Validate cfg = None"
  shows "New rt (daemon_config_of cfg) (Value KPointer (Some source)) (Value KPointer (Some store)) False
      (Value KPointer (Some srv)) False =
    Inr \<lparr>d_config = daemon_config_of cfg, d_source = source, d_store = store, d_server = srv,
      d_timing = defaultTiming, d_runtime = rt\<rparr>"
proof -
  have "validateConfig (daemon_config_of cfg) = None"
    using assms by (simp add: validateConfig_iff Validate_iff daemon_config_of_def)
  then show ?thesis by (simp add: New_def)
qed

lemma single_line_marker:
  assumes "single_line (pre @ x)"
  shows "line_marker (pre @ x)"
proof -
  have "last (pre @ x) \<noteq> CR" if "pre @ x \<noteq> []" using assms last_in_set [OF that] by (auto simp: single_line_def)
  with assms show ?thesis by (auto simp: line_marker_def single_line_def)
qed

section \<open>Properties that span components\<close>

text \<open>
  A daemon on a configuration the command accepts, started on a hosts file with a valid managed section, keeps
  that section, the metadata and all bytes outside it.
\<close>

lemma process_keeps_hosts:
  assumes "rootOptions_config opts changed = Inr cfg"
    and "wiring = productionDaemonWiring lops pid docker fops host srt newServer rt"
    and "runDaemon version euid parent cfg wiring fuel (p, lks) = Some (r, p', lks')"
    and "sound_env rt parent (newServer (JoinHostPort (HealthAddr cfg) (Itoa (HealthPort cfg))))"
    and "p_live p = []" and "p_calls p = []"
    and "s = NewStore fops host (HostsFile cfg) (BackupFile cfg) (SectionName cfg) (DefaultNetwork cfg)"
    and "calm fops (p_world p)" and "hosts_kept s m out (w_fs (p_world p))"
  shows "during (hosts_kept s m out) (p_world p) (p_world p')"
proof -
  have v: "Validate cfg = None" by (rule rootOptions_config_valid [OF assms(1)])
  then have ne: "HostsFile cfg \<noteq> BackupFile cfg" by (simp add: Validate_iff validateFileConfig_iff)
  have ready: "store_ready s m out (p_world p)"
    using assms(8,9) ne by (simp add: store_ready_def assms(7) NewStore_def)
  have refl: "during (hosts_kept s m out) (p_world p) (p_world p)" using assms(9) by (rule during_refl)
  let ?p0 = "logStartup version cfg (rootWarning euid p)"
  have p0: "p_world ?p0 = p_world p" "p_live ?p0 = p_live p" "p_calls ?p0 = p_calls p"
    by (simp_all add: logStartup_def rootWarning_def logged_def)
  have locked: "during (hosts_kept s m out) (p_world p) (p_world q)"
    if run: "runLocked parent cfg wiring fuel ?p0 = Some (e, q)" for e q
  proof (cases docker)
    case (Inl x)
    with run refl p0 show ?thesis by (simp add: runLocked_def assms(2) productionDaemonWiring_def)
  next
    case (Inr source)
    let ?p = "?p0\<lparr>p_tracker := NewTracker\<rparr>"
    let ?srv = "newServer (JoinHostPort (HealthAddr cfg) (Itoa (HealthPort cfg)))"
    let ?d = "\<lparr>d_config = daemon_config_of cfg, d_source = source, d_store = HostStore_of srt s, d_server = ?srv,
      d_timing = defaultTiming, d_runtime = rt\<rparr>"
    have "New rt (daemon_config_of cfg) (Value KPointer (Some source)) (Value KPointer (Some (HostStore_of srt s))) False
      (Value KPointer (Some ?srv)) False = Inr ?d" by (rule New_accepts [OF v])
    with run Inr obtain q' where q': "Run ?d parent fuel ?p = Some (e, q')" "p_world q = p_world q'"
      by (auto simp: runLocked_def assms(2,7) productionDaemonWiring_def Let_def logged_def split: option.splits)
    have "sane ?d (run_ctx ?d parent)"
      by (rule sound_env_sane)
        (use assms(4) v in \<open>simp_all add: validateConfig_iff Validate_iff daemon_config_of_def\<close>)
    from hosts_store.Run_keeps [OF q'(1) this, of s srt m out] ready assms(5,6) q'(2) p0 show ?thesis
      by (simp add: HostStore_of_def)
  qed
  from assms(3) locked refl p0 show ?thesis
    by (auto simp: runDaemon_def runDaemonWith_def split: prod.splits sum.splits option.splits)
qed

text \<open>
  C1. From the command line to the disk: whatever the arguments that start the daemon, if the hosts file they name
  has a valid managed section, the program keeps at every instant of its life one valid section, the
  metadata and all bytes outside the section, to readers and on the disk. This holds whatever Docker
  reports, whichever calls fail, whenever the process is stopped, and when the power fails.
\<close>

theorem main_keeps_hosts:
  assumes "sdhm_main parse Getenv quote euid parent wiring new_store fuel args (p, lks) stderr = Some (code, (p', lks'), stderr')"
    and "request_of parse args = DaemonRequest cfg"
    and "wiring = productionDaemonWiring lops pid docker fops host srt newServer rt"
    and "sound_env rt parent (newServer (JoinHostPort (HealthAddr cfg) (Itoa (HealthPort cfg))))"
    and "p_live p = []" and "p_calls p = []"
    and "s = NewStore fops host (HostsFile cfg) (BackupFile cfg) (SectionName cfg) (DefaultNetwork cfg)"
    and "calm fops (p_world p)" and "hosts_kept s m out (w_fs (p_world p))"
  shows "during (hosts_kept s m out) (p_world p) (p_world p')"
proof -
  obtain r where run: "runDaemon version euid parent cfg wiring fuel (p, lks) = Some (r, p', lks')"
    by (rule main_execute_request [OF assms(1)]) (simp add: assms(2))
  obtain opts changed where "rootOptions_config opts changed = Inr cfg"
    using assms(2) by (auto simp: request_of_def split: invocation.splits sum.splits)
  from process_keeps_hosts [OF this assms(3) run assms(4-9)] show ?thesis .
qed

text \<open>
  C3. The exit code: 0 exactly when there was nothing to do or the command returned no error, and then the program
  writes nothing to the standard error stream; otherwise 1, after one message that ends its line and, in
  the journal, is one line of priority 3. Refused arguments change nothing and take no lock.
\<close>

theorem main_exits:
  assumes "sdhm_main parse Getenv quote euid c wiring new_store fuel args (p, lks) stderr = Some (code, (p', lks'), stderr')"
    and "\<forall>k. sk_fault stderr k = None"
  shows "(case request_of parse args of
      NoRequest \<Rightarrow> code = 0 \<and> p' = p \<and> lks' = lks
    | RefusedRequest e \<Rightarrow> code = 1 \<and> p' = p \<and> lks' = lks
    | DaemonRequest cfg \<Rightarrow> \<exists>e. runDaemon version euid c cfg wiring fuel (p, lks) = Some (e, p', lks') \<and> (code = 0 \<longleftrightarrow> e = None)
    | RegenerateRequest cfg \<Rightarrow> \<exists>e. regenerateHosts euid c cfg wiring new_store (p, lks) = (e, p', lks') \<and> (code = 0 \<longleftrightarrow> e = None)) \<and>
    (if code = 0 then stderr' = stderr
     else code = 1 \<and> (\<exists>out. sk_written stderr' = sk_written stderr @ out \<and> last_words (journalStreamPresent Getenv) out))"
proof -
  obtain e where e: "main_exit quote (journalStreamPresent Getenv) e stderr = (code, stderr')"
    "case request_of parse args of
      NoRequest \<Rightarrow> e = None \<and> p' = p \<and> lks' = lks
    | RefusedRequest x \<Rightarrow> e = Some x \<and> p' = p \<and> lks' = lks
    | DaemonRequest cfg \<Rightarrow> runDaemon version euid c cfg wiring fuel (p, lks) = Some (e, p', lks')
    | RegenerateRequest cfg \<Rightarrow> regenerateHosts euid c cfg wiring new_store (p, lks) = (e, p', lks')"
    by (rule main_execute_request [OF assms(1)])
  show ?thesis using main_exit_words [OF e(1) assms(2)] e(2) by (cases "request_of parse args") auto
qed

text \<open>
  C4. The regenerate command, from the arguments to the disk: at every instant an existing hosts file has its
  old contents or the whole fresh file, with its old metadata, to readers and on the disk, whichever calls fail and
  when the power fails; with the exit code 0 hosts file and backup both hold the fresh file, durably, which has one valid section.
\<close>

theorem main_regenerates:
  assumes "sdhm_main parse Getenv quote euid c wiring (NewStore fops host) fuel args (p, lks) stderr = Some (code, (p', lks'), stderr')"
    and "request_of parse args = RegenerateRequest cfg"
    and "s = NewStore fops host (rc_HostsFile cfg) (rc_BackupFile cfg) (rc_SectionName cfg) []"
    and "calm fops (p_world p)"
  shows "(\<forall>nd. settled (w_fs (p_world p)) (hostsPath s) nd \<longrightarrow>
      during (\<lambda>fs. one_of (meta_of nd) {i_data nd, fresh_for s} (view fs (hostsPath s)) \<and>
        one_of (meta_of nd) {i_data nd, fresh_for s} (disk fs (hostsPath s))) (p_world p) (p_world p')) \<and>
    (code = 0 \<longrightarrow> (\<exists>nd'. settled (w_fs (p_world p')) (hostsPath s) nd' \<and> i_data nd' = fresh_for s \<and>
      marked (beginMarker s) (endMarker s) (fresh_for s) \<and>
      file_with (\<lambda>x. x = fresh_for s) (view (w_fs (p_world p')) (backupPath s))))"
proof -
  obtain e where e: "main_exit quote (journalStreamPresent Getenv) e stderr = (code, stderr')"
    "regenerateHosts euid c cfg wiring (NewStore fops host) (p, lks) = (e, p', lks')"
    by (rule main_execute_request [OF assms(1)]) (simp add: assms(2))
  have z: "code = 0 \<longleftrightarrow> e = None" using e(1) by (auto simp: main_exit_def split: option.splits)
  obtain opts where "regenerateOptions_config opts = Inr cfg"
    using assms(2) by (auto simp: request_of_def split: invocation.splits sum.splits)
  then have "rc_HostsFile cfg \<noteq> rc_BackupFile cfg"
    by (auto simp: regenerateOptions_config_def Let_def validateFileConfig_iff split: option.splits)
  then have ne: "beginMarker s \<noteq> endMarker s" "hostsPath s \<noteq> backupPath s" "store_ops s = fops" by (simp_all add: assms(3) NewStore_def)
  from regenerateHosts_ways [OF e(2), folded assms(3)] show ?thesis
  proof
    assume "p_world p' = p_world p \<and> e \<noteq> None"
    with z show ?thesis by (auto simp: settled_def one_of_def intro!: during_refl)
  next
    assume "\<exists>e1. Regenerate s c (p_world p) = (e1, p_world p') \<and> (e = None \<longrightarrow> e1 = None)"
    then obtain e1 where "Regenerate s c (p_world p) = (e1, p_world p')" "e = None \<longrightarrow> e1 = None" by blast
    with Regenerate_spec [OF this(1) _ ne(1,2)] assms(4) ne(3) z show ?thesis by simp
  qed
qed

text \<open>
  C5. Two processes never manage the same hosts file: the daemon and the regeneration that find the lock taken
  return an error without having touched anything, and each leaves the locks as it found them.
\<close>

theorem hosts_lock_exclusive:
  assumes "wiring = productionDaemonWiring lops pid docker fops host srt newServer rt"
    and "runDaemonWith parent cfg wiring fuel (p, lks) = Some (r, p', lks')"
    and "regenerateHostsWith c rcfg wiring new_store (w, lks) = (r2, w', lks2)"
  shows "lks' = lks \<and> lks2 = lks \<and>
    (if lks (lock_path lops (HostsFile cfg)) \<noteq> None then p' = p \<and> r \<noteq> None else True) \<and>
    (if lks (lock_path lops (rc_HostsFile rcfg)) \<noteq> None then w' = w \<and> r2 \<noteq> None else True)"
proof -
  have w: "lockHostsFile wiring = acquireHostsLock lops pid" "unlockHostsFile wiring = closeLock lops"
    by (simp_all add: assms(1) productionDaemonWiring_def)
  show ?thesis
    using flock.under_lock [OF runDaemonWith_locks [OF assms(2), unfolded w]]
      flock.under_lock [OF regenerateHostsWith_locks [OF assms(3), unfolded w]] by blast
qed

text \<open>
  C6. Whatever the command accepts the rest of the program accepts: the daemon is constructed, its networks
  can be rendered, and the markers and paths of the store are as its guarantees need them.
\<close>

theorem accepted_config_constructs:
  assumes "rootOptions_config opts changed = Inr cfg"
    and "s = NewStore fops host (HostsFile cfg) (BackupFile cfg) (SectionName cfg) (DefaultNetwork cfg)"
  shows "(\<exists>d. New rt (daemon_config_of cfg) (Value KPointer (Some source)) (Value KPointer (Some (HostStore_of srt s))) False
      (Value KPointer (Some srv)) False = Inr d) \<and>
    list_all (\<lambda>n. validateNetwork n = None) (Networks cfg) \<and> validateNetwork (defaultNetwork s) = None \<and>
    beginMarker s \<noteq> endMarker s \<and> line_marker (beginMarker s) \<and> line_marker (endMarker s) \<and> hostsPath s \<noteq> backupPath s"
proof -
  have v: "Validate cfg = None" by (rule rootOptions_config_valid [OF assms(1)])
  then have n: "list_all normal_network (Networks cfg)" "DefaultNetwork cfg \<in> set (Networks cfg)"
    "HostsFile cfg \<noteq> BackupFile cfg" "single_line (SectionName cfg)" "TrimSpace (SectionName cfg) \<noteq> []"
    by (simp_all add: Validate_iff validateNetworks_iff validateFileConfig_iff)
  have "line_marker (''# BEGIN '' @ SectionName cfg)" "line_marker (''# END '' @ SectionName cfg)"
    by (rule single_line_marker; use n(4) in \<open>simp add: single_line_def\<close>)+
  with n New_accepts [OF v] normal_network_renders show ?thesis by (auto simp: list_all_iff assms(2) NewStore_def)
qed

section \<open>A worked process\<close>

text \<open>
  The process without options, on the worked file system and with a disk that fills up, a Docker daemon that
  always has an event and reports one container, and a free lock.
\<close>

definition ex_lock :: lockOps where
  "ex_lock = \<lparr>lk_Getwd = Inr ''/'', lk_OpenFile = (\<lambda>_. None), lk_Stat = (\<lambda>_. Inr 0x180), lk_Chmod = (\<lambda>_ _. None),
     lk_Flock = (\<lambda>_. None), lk_Close = (\<lambda>_. None)\<rparr>"

definition ex_runtime :: runtime where
  "ex_runtime = \<lparr>rt_time = (\<lambda>n. int n * second), rt_pick = (\<lambda>_. 0), rt_watch = (\<lambda>_. True), rt_quote = id\<rparr>"

definition ex_wiring :: "(nat \<Rightarrow> go_error option) \<Rightarrow> daemonWiring" where
  "ex_wiring faults = productionDaemonWiring ex_lock 1 (Inr (ex_source (Inr [ex_backend]) an_event)) (ex_ops faults)
     (Inr ''saltbox'') insertionSort (\<lambda>_. ex_server (\<lambda>_. False)) ex_runtime"

definition ex_cfg :: command_Config where
  "ex_cfg = \<lparr>Networks = [''saltbox''], DefaultNetwork = ''saltbox'', HostsFile = ''/etc/hosts'',
     BackupFile = ''/etc/hosts.backup'', SectionName = ''DOCKER CONTAINERS'',
     PeriodicInterval = 300 * 1000000000, DebounceDelay = 1000000000, MaxDebounceDelay = 5 * 1000000000,
     HealthAddr = ''127.0.0.1'', HealthPort = 8080\<rparr>"

lemma ex_cfg_accepted: "rootOptions_config root_flags False = Inr ex_cfg"
  using default_options_config by (simp add: ex_cfg_def)

lemma ex_cfg_store: "ex_store f = NewStore (ex_ops f) (Inr ''saltbox'') (HostsFile ex_cfg) (BackupFile ex_cfg)
    (SectionName ex_cfg) (DefaultNetwork ex_cfg)"
  by (simp add: ex_store_def ex_cfg_def)

lemma ex_sound: "sound_env ex_runtime (cancelled_at k) (ex_server (\<lambda>_. False))"
  by (auto simp: sound_env_def ex_runtime_def ex_server_def cancelled_at_def second_def)

lemma ex_lock_free: "acquireHostsLock ex_lock 1 ''/etc/hosts'' (\<lambda>_. None) =
    (Inr ''/etc/hosts.sdhm.lock'', [''/etc/hosts.sdhm.lock'' \<mapsto> 1])"
  by (simp add: acquireHostsLock_def filepath_Abs_def ex_lock_def Clean_def hostsLockSuffix_def IsRegular_def ModeType_def Flock_def Let_def)

lemma ex_process_runs:
  "\<exists>r p' lks'. runDaemon version 0 (cancelled_at 30) ex_cfg (ex_wiring f) 40 (ex_process, \<lambda>_. None) = Some (r, p', lks')"
proof -
  let ?srv = "ex_server (\<lambda>_. False)"
  let ?st = "HostStore_of insertionSort (ex_store f)"
  let ?d = "ex_daemon ?st (Inr [ex_backend]) an_event (\<lambda>_. False)"
  have v: "Validate ex_cfg = None" by (rule rootOptions_config_valid [OF ex_cfg_accepted])
  have "\<lparr>d_config = daemon_config_of ex_cfg, d_source = ex_source (Inr [ex_backend]) an_event, d_store = ?st, d_server = ?srv,
      d_timing = defaultTiming, d_runtime = ex_runtime\<rparr> = ?d"
    by (simp add: ex_daemon_def daemon_config_of_def ex_cfg_def ex_config_def ex_runtime_def second_def)
  with New_accepts [OF v, of ex_runtime "ex_source (Inr [ex_backend]) an_event" ?st ?srv]
  have n: "New ex_runtime (daemon_config_of ex_cfg) (Value KPointer (Some (ex_source (Inr [ex_backend]) an_event)))
      (Value KPointer (Some ?st)) False (Value KPointer (Some ?srv)) False = Inr ?d" by simp
  have "\<exists>r q. runLocked (cancelled_at 30) ex_cfg (ex_wiring f) 40 p = Some (r, q)" for p
  proof -
    obtain r q where "Run ?d (cancelled_at 30) 40 (p\<lparr>p_tracker := NewTracker\<rparr>) = Some (r, q)" using ex_run_cancelled by blast
    with n show ?thesis
      by (cases r) (simp_all add: runLocked_def ex_wiring_def productionDaemonWiring_def ex_cfg_store Let_def)
  qed
  then obtain r q where "runLocked (cancelled_at 30) ex_cfg (ex_wiring f) 40 (logStartup version ex_cfg (rootWarning 0 ex_process)) = Some (r, q)"
    by blast
  moreover have "lockHostsFile (ex_wiring f) (HostsFile ex_cfg) (\<lambda>_. None) =
      (Inr ''/etc/hosts.sdhm.lock'', [''/etc/hosts.sdhm.lock'' \<mapsto> 1])"
    using ex_lock_free by (simp add: ex_wiring_def productionDaemonWiring_def ex_cfg_def)
  ultimately show ?thesis
    by (auto simp: runDaemon_def runDaemonWith_def joinHostsLockClose_def ex_wiring_def productionDaemonWiring_def closeLock_def ex_lock_def)
qed

text \<open>The program without arguments, as cobra reads them.\<close>

definition ex_cobra :: cobra where
  "ex_cobra = (\<lambda>vers flags regenerate args.
     if args = [] then RootCommand flags False
     else if args = [''--version''] then Printed vers
     else if args = [''regenerate''] then RegenerateCommand regenerate
     else Misused (errors_New ''unknown argument''))"

definition ex_stderr :: sink where
  "ex_stderr = \<lparr>sk_written = [], sk_calls = 0, sk_fault = (\<lambda>_. None)\<rparr>"

lemma ex_request: "request_of ex_cobra [] = DaemonRequest ex_cfg"
  using ex_cfg_accepted by (simp add: request_of_def ex_cobra_def)

lemma ex_main_runs:
  "\<exists>code p' lks' stderr'. sdhm_main ex_cobra (\<lambda>_. []) id 0 (cancelled_at 30) (ex_wiring f) new_store 40 [] (ex_process, \<lambda>_. None) stderr =
     Some (code, (p', lks'), stderr')"
proof -
  obtain r p' lks' where run: "runDaemon version 0 (cancelled_at 30) ex_cfg (ex_wiring f) 40 (ex_process, \<lambda>_. None) = Some (r, p', lks')"
    using ex_process_runs by blast
  obtain code stderr' where "main_exit id (journalStreamPresent (\<lambda>_. [])) r stderr = (code, stderr')" by fastforce
  with run ex_cfg_accepted show ?thesis
    by (simp add: sdhm_main_def ExecuteContext_def ex_cobra_def NewRoot_def newRegenerateCommand_def NewRoot_RunE_def run_command_def)
qed

theorem main_keeps_hosts_witness:
  "\<exists>code p' lks' stderr'. sdhm_main ex_cobra (\<lambda>_. []) id 0 (cancelled_at 30) (ex_wiring disk_full) (\<lambda>_ _ _ _. ex_store disk_full) 40 []
       (ex_process, \<lambda>_. None) ex_stderr = Some (code, (p', lks'), stderr') \<and>
     during (hosts_kept (ex_store disk_full) (meta_of ex_node)
       (outside ''# BEGIN DOCKER CONTAINERS'' ''# END DOCKER CONTAINERS'' ex_hosts)) ex_world (p_world p')"
proof -
  obtain code p' lks' stderr' where run: "sdhm_main ex_cobra (\<lambda>_. []) id 0 (cancelled_at 30) (ex_wiring disk_full)
      (\<lambda>_ _ _ _. ex_store disk_full) 40 [] (ex_process, \<lambda>_. None) ex_stderr = Some (code, (p', lks'), stderr')"
    using ex_main_runs by blast
  have "hosts_kept (ex_store disk_full) (meta_of ex_node)
       (outside ''# BEGIN DOCKER CONTAINERS'' ''# END DOCKER CONTAINERS'' ex_hosts) (w_fs (p_world ex_process))"
    using ex_settled ex_marked by (simp add: hosts_kept_def around_def one_of_def settled_def ex_node_def)
  from main_keeps_hosts [OF run ex_request ex_wiring_def ex_sound _ _ ex_cfg_store _ this] ex_calm_full run
  show ?thesis by auto
qed

theorem main_exits_witness:
  "\<exists>code lks stderr' out. sdhm_main ex_cobra (\<lambda>_. []) id 0 (\<lambda>_. None) (ex_wiring disk_full) (\<lambda>_ _ _ _. ex_store disk_full) 0 [''-x'']
      (ex_process, lks) ex_stderr = Some (code, (ex_process, lks), stderr') \<and>
    code = 1 \<and> sk_written stderr' = sk_written ex_stderr @ out \<and> last_words False out"
proof -
  let ?main = "sdhm_main ex_cobra (\<lambda>_. []) id 0 (\<lambda>_. None) (ex_wiring disk_full) (\<lambda>_ _ _ _. ex_store disk_full) 0 [''-x'']
      (ex_process, \<lambda>_. None) ex_stderr"
  have r: "request_of ex_cobra [''-x''] = RefusedRequest (errors_New ''unknown argument'')" by (simp add: request_of_def ex_cobra_def)
  obtain code p' lks' stderr' where run: "?main = Some (code, (p', lks'), stderr')"
    by (cases "main_exit id False (Some (errors_New ''unknown argument'')) ex_stderr")
      (simp add: sdhm_main_def ExecuteContext_def ex_cobra_def NewRoot_def newRegenerateCommand_def journalStreamPresent_def)
  have "\<forall>k. sk_fault ex_stderr k = None" by (simp add: ex_stderr_def)
  from main_exits [OF run this] r have "code = 1 \<and> p' = ex_process \<and> lks' = (\<lambda>_. None) \<and>
      (\<exists>out. sk_written stderr' = sk_written ex_stderr @ out \<and> last_words False out)"
    by (auto simp: journalStreamPresent_def split: if_splits)
  with run show ?thesis by blast
qed

theorem main_regenerates_witness:
  "\<exists>code p' lks' stderr'. sdhm_main ex_cobra (\<lambda>_. []) id 0 (\<lambda>_. None) (ex_wiring disk_full) (NewStore (ex_ops disk_full) (Inr ''saltbox'')) 0
       [''regenerate''] (ex_process, \<lambda>_. None) ex_stderr = Some (code, (p', lks'), stderr') \<and>
     during (\<lambda>fs. one_of (meta_of ex_node) {ex_hosts, freshHostsFile ''saltbox'' ''# BEGIN DOCKER CONTAINERS'' ''# END DOCKER CONTAINERS''}
       (view fs ''/etc/hosts'')) ex_world (p_world p')"
proof -
  let ?cfg = "\<lparr>rc_HostsFile = ''/etc/hosts'', rc_BackupFile = ''/etc/hosts.backup'', rc_SectionName = ''DOCKER CONTAINERS''\<rparr>"
  let ?new = "NewStore (ex_ops disk_full) (Inr ''saltbox'')"
  have cfg: "regenerateOptions_config regenerate_flags = Inr ?cfg" using default_options_config by blast
  then have req: "request_of ex_cobra [''regenerate''] = RegenerateRequest ?cfg" by (simp add: request_of_def ex_cobra_def)
  obtain r p1 l1 where "regenerateHosts 0 (\<lambda>_. None) ?cfg (ex_wiring disk_full) ?new (ex_process, \<lambda>_. None) = (r, p1, l1)"
    by (metis prod.exhaust)
  moreover obtain code stderr' where "main_exit id (journalStreamPresent (\<lambda>_. [])) r ex_stderr = (code, stderr')" by fastforce
  ultimately have run: "sdhm_main ex_cobra (\<lambda>_. []) id 0 (\<lambda>_. None) (ex_wiring disk_full) ?new 0
       [''regenerate''] (ex_process, \<lambda>_. None) ex_stderr = Some (code, (p1, l1), stderr')"
    using cfg by (simp add: sdhm_main_def ExecuteContext_def ex_cobra_def NewRoot_def newRegenerateCommand_def
        newRegenerateCommand_RunE_def regenerate_command_def)
  let ?s = "?new ''/etc/hosts'' ''/etc/hosts.backup'' ''DOCKER CONTAINERS'' []"
  have calm: "calm (ex_ops disk_full) (p_world ex_process)" using ex_calm_full by simp
  have s: "settled (w_fs (p_world ex_process)) (hostsPath ?s) ex_node" "i_data ex_node = ex_hosts" "hostsPath ?s = ''/etc/hosts''"
    "fresh_for ?s = freshHostsFile ''saltbox'' ''# BEGIN DOCKER CONTAINERS'' ''# END DOCKER CONTAINERS''"
    using ex_settled by (simp_all add: ex_node_def fresh_for_def NewStore_def)
  have eq: "?s = ?new (rc_HostsFile ?cfg) (rc_BackupFile ?cfg) (rc_SectionName ?cfg) []" by simp
  from main_regenerates [OF run req eq calm, THEN conjunct1, rule_format, OF s(1)] s(2,3)
  have "during (\<lambda>fs. one_of (meta_of ex_node) {ex_hosts, fresh_for ?s} (view fs ''/etc/hosts'') \<and>
      one_of (meta_of ex_node) {ex_hosts, fresh_for ?s} (disk fs ''/etc/hosts'')) ex_world (p_world p1)" by simp
  then have "during (\<lambda>fs. one_of (meta_of ex_node) {ex_hosts, fresh_for ?s} (view fs ''/etc/hosts'')) ex_world (p_world p1)"
    by (rule during_mono) simp
  with run s(4) show ?thesis by auto
qed

theorem hosts_lock_exclusive_witness:
  "\<exists>r r2. runDaemonWith (\<lambda>_. None) ex_cfg (ex_wiring disk_full) 0 (ex_process, [''/etc/hosts.sdhm.lock'' \<mapsto> 7]) =
     Some (r, ex_process, [''/etc/hosts.sdhm.lock'' \<mapsto> 7]) \<and> r \<noteq> None \<and>
   regenerateHostsWith (\<lambda>_. None) \<lparr>rc_HostsFile = ''/etc/hosts'', rc_BackupFile = ''/b'', rc_SectionName = ''x''\<rparr> (ex_wiring disk_full)
     (\<lambda>_ _ _ _. ex_store disk_full) (ex_world, [''/etc/hosts.sdhm.lock'' \<mapsto> 7]) =
     (r2, ex_world, [''/etc/hosts.sdhm.lock'' \<mapsto> 7]) \<and> r2 \<noteq> None"
proof -
  let ?lks = "[''/etc/hosts.sdhm.lock'' \<mapsto> (7 :: nat)]"
  let ?r = "\<lparr>rc_HostsFile = ''/etc/hosts'', rc_BackupFile = ''/b'', rc_SectionName = ''x''\<rparr>"
  have p: "filepath_Abs ex_lock ''/etc/hosts'' = Inr ''/etc/hosts''" by (simp add: filepath_Abs_def Clean_def)
  have "\<exists>e. acquireHostsLock ex_lock 1 ''/etc/hosts'' ?lks = (Inl e, ?lks) \<and> errors_Is e ErrHostsLocked"
    by (rule acquireHostsLock_held [OF p, where fmode = "0x180"])
      (simp_all add: ex_lock_def hostsLockSuffix_def IsRegular_def ModeType_def)
  then obtain r p' lks' where run: "runDaemonWith (\<lambda>_. None) ex_cfg (ex_wiring disk_full) 0 (ex_process, ?lks) = Some (r, p', lks')"
    by (auto simp: runDaemonWith_def ex_wiring_def productionDaemonWiring_def ex_cfg_def)
  obtain r2 w' lks2 where regen: "regenerateHostsWith (\<lambda>_. None) ?r (ex_wiring disk_full) (\<lambda>_ _ _ _. ex_store disk_full) (ex_world, ?lks) = (r2, w', lks2)"
    by (metis prod.exhaust)
  have "lock_path ex_lock ''/etc/hosts'' = ''/etc/hosts.sdhm.lock''" using p by (simp add: lock_path_def hostsLockSuffix_def)
  with hosts_lock_exclusive [OF ex_wiring_def run regen] run regen show ?thesis by (simp add: ex_cfg_def)
qed

theorem accepted_config_constructs_witness:
  "\<exists>d. New ex_runtime (daemon_config_of ex_cfg) (Value KPointer (Some (ex_source (Inr []) NotReady)))
      (Value KPointer (Some (HostStore_of insertionSort (ex_store disk_full)))) False
      (Value KPointer (Some (ex_server (\<lambda>_. False)))) False = Inr d"
  using accepted_config_constructs [OF ex_cfg_accepted ex_cfg_store] by blast


text \<open>The daemon of the worked process on the worked Docker client.\<close>

definition ex_docker_daemon :: Daemon where
  "ex_docker_daemon =
     (let d = ex_daemon (HostStore_of insertionSort (ex_store (\<lambda>_. None))) (Inr []) NotReady (\<lambda>_. False)
      in d\<lparr>d_source := (d_source d)\<lparr>src_Snapshot := docker_Snapshot insertionSort (ex_client [''c2'', ''gone'', ''c1''])\<rparr>\<rparr>)"

definition ex_docker_body :: string where
  "ex_docker_body = ''172.18.0.2 app app.saltbox web web.saltbox'' @ [NL] @ ''172.18.0.3 app app.saltbox db db.saltbox'' @ [NL]"

lemma ex_docker_render: "renderEndpoints insertionSort ex_snapshot ''saltbox'' = Inr ex_docker_body"
  by (simp add: ex_snapshot_def ex_docker_body_def render_eval)

lemma ex_world_clock: "w_clock ex_world = 0"
  by (simp add: ex_world_def)

lemma ex_docker_reconciled: "\<exists>p'. reconcile ex_docker_daemon (\<lambda>_. None) ex_process = (None, p')"
proof -
  let ?s = "ex_store (\<lambda>_. None)"
  have w: "w_fs (later n ex_world) = w_fs ex_world" for n by (simp add: later_def)
  have clean: "\<forall>ep\<in>set ex_snapshot. clean_zone ep" by (simp add: ex_snapshot_def clean_zone_def)
  have "\<exists>w'. Apply insertionSort ?s (\<lambda>_. None) ex_snapshot (later 1 ex_world) = (None, w')"
  proof (rule Apply_completes_lemma)
    show "body_fits (beginMarker ?s) (endMarker ?s) ex_docker_body"
      using rendered_body_fits [OF go_insertion.slices_sort_axioms ex_docker_render clean,
          of "'' BEGIN DOCKER CONTAINERS''" "'' END DOCKER CONTAINERS''"] by simp
    show "\<forall>n. length (i_data ex_node) + length ex_docker_body \<le> op_wlimit (store_ops ?s) n"
      by (simp add: ex_node_def ex_hosts_def ex_docker_body_def ex_ops_def)
  qed (use ex_healthy ex_ok ex_roomy ex_files ex_settled ex_marked ex_docker_render in \<open>simp_all add: settled_def ex_node_def w\<close>)
  then obtain w' where "Apply insertionSort ?s (\<lambda>_. None) ex_snapshot (later 1 ex_world) = (None, w')" by blast
  with ex_taken show ?thesis
    by (auto simp: reconcile_def instant_def ex_docker_daemon_def ex_daemon_def HostStore_of_def Let_def track_def called_def ex_config_def
        ex_process_def ex_world_clock)
qed


end
